(* ===== verification/Prelude.thy ===== *)
theory Prelude
  imports Main "HOL-Library.Word" "HOL-Library.List_Lexorder"
begin

text \<open>
  Shared vocabulary of the development: Go's error values and the three ways a Go function can
  end (a value, an error, a panic), 32- and 64-bit signed arithmetic with the wrap-around written
  out, Go's truncating division, checked slice access, byte strings, and the generic facts on them
  that the component theories use. The collection \<open>go_simps\<close> holds the rewrite rules for the
  outcome type and \<open>i64\<close> the rules that remove a wrap-around when the value is in range.
\<close>

unbundle bit_operations_syntax

named_theorems go_simps \<open>evaluation of outcomes and their composition\<close>
named_theorems i64 \<open>wrap-around of machine integers on values in range\<close>

section \<open>Errors and outcomes\<close>

text \<open>
  An error is a plain message (\<^verbatim>\<open>errors.New\<close>), a formatted message or a typed error
  with its integer arguments, or a message wrapping another error (\<^verbatim>\<open>%w\<close>). Only the
  parts a caller can inspect or a theorem mentions are kept: string arguments that the code formats
  into a message for a human reader are left out.
\<close>

datatype err =
    ErrNew string
  | ErrFmt string "int list"
  | ErrWrap string err

datatype 'a outcome = Ok 'a | Err err | Panic string

fun bindo :: "'a outcome \<Rightarrow> ('a \<Rightarrow> 'b outcome) \<Rightarrow> 'b outcome" where
  "bindo (Ok x) f = f x"
| "bindo (Err e) f = Err e"
| "bindo (Panic s) f = Panic s"

definition is_ok :: "'a outcome \<Rightarrow> bool" where
  "is_ok r = (case r of Ok _ \<Rightarrow> True | _ \<Rightarrow> False)"

definition is_err :: "'a outcome \<Rightarrow> bool" where
  "is_err r = (case r of Err _ \<Rightarrow> True | _ \<Rightarrow> False)"

definition is_panic :: "'a outcome \<Rightarrow> bool" where
  "is_panic r = (case r of Panic _ \<Rightarrow> True | _ \<Rightarrow> False)"

lemma is_ok_simps [simp, go_simps]:
  "is_ok (Ok x)" "\<not> is_ok (Err e)" "\<not> is_ok (Panic s)"
  by (simp_all add: is_ok_def)

lemma is_err_simps [simp, go_simps]:
  "\<not> is_err (Ok x)" "is_err (Err e)" "\<not> is_err (Panic s)"
  by (simp_all add: is_err_def)

lemma is_panic_simps [simp, go_simps]:
  "\<not> is_panic (Ok x)" "\<not> is_panic (Err e)" "is_panic (Panic s)"
  by (simp_all add: is_panic_def)

lemma is_okE: "is_ok r \<Longrightarrow> (\<And>x. r = Ok x \<Longrightarrow> P) \<Longrightarrow> P"
  by (cases r) auto

lemma bindo_Ok_iff [go_simps]: "bindo r f = Ok y \<longleftrightarrow> (\<exists>x. r = Ok x \<and> f x = Ok y)"
  by (cases r) auto

lemma bindo_OkE: "bindo r f = Ok y \<Longrightarrow> (\<And>x. r = Ok x \<Longrightarrow> f x = Ok y \<Longrightarrow> P) \<Longrightarrow> P"
  by (cases r) auto

lemma bindo_assoc [go_simps]: "bindo (bindo r f) g = bindo r (\<lambda>x. bindo (f x) g)"
  by (cases r) auto

lemma bindo_not_panic:
  "\<not> is_panic r \<Longrightarrow> (\<And>x. r = Ok x \<Longrightarrow> \<not> is_panic (f x)) \<Longrightarrow> \<not> is_panic (bindo r f)"
  by (cases r) auto

text \<open>Run a check over a list and stop at the first one that does not succeed.\<close>

fun each :: "('a \<Rightarrow> unit outcome) \<Rightarrow> 'a list \<Rightarrow> unit outcome" where
  "each f [] = Ok ()"
| "each f (x # xs) = bindo (f x) (\<lambda>_. each f xs)"

lemma each_Ok_iff: "each f xs = Ok () \<longleftrightarrow> (\<forall>x\<in>set xs. f x = Ok ())"
  by (induction xs) (auto simp: bindo_Ok_iff)

section \<open>Machine integers\<close>

abbreviation MaxInt64 :: int where "MaxInt64 \<equiv> 9223372036854775807"
abbreviation MinInt64 :: int where "MinInt64 \<equiv> -9223372036854775808"
abbreviation MaxInt32 :: int where "MaxInt32 \<equiv> 2147483647"
abbreviation MinInt32 :: int where "MinInt32 \<equiv> -2147483648"

definition in64 :: "int \<Rightarrow> bool" where
  "in64 x \<longleftrightarrow> MinInt64 \<le> x \<and> x \<le> MaxInt64"

definition in32 :: "int \<Rightarrow> bool" where
  "in32 x \<longleftrightarrow> MinInt32 \<le> x \<and> x \<le> MaxInt32"

definition wrap64 :: "int \<Rightarrow> int" where
  "wrap64 x = (x + 9223372036854775808) mod 18446744073709551616 - 9223372036854775808"

definition wrap32 :: "int \<Rightarrow> int" where
  "wrap32 x = (x + 2147483648) mod 4294967296 - 2147483648"

lemma wrap64_id [i64]: "in64 x \<Longrightarrow> wrap64 x = x"
  by (simp add: in64_def wrap64_def)

lemma wrap64_idI: "MinInt64 \<le> x \<Longrightarrow> x \<le> MaxInt64 \<Longrightarrow> wrap64 x = x"
  by (simp add: in64_def i64)

lemma in64_wrap64 [simp]: "in64 (wrap64 x)"
proof -
  have "0 \<le> (x + 9223372036854775808) mod 18446744073709551616"
    and "(x + 9223372036854775808) mod 18446744073709551616 < 18446744073709551616"
    by simp_all
  then show ?thesis by (simp add: in64_def wrap64_def)
qed

lemma wrap32_id [i64]: "in32 x \<Longrightarrow> wrap32 x = x"
  by (simp add: in32_def wrap32_def)

lemma in32_in64: "in32 x \<Longrightarrow> in64 x"
  by (simp add: in32_def in64_def)

text \<open>Go's \<^verbatim>\<open>/\<close> and \<^verbatim>\<open>%\<close> truncate towards zero.\<close>

definition quot :: "int \<Rightarrow> int \<Rightarrow> int" where
  "quot a b = sgn a * sgn b * (\<bar>a\<bar> div \<bar>b\<bar>)"

definition remt :: "int \<Rightarrow> int \<Rightarrow> int" where
  "remt a b = a - b * quot a b"

lemma quot_nonneg [i64]: "0 \<le> a \<Longrightarrow> 0 < b \<Longrightarrow> quot a b = a div b"
  by (cases "a = 0") (simp_all add: quot_def sgn_if)

lemma remt_nonneg [i64]: "0 \<le> a \<Longrightarrow> 0 < b \<Longrightarrow> remt a b = a mod b"
  by (simp add: remt_def quot_nonneg minus_mult_div_eq_mod)

lemma quot_neg: "a < 0 \<Longrightarrow> 0 < b \<Longrightarrow> quot a b = - ((- a) div b)"
  by (simp add: quot_def sgn_if)

lemma int_div_le_self: "0 \<le> x \<Longrightarrow> 0 < b \<Longrightarrow> x div b \<le> (x :: int)"
  using zdiv_mono2 [of x 1 b] by simp

lemma abs_quot_le: "0 < b \<Longrightarrow> \<bar>quot a b\<bar> \<le> \<bar>a\<bar>"
  using int_div_le_self [of "\<bar>a\<bar>" b]
  by (cases "0 \<le> a") (simp_all add: quot_nonneg quot_neg pos_imp_zdiv_nonneg_iff)

lemma in64_quot [i64]: "in64 a \<Longrightarrow> 0 < b \<Longrightarrow> in64 (quot a b)"
proof -
  assume a: "in64 a" and b: "0 < b"
  show ?thesis
  proof (cases "0 \<le> a")
    case True
    have "0 \<le> a div b" using True b by (simp add: pos_imp_zdiv_nonneg_iff)
    moreover have "a div b \<le> a" using True b by (rule int_div_le_self)
    ultimately show ?thesis using a True b by (simp add: in64_def quot_nonneg)
  next
    case False
    have "0 \<le> (- a) div b" using False b by (simp add: pos_imp_zdiv_nonneg_iff)
    moreover have "(- a) div b \<le> - a" using False b by (intro int_div_le_self) simp_all
    ultimately show ?thesis using a False b by (simp add: in64_def quot_neg)
  qed
qed

section \<open>Slices\<close>

text \<open>
  Reading or writing a slice at an index that is negative or not below its length panics.
  \<^verbatim>\<open>make\<close> panics on a negative length.
\<close>

definition index_panic :: string where
  "index_panic = ''index out of range''"

definition index_at :: "'a list \<Rightarrow> int \<Rightarrow> 'a outcome" where
  "index_at xs i = (if 0 \<le> i \<and> i < int (length xs) then Ok (xs ! nat i) else Panic index_panic)"

definition store_at :: "'a list \<Rightarrow> int \<Rightarrow> 'a \<Rightarrow> 'a list outcome" where
  "store_at xs i x =
     (if 0 \<le> i \<and> i < int (length xs) then Ok (xs[nat i := x]) else Panic index_panic)"

definition make_slice :: "int \<Rightarrow> 'a \<Rightarrow> 'a list outcome" where
  "make_slice n x = (if n < 0 then Panic ''makeslice: len out of range'' else Ok (replicate (nat n) x))"

text \<open>\<^verbatim>\<open>copy(dst, src)\<close> overwrites the common prefix.\<close>

definition copy_into :: "'a list \<Rightarrow> 'a list \<Rightarrow> 'a list" where
  "copy_into dst src = take (length dst) src @ drop (length src) dst"

lemma index_at_Ok [simp]: "0 \<le> i \<Longrightarrow> i < int (length xs) \<Longrightarrow> index_at xs i = Ok (xs ! nat i)"
  by (simp add: index_at_def)

lemma store_at_Ok [simp]:
  "0 \<le> i \<Longrightarrow> i < int (length xs) \<Longrightarrow> store_at xs i x = Ok (xs[nat i := x])"
  by (simp add: store_at_def)

lemma length_copy_into [simp]: "length (copy_into dst src) = length dst"
  by (simp add: copy_into_def)

lemma nth_copy_into:
  "i < length dst \<Longrightarrow> copy_into dst src ! i = (if i < length src then src ! i else dst ! i)"
  by (simp add: copy_into_def nth_append)

section \<open>Byte strings\<close>

type_synonym byte = "8 word"
type_synonym bytes = "byte list"

text \<open>\<^verbatim>\<open>bytes.Compare\<close>: lexicographic, a proper prefix is smaller.\<close>

definition bytes_compare :: "bytes \<Rightarrow> bytes \<Rightarrow> int" where
  "bytes_compare a b = (if a < b then -1 else if a = b then 0 else 1)"

lemma bytes_compare_less [simp]: "bytes_compare a b < 0 \<longleftrightarrow> a < b"
  by (simp add: bytes_compare_def)

lemma bytes_compare_eq [simp]: "bytes_compare a b = 0 \<longleftrightarrow> a = b"
  by (simp add: bytes_compare_def)

lemma bytes_compare_greater [simp]: "0 < bytes_compare a b \<longleftrightarrow> b < a"
  by (auto simp: bytes_compare_def)

end
