(* ===== verification/Bit_Array.thy ===== *)
theory Bit_Array
  imports Prelude
begin

text \<open>
  The bit array of \<^verbatim>\<open>internal/bits/bit_array.go\<close>: the votes a node and its peers hold,
  and the block parts they have. The struct is a record; a Go pointer that may be nil is an
  option; slice accesses are checked, so a \<^verbatim>\<open>Bits\<close> field that does not fit
  \<^verbatim>\<open>Elems\<close> shows as a panic. The mutex of the struct is not modelled: every method
  holds it for its whole body, so each definition is one critical section. The array is related to
  the list of its bits (\<open>ba_abs\<close>) by a representation invariant (\<open>wf_ba\<close>), and the
  locale \<open>bit_store\<close> states what a client may rely on.
\<close>

section \<open>The struct and its operations\<close>

record bit_array =
  Bits :: int
  Elems :: "64 word list"

text \<open>\<^verbatim>\<open>(bits+63)/64\<close>, the number of 64-bit elements.\<close>

definition words_for :: "int \<Rightarrow> int" where
  "words_for bits = quot (wrap64 (bits + 63)) 64"

definition NewBitArray :: "int \<Rightarrow> bit_array option outcome" where
  "NewBitArray bits =
     (if bits \<le> 0 then Ok None
      else bindo (make_slice (words_for bits) 0) (\<lambda>es. Ok (Some \<lparr>Bits = bits, Elems = es\<rparr>)))"

text \<open>\<^verbatim>\<open>uint64(1) << uint(i%64)\<close>: a negative remainder becomes a huge shift, which gives 0.\<close>

definition bit_mask :: "int \<Rightarrow> 64 word" where
  "bit_mask i = (let k = remt i 64 in if 0 \<le> k then push_bit (nat k) 1 else 0)"

fun fromFn_loop :: "(int \<Rightarrow> bool) \<Rightarrow> int list \<Rightarrow> 64 word list \<Rightarrow> 64 word list outcome" where
  "fromFn_loop fn [] es = Ok es"
| "fromFn_loop fn (i # is) es =
     (if fn i
      then bindo (index_at es (quot i 64)) (\<lambda>e.
           bindo (store_at es (quot i 64) (e OR bit_mask i)) (fromFn_loop fn is))
      else fromFn_loop fn is es)"

definition NewBitArrayFromFn :: "int \<Rightarrow> (int \<Rightarrow> bool) \<Rightarrow> bit_array option outcome" where
  "NewBitArrayFromFn bits fn =
     (if bits \<le> 0 then Ok None
      else bindo (make_slice (words_for bits) 0) (\<lambda>es.
           bindo (fromFn_loop fn [0..bits - 1] es) (\<lambda>es'. Ok (Some \<lparr>Bits = bits, Elems = es'\<rparr>))))"

definition BitArray_Size :: "bit_array option \<Rightarrow> int" where
  "BitArray_Size bA = (case bA of None \<Rightarrow> 0 | Some b \<Rightarrow> Bits b)"

definition BitArray_getIndex :: "bit_array \<Rightarrow> int \<Rightarrow> bool outcome" where
  "BitArray_getIndex b i =
     (if i \<ge> Bits b then Ok False
      else bindo (index_at (Elems b) (quot i 64)) (\<lambda>e. Ok (0 < e AND bit_mask i)))"

definition BitArray_GetIndex :: "bit_array option \<Rightarrow> int \<Rightarrow> bool outcome" where
  "BitArray_GetIndex bA i = (case bA of None \<Rightarrow> Ok False | Some b \<Rightarrow> BitArray_getIndex b i)"

definition BitArray_setIndex :: "bit_array \<Rightarrow> int \<Rightarrow> bool \<Rightarrow> (bool \<times> bit_array) outcome" where
  "BitArray_setIndex b i v =
     (if i \<ge> Bits b then Ok (False, b)
      else bindo (index_at (Elems b) (quot i 64)) (\<lambda>e.
           bindo (store_at (Elems b) (quot i 64)
                    (if v then e OR bit_mask i else e AND NOT (bit_mask i))) (\<lambda>es.
           Ok (True, b\<lparr>Elems := es\<rparr>))))"

definition BitArray_SetIndex ::
    "bit_array option \<Rightarrow> int \<Rightarrow> bool \<Rightarrow> (bool \<times> bit_array option) outcome" where
  "BitArray_SetIndex bA i v =
     (case bA of
        None \<Rightarrow> Ok (False, None)
      | Some b \<Rightarrow> bindo (BitArray_setIndex b i v) (\<lambda>(ok, b'). Ok (ok, Some b')))"

definition BitArray_copy :: "bit_array \<Rightarrow> bit_array" where
  "BitArray_copy b =
     \<lparr>Bits = Bits b, Elems = copy_into (replicate (length (Elems b)) 0) (Elems b)\<rparr>"

definition BitArray_Copy :: "bit_array option \<Rightarrow> bit_array option" where
  "BitArray_Copy bA = (case bA of None \<Rightarrow> None | Some b \<Rightarrow> Some (BitArray_copy b))"

definition BitArray_copyBits :: "bit_array \<Rightarrow> int \<Rightarrow> bit_array outcome" where
  "BitArray_copyBits b bits =
     bindo (make_slice (words_for bits) 0) (\<lambda>c.
     Ok \<lparr>Bits = bits, Elems = copy_into c (Elems b)\<rparr>)"

text \<open>
  The loops \<^verbatim>\<open>for i := 0; i < n; i++ { c.Elems[i] op= o.Elems[i] }\<close>: one checked read of
  each operand and one write per round.
\<close>

fun elems_loop ::
    "(64 word \<Rightarrow> 64 word \<Rightarrow> 64 word) \<Rightarrow> 64 word list \<Rightarrow> nat list \<Rightarrow> 64 word list
       \<Rightarrow> 64 word list outcome" where
  "elems_loop f oe [] ce = Ok ce"
| "elems_loop f oe (i # is) ce =
     (if i < length ce \<and> i < length oe
      then elems_loop f oe is (ce[i := f (ce ! i) (oe ! i)])
      else Panic index_panic)"

definition BitArray_Or :: "bit_array option \<Rightarrow> bit_array option \<Rightarrow> bit_array option outcome" where
  "BitArray_Or bA oA =
     (case (bA, oA) of
        (None, None) \<Rightarrow> Ok None
      | (None, Some ob) \<Rightarrow> Ok (BitArray_Copy oA)
      | (Some b, None) \<Rightarrow> Ok (BitArray_Copy bA)
      | (Some b, Some ob) \<Rightarrow>
          bindo (BitArray_copyBits b (max (Bits b) (Bits ob))) (\<lambda>c.
          let smaller = min (length (Elems b)) (length (Elems ob)) in
          bindo (elems_loop (OR) (Elems ob) [0..<smaller] (Elems c)) (\<lambda>es.
          Ok (Some (c\<lparr>Elems := es\<rparr>)))))"

definition BitArray_and :: "bit_array \<Rightarrow> bit_array \<Rightarrow> bit_array outcome" where
  "BitArray_and b ob =
     bindo (BitArray_copyBits b (min (Bits b) (Bits ob))) (\<lambda>c.
     bindo (elems_loop (AND) (Elems ob) [0..<length (Elems c)] (Elems c)) (\<lambda>es.
     Ok (c\<lparr>Elems := es\<rparr>)))"

definition BitArray_And :: "bit_array option \<Rightarrow> bit_array option \<Rightarrow> bit_array option outcome" where
  "BitArray_And bA oA =
     (case (bA, oA) of
        (Some b, Some ob) \<Rightarrow> bindo (BitArray_and b ob) (\<lambda>c. Ok (Some c))
      | _ \<Rightarrow> Ok None)"

definition BitArray_not :: "bit_array \<Rightarrow> bit_array" where
  "BitArray_not b = (let c = BitArray_copy b in c\<lparr>Elems := map NOT (Elems c)\<rparr>)"

definition BitArray_Not :: "bit_array option \<Rightarrow> bit_array option" where
  "BitArray_Not bA = (case bA of None \<Rightarrow> None | Some b \<Rightarrow> Some (BitArray_not b))"

text \<open>\<^verbatim>\<open>&^\<close> is and-not.\<close>

definition BitArray_Sub :: "bit_array option \<Rightarrow> bit_array option \<Rightarrow> bit_array option outcome" where
  "BitArray_Sub bA oA =
     (case (bA, oA) of
        (Some b, Some ob) \<Rightarrow>
          bindo (BitArray_copyBits b (Bits b)) (\<lambda>c.
          let smaller = min (length (Elems b)) (length (Elems ob)) in
          bindo (elems_loop (\<lambda>x y. x AND NOT y) (Elems ob) [0..<smaller] (Elems c)) (\<lambda>es.
          Ok (Some (c\<lparr>Elems := es\<rparr>))))
      | _ \<Rightarrow> Ok None)"

definition BitArray_IsEmpty :: "bit_array option \<Rightarrow> bool" where
  "BitArray_IsEmpty bA =
     (case bA of None \<Rightarrow> True | Some b \<Rightarrow> \<not> list_ex (\<lambda>e. 0 < e) (Elems b))"

text \<open>\<^verbatim>\<open>(uint64(1)<<uint(n))-1\<close>; a shift by 64 gives 0, so the mask is all ones.\<close>

definition low_mask :: "int \<Rightarrow> 64 word" where
  "low_mask n = push_bit (nat n) 1 - 1"

definition BitArray_IsFull :: "bit_array option \<Rightarrow> bool outcome" where
  "BitArray_IsFull bA =
     (case bA of
        None \<Rightarrow> Ok True
      | Some b \<Rightarrow>
          (if Elems b = [] then Panic ''slice bounds out of range''
           else if list_ex (\<lambda>e. NOT e \<noteq> 0) (butlast (Elems b)) then Ok False
           else let lastElemBits = remt (wrap64 (Bits b + 63)) 64 + 1 in
                Ok ((last (Elems b) + 1) AND low_mask lastElemBits = 0)))"

text \<open>The bit positions of one element.\<close>

definition positions64 :: "nat list" where
  "positions64 = [0..<64]"

definition OnesCount64 :: "64 word \<Rightarrow> int" where
  "OnesCount64 w = int (length (filter (bit w) positions64))"

definition shl1 :: "nat \<Rightarrow> 64 word" where
  "shl1 i = push_bit i 1"

definition BitArray_getNumTrueIndices :: "bit_array \<Rightarrow> int outcome" where
  "BitArray_getNumTrueIndices b =
     (let numElems = int (length (Elems b));
          count = sum_list (map OnesCount64 (butlast (Elems b)));
          numFinalBits = wrap64 (Bits b - (numElems - 1) * 64)
      in if numFinalBits \<le> 0 then Ok count
         else bindo (index_at (Elems b) (numElems - 1)) (\<lambda>e.
              Ok (count + int (length (filter (\<lambda>i. 0 < e AND shl1 i) [0..<nat numFinalBits])))))"

text \<open>
  The inner loop of \<^verbatim>\<open>getNthTrueIndex\<close> over the bits of one element: the bit found, or
  the count carried on to the next element.
\<close>

fun nth_in_elem :: "64 word \<Rightarrow> int \<Rightarrow> nat list \<Rightarrow> int \<Rightarrow> nat + int" where
  "nth_in_elem e n [] count = Inr count"
| "nth_in_elem e n (j # js) count =
     (if e AND shl1 j \<noteq> 0
      then if count = n then Inl j else nth_in_elem e n js (count + 1)
      else nth_in_elem e n js count)"

fun nth_true_loop :: "64 word list \<Rightarrow> nat \<Rightarrow> int \<Rightarrow> int \<Rightarrow> int" where
  "nth_true_loop [] i n count = -1"
| "nth_true_loop (e # es) i n count =
     (let setBits = OnesCount64 e in
      if count + setBits \<ge> n
      then (case nth_in_elem e n positions64 count of
              Inl j \<Rightarrow> int i * 64 + int j
            | Inr count' \<Rightarrow> nth_true_loop es (Suc i) n count')
      else nth_true_loop es (Suc i) n (count + setBits))"

definition BitArray_getNthTrueIndex :: "bit_array \<Rightarrow> int \<Rightarrow> int" where
  "BitArray_getNthTrueIndex b n = nth_true_loop (Elems b) 0 n 0"

text \<open>\<^verbatim>\<open>rand.Rand.Intn\<close> is a parameter: a function that returns a value below its argument.\<close>

definition BitArray_PickRandom :: "(int \<Rightarrow> int) \<Rightarrow> bit_array option \<Rightarrow> (int \<times> bool) outcome" where
  "BitArray_PickRandom intn bA =
     (case bA of
        None \<Rightarrow> Ok (0, False)
      | Some b \<Rightarrow>
          bindo (BitArray_getNumTrueIndices b) (\<lambda>numTrueIndices.
          if numTrueIndices = 0 then Ok (0, False)
          else let index = BitArray_getNthTrueIndex b (intn numTrueIndices) in
               Ok (if index = -1 then (0, False) else (index, True))))"

definition BitArray_Update :: "bit_array option \<Rightarrow> bit_array option \<Rightarrow> bit_array option" where
  "BitArray_Update bA oA =
     (case (bA, oA) of
        (Some b, Some ob) \<Rightarrow> Some (b\<lparr>Elems := copy_into (Elems b) (Elems ob)\<rparr>)
      | _ \<Rightarrow> bA)"

subsection \<open>Encodings\<close>

fun mapo :: "('a \<Rightarrow> 'b outcome) \<Rightarrow> 'a list \<Rightarrow> 'b list outcome" where
  "mapo f [] = Ok []"
| "mapo f (x # xs) = bindo (f x) (\<lambda>y. bindo (mapo f xs) (\<lambda>ys. Ok (y # ys)))"

definition BitArray_MarshalJSON :: "bit_array option \<Rightarrow> string outcome" where
  "BitArray_MarshalJSON bA =
     (case bA of
        None \<Rightarrow> Ok ''null''
      | Some b \<Rightarrow>
          bindo (mapo (\<lambda>i. bindo (BitArray_getIndex b i) (\<lambda>v. Ok (if v then CHR ''x'' else CHR ''_'')))
                   [0..Bits b - 1]) (\<lambda>bits.
          Ok (CHR 0x22 # bits @ [CHR 0x22])))"

text \<open>The regular expression \<^verbatim>\<open>\A"([_x]*)"\z\<close>: the quoted text, if the input matches.\<close>

definition bitArrayJSONRegexp :: "string \<Rightarrow> string option" where
  "bitArrayJSONRegexp s =
     (if 2 \<le> length s \<and> hd s = CHR 0x22 \<and> last s = CHR 0x22
         \<and> list_all (\<lambda>c. c = CHR ''_'' \<or> c = CHR ''x'') (butlast (tl s))
      then Some (butlast (tl s)) else None)"

fun unmarshal_loop :: "(nat \<times> char) list \<Rightarrow> bit_array option \<Rightarrow> bit_array option outcome" where
  "unmarshal_loop [] bA2 = Ok bA2"
| "unmarshal_loop ((i, c) # rest) bA2 =
     (if c = CHR ''x''
      then bindo (BitArray_SetIndex bA2 (int i) True) (\<lambda>(_, bA2'). unmarshal_loop rest bA2')
      else unmarshal_loop rest bA2)"

definition BitArray_UnmarshalJSON :: "bit_array \<Rightarrow> string \<Rightarrow> bit_array outcome" where
  "BitArray_UnmarshalJSON bA b =
     (if b = ''null'' then Ok (bA\<lparr>Bits := 0, Elems := []\<rparr>)
      else case bitArrayJSONRegexp b of
             None \<Rightarrow> Err (ErrNew ''bitArray in JSON should be a string of format'')
           | Some bits \<Rightarrow>
               bindo (NewBitArray (int (length bits))) (\<lambda>bA2.
               case bA2 of
                 None \<Rightarrow> Ok (bA\<lparr>Bits := 0, Elems := []\<rparr>)
               | Some _ \<Rightarrow>
                   bindo (unmarshal_loop (List.enumerate 0 bits) bA2) (\<lambda>r.
                   case r of
                     None \<Rightarrow> Panic ''nil pointer dereference''
                   | Some b2 \<Rightarrow>
                       Ok (bA\<lparr>Bits := Bits b2,
                              Elems := copy_into (replicate (length (Elems b2)) 0) (Elems b2)\<rparr>))))"

text \<open>
  The protobuf message \<^verbatim>\<open>libs.bits.v1.BitArray\<close> has the same two fields, so the record
  stands for both. \<^verbatim>\<open>FromProto\<close> on a nil message leaves the receiver as it is.
\<close>

definition BitArray_ToProto :: "bit_array option \<Rightarrow> bit_array option" where
  "BitArray_ToProto bA =
     (case bA of None \<Rightarrow> None | Some b \<Rightarrow> if Elems b = [] then None else Some b)"

definition BitArray_FromProto :: "bit_array \<Rightarrow> bit_array option \<Rightarrow> bit_array" where
  "BitArray_FromProto bA p =
     (case p of
        None \<Rightarrow> bA
      | Some pb \<Rightarrow>
          (let b1 = bA\<lparr>Bits := Bits pb\<rparr>
           in if Elems pb \<noteq> [] then b1\<lparr>Elems := Elems pb\<rparr> else b1))"

section \<open>Representation invariant and abstraction\<close>

text \<open>
  A well-formed array has at least one bit and exactly the elements its bits need. Bits of the last
  element at or beyond \<^verbatim>\<open>Bits\<close> are not constrained: \<^verbatim>\<open>Not\<close> sets them.
  \<open>clean_ba\<close> says that they are zero.
\<close>

definition wf_ba :: "bit_array \<Rightarrow> bool" where
  "wf_ba b \<longleftrightarrow> 0 < Bits b \<and> Bits b \<le> MaxInt64 - 63 \<and> int (length (Elems b)) = (Bits b + 63) div 64"

definition ba_bit :: "bit_array \<Rightarrow> nat \<Rightarrow> bool" where
  "ba_bit b n = bit (Elems b ! (n div 64)) (n mod 64)"

definition ba_abs :: "bit_array \<Rightarrow> bool list" where
  "ba_abs b = map (ba_bit b) [0..<nat (Bits b)]"

definition clean_ba :: "bit_array \<Rightarrow> bool" where
  "clean_ba b \<longleftrightarrow> (\<forall>n. nat (Bits b) \<le> n \<and> n < 64 * length (Elems b) \<longrightarrow> \<not> ba_bit b n)"

lemma length_ba_abs [simp]: "length (ba_abs b) = nat (Bits b)"
  by (simp add: ba_abs_def)

lemma nth_ba_abs [simp]: "i < nat (Bits b) \<Longrightarrow> ba_abs b ! i = ba_bit b i"
  by (simp add: ba_abs_def)

lemma words_for_eq: "0 < bits \<Longrightarrow> bits \<le> MaxInt64 - 63 \<Longrightarrow> words_for bits = (bits + 63) div 64"
  by (simp add: words_for_def wrap64_idI quot_nonneg)

lemma wf_length_elems: "wf_ba b \<Longrightarrow> length (Elems b) = (nat (Bits b) + 63) div 64"
proof -
  assume wf: "wf_ba b"
  then have "int (length (Elems b)) = (int (nat (Bits b)) + 63) div 64"
    by (simp add: wf_ba_def)
  then show ?thesis by linarith
qed

lemma wf_index: "wf_ba b \<Longrightarrow> n < nat (Bits b) \<Longrightarrow> n div 64 < length (Elems b)"
  by (simp add: wf_length_elems)

lemma wf_elems_ne: "wf_ba b \<Longrightarrow> Elems b \<noteq> []"
  using wf_length_elems [of b] by (auto simp: wf_ba_def)

lemma quot64_nat: "0 \<le> i \<Longrightarrow> quot i 64 = int (nat i div 64)"
  by (simp add: quot_nonneg zdiv_int)

lemma bit_mask_nonneg: "0 \<le> i \<Longrightarrow> bit_mask i = 2 ^ (nat i mod 64)"
  by (simp add: bit_mask_def remt_nonneg nat_mod_distrib)

lemma and_mask_bit: "(0 < e AND (2 :: 64 word) ^ k) = bit e k"
  by (simp add: bit_iff_and_push_bit_not_eq_0 word_gt_0)

lemma bit_pow2: "j < 64 \<Longrightarrow> bit ((2 :: 64 word) ^ k) j \<longleftrightarrow> j = k"
  by (auto simp: bit_exp_iff)

subsection \<open>Reading and writing one bit\<close>

lemma getIndex_abs:
  assumes "wf_ba b" and "0 \<le> i"
  shows "BitArray_getIndex b i = Ok (nat i < length (ba_abs b) \<and> ba_abs b ! nat i)"
proof (cases "i < Bits b")
  case True
  with assms have "nat i div 64 < length (Elems b)" by (intro wf_index) auto
  with True assms show ?thesis
    by (simp add: BitArray_getIndex_def quot64_nat bit_mask_nonneg and_mask_bit ba_bit_def nat_less_iff)
next
  case False
  with assms show ?thesis by (simp add: BitArray_getIndex_def)
qed

lemma ba_bit_update:
  assumes "wf_ba b" and "i < nat (Bits b)" and "n div 64 < length (Elems b)"
    and e: "\<And>j. j < 64 \<Longrightarrow> bit e j = (if j = i mod 64 then v else bit (Elems b ! (i div 64)) j)"
  shows "ba_bit (b\<lparr>Elems := (Elems b)[i div 64 := e]\<rparr>) n = (if n = i then v else ba_bit b n)"
proof (cases "n div 64 = i div 64")
  case True
  have "n = i \<longleftrightarrow> n mod 64 = i mod 64" using True by (metis div_mult_mod_eq)
  with True assms(3) show ?thesis by (simp add: ba_bit_def e)
next
  case False
  then show ?thesis by (auto simp: ba_bit_def)
qed

lemma setIndex_ok:
  assumes wf: "wf_ba b" and i: "0 \<le> i" "i < Bits b"
  obtains b' where "BitArray_setIndex b i v = Ok (True, b')" and "wf_ba b'" and "Bits b' = Bits b"
    and "length (Elems b') = length (Elems b)"
    and "\<And>n. n div 64 < length (Elems b) \<Longrightarrow> ba_bit b' n = (if n = nat i then v else ba_bit b n)"
proof -
  let ?k = "nat i div 64"
  let ?e = "if v then Elems b ! ?k OR bit_mask i else Elems b ! ?k AND NOT (bit_mask i)"
  let ?b = "b\<lparr>Elems := (Elems b)[?k := ?e]\<rparr>"
  have k: "?k < length (Elems b)" using wf i by (intro wf_index) auto
  have "BitArray_setIndex b i v = Ok (True, ?b)"
    using i k by (simp add: BitArray_setIndex_def quot64_nat)
  moreover have "wf_ba ?b" using wf by (simp add: wf_ba_def)
  moreover have "Bits ?b = Bits b" by simp
  moreover have "length (Elems ?b) = length (Elems b)" by simp
  moreover have "ba_bit ?b n = (if n = nat i then v else ba_bit b n)"
    if "n div 64 < length (Elems b)" for n
  proof (rule ba_bit_update [OF wf _ that])
    show "nat i < nat (Bits b)" using i by simp
  next
    fix j :: nat assume j: "j < 64"
    show "bit ?e j = (if j = nat i mod 64 then v else bit (Elems b ! ?k) j)"
      using j i by (auto simp: bit_mask_nonneg bit_or_iff bit_and_iff bit_not_iff bit_pow2)
  qed
  ultimately show thesis by (rule that)
qed

lemma setIndex_abs:
  assumes "wf_ba b" and "0 \<le> i" and "nat i < length (ba_abs b)"
  shows "\<exists>b'. BitArray_setIndex b i v = Ok (True, b') \<and> wf_ba b' \<and> ba_abs b' = (ba_abs b)[nat i := v]"
proof -
  have "i < Bits b" using assms by (simp add: nat_less_iff)
  with assms(1,2) obtain b' where b': "BitArray_setIndex b i v = Ok (True, b')" "wf_ba b'"
      "Bits b' = Bits b" "length (Elems b') = length (Elems b)"
      "\<And>n. n div 64 < length (Elems b) \<Longrightarrow> ba_bit b' n = (if n = nat i then v else ba_bit b n)"
    by (rule setIndex_ok [where v = v]) blast
  moreover have "ba_abs b' = (ba_abs b)[nat i := v]"
    by (rule nth_equalityI) (auto simp: b'(3,5) wf_index [OF assms(1)] nth_list_update)
  ultimately show ?thesis by blast
qed

section \<open>The contract clients rely on\<close>

text \<open>
  A store of bits: what a read returns, what a write changes, and that a write outside the array is
  refused without effect. The vote sets and part sets use the bit array only through these laws.
\<close>

locale bit_store =
  fixes inv :: "'b \<Rightarrow> bool"
    and abs :: "'b \<Rightarrow> bool list"
    and get :: "'b \<Rightarrow> int \<Rightarrow> bool outcome"
    and put :: "'b \<Rightarrow> int \<Rightarrow> bool \<Rightarrow> (bool \<times> 'b) outcome"
  assumes get_abs: "inv b \<Longrightarrow> 0 \<le> i \<Longrightarrow> get b i = Ok (nat i < length (abs b) \<and> abs b ! nat i)"
    and put_abs: "inv b \<Longrightarrow> 0 \<le> i \<Longrightarrow> nat i < length (abs b) \<Longrightarrow>
          \<exists>b'. put b i v = Ok (True, b') \<and> inv b' \<and> abs b' = (abs b)[nat i := v]"
    and put_outside: "inv b \<Longrightarrow> int (length (abs b)) \<le> i \<Longrightarrow> put b i v = Ok (False, b)"
begin

lemma put_total: "inv b \<Longrightarrow> 0 \<le> i \<Longrightarrow> \<exists>ok b'. put b i v = Ok (ok, b') \<and> inv b'"
  by (cases "nat i < length (abs b)") (use put_abs put_outside in \<open>fastforce simp: not_less\<close>)+

lemma get_put:
  assumes "inv b" "0 \<le> i" "0 \<le> j" "nat i < length (abs b)" "put b i v = Ok (ok, b')"
  shows "get b' j = (if j = i then Ok v else get b j)"
proof -
  from put_abs [OF assms(1,2,4), of v] assms(5)
  have b': "inv b'" "abs b' = (abs b)[nat i := v]" by auto
  show ?thesis
    using assms b' by (auto simp: get_abs nth_list_update nat_eq_iff)
qed

lemma put_keeps_length: "inv b \<Longrightarrow> 0 \<le> i \<Longrightarrow> put b i v = Ok (ok, b') \<Longrightarrow> length (abs b') = length (abs b)"
  by (cases "nat i < length (abs b)")
    (use put_abs [of b i v] put_outside [of b i v] in \<open>fastforce simp: not_less\<close>)+

end

interpretation ba: bit_store wf_ba ba_abs BitArray_getIndex BitArray_setIndex
proof unfold_locales
  show "wf_ba b \<Longrightarrow> int (length (ba_abs b)) \<le> i \<Longrightarrow> BitArray_setIndex b i v = Ok (False, b)"
    for b i v by (simp add: BitArray_setIndex_def wf_ba_def)
qed (use getIndex_abs setIndex_abs in auto)

section \<open>Constructors and element-wise operations\<close>

lemma NewBitArray_abs:
  assumes "0 < bits" and "bits \<le> MaxInt64 - 63"
  shows "\<exists>b. NewBitArray bits = Ok (Some b) \<and> wf_ba b \<and> clean_ba b \<and> Bits b = bits
           \<and> ba_abs b = replicate (nat bits) False"
proof -
  let ?b = "\<lparr>Bits = bits, Elems = replicate (nat ((bits + 63) div 64)) (0 :: 64 word)\<rparr>"
  have wf: "wf_ba ?b" using assms by (simp add: wf_ba_def pos_imp_zdiv_nonneg_iff)
  have new: "NewBitArray bits = Ok (Some ?b)"
    using assms by (simp add: NewBitArray_def words_for_eq make_slice_def pos_imp_zdiv_neg_iff)
  have zero: "\<not> ba_bit ?b n" if "n div 64 < length (Elems ?b)" for n
    using that by (simp add: ba_bit_def)
  have "ba_abs ?b = replicate (nat bits) False"
    using wf_index [OF wf] zero by (intro nth_equalityI) auto
  moreover have "clean_ba ?b"
    unfolding clean_ba_def using zero by (auto simp: div_less_iff_less_mult mult.commute)
  ultimately show ?thesis using wf new by auto
qed

lemma fromFn_loop_abs:
  "wf_ba b \<Longrightarrow> \<forall>i\<in>set is. 0 \<le> i \<and> i < Bits b \<Longrightarrow>
   \<exists>b'. fromFn_loop fn is (Elems b) = Ok (Elems b') \<and> wf_ba b' \<and> Bits b' = Bits b \<and>
     (\<forall>n<nat (Bits b). ba_abs b' ! n = (ba_abs b ! n \<or> int n \<in> set is \<and> fn (int n)))"
proof (induction "is" arbitrary: b)
  case (Cons i rest)
  show ?case
  proof (cases "fn i")
    case True
    obtain b1 where b1: "BitArray_setIndex b i True = Ok (True, b1)" "wf_ba b1" "ba_abs b1 = (ba_abs b)[nat i := True]"
      using setIndex_abs [of b i True] Cons.prems by (auto simp: nat_less_iff)
    have len: "Bits b1 = Bits b" using b1(1) by (auto simp: BitArray_setIndex_def bindo_Ok_iff split: if_splits)
    have "fromFn_loop fn (i # rest) (Elems b) = fromFn_loop fn rest (Elems b1)"
      using b1(1) True by (auto simp: BitArray_setIndex_def bindo_Ok_iff split: if_splits)
    moreover have "\<forall>j\<in>set rest. 0 \<le> j \<and> j < Bits b1" using Cons.prems len by simp
    from Cons.IH [OF b1(2) this] obtain b' where b': "fromFn_loop fn rest (Elems b1) = Ok (Elems b')" "wf_ba b'"
      "Bits b' = Bits b1"
      "\<forall>n<nat (Bits b1). ba_abs b' ! n = (ba_abs b1 ! n \<or> int n \<in> set rest \<and> fn (int n))" by blast
    moreover have "ba_abs b' ! n = (ba_abs b ! n \<or> int n \<in> set (i # rest) \<and> fn (int n))" if n: "n < nat (Bits b)" for n
    proof -
      have "0 \<le> i" using Cons.prems by simp
      then have "int n = i \<longleftrightarrow> nat i = n" by auto
      moreover have "ba_abs b1 ! n = (if nat i = n then True else ba_abs b ! n)" using n by (simp add: b1(3) nth_list_update)
      ultimately show ?thesis using b'(4) n len True by auto
    qed
    ultimately show ?thesis using len by auto
  next
    case False
    then show ?thesis using Cons.IH [OF Cons.prems(1)] Cons.prems(2) by (auto 0 3)
  qed
qed auto

lemma NewBitArrayFromFn_abs:
  assumes "0 < bits" and "bits \<le> MaxInt64 - 63"
  shows "\<exists>b. NewBitArrayFromFn bits fn = Ok (Some b) \<and> wf_ba b \<and> Bits b = bits \<and>
           ba_abs b = map (\<lambda>n. fn (int n)) [0..<nat bits]"
proof -
  obtain b0 where b0: "NewBitArray bits = Ok (Some b0)" "wf_ba b0" "Bits b0 = bits"
    "ba_abs b0 = replicate (nat bits) False"
    using NewBitArray_abs [OF assms] by blast
  obtain b1 where b1: "fromFn_loop fn [0..bits - 1] (Elems b0) = Ok (Elems b1)" "wf_ba b1" "Bits b1 = bits"
    "\<forall>n<nat bits. ba_abs b1 ! n = (int n \<in> set [0..bits - 1] \<and> fn (int n))"
    using fromFn_loop_abs [OF b0(2), of "[0..bits - 1]" fn] b0(3,4) by auto
  have "NewBitArrayFromFn bits fn = Ok (Some b1)"
    using b0(1,3) b1(1,3) assms(1)
    by (cases b0; cases b1) (auto simp: NewBitArrayFromFn_def NewBitArray_def bindo_Ok_iff split: if_splits)
  moreover have "ba_abs b1 = map (\<lambda>n. fn (int n)) [0..<nat bits]"
    using b1(3,4) by (intro nth_equalityI) auto
  ultimately show ?thesis using b1 by blast
qed

lemma elems_loop_ok:
  assumes "distinct is" and "\<forall>i\<in>set is. i < length ce \<and> i < length oe"
  shows "\<exists>es. elems_loop f oe is ce = Ok es \<and> length es = length ce
           \<and> (\<forall>i<length ce. es ! i = (if i \<in> set is then f (ce ! i) (oe ! i) else ce ! i))"
  using assms
proof (induction "is" arbitrary: ce)
  case (Cons k ks)
  let ?c = "ce[k := f (ce ! k) (oe ! k)]"
  from Cons.prems have k: "k < length ce" "k < length oe" "k \<notin> set ks" by auto
  from Cons.prems have "distinct ks" "\<forall>i\<in>set ks. i < length ?c \<and> i < length oe" by auto
  from Cons.IH [OF this] obtain es where es: "elems_loop f oe ks ?c = Ok es" "length es = length ?c"
    "\<forall>i<length ?c. es ! i = (if i \<in> set ks then f (?c ! i) (oe ! i) else ?c ! i)" by blast
  have "es ! i = (if i \<in> set (k # ks) then f (ce ! i) (oe ! i) else ce ! i)" if "i < length ce" for i
    using es(3) that k by (auto simp: nth_list_update)
  with es k show ?case by auto
qed simp

lemma copyBits_ok:
  assumes "0 < bits" and "bits \<le> MaxInt64 - 63"
  obtains c where "BitArray_copyBits b bits = Ok c" and "Bits c = bits" and "wf_ba c"
    and "\<And>i. i < length (Elems c) \<Longrightarrow> Elems c ! i = (if i < length (Elems b) then Elems b ! i else 0)"
proof -
  let ?c = "\<lparr>Bits = bits,
             Elems = copy_into (replicate (nat ((bits + 63) div 64)) 0) (Elems b)\<rparr> :: bit_array"
  have "BitArray_copyBits b bits = Ok ?c"
    using assms by (simp add: BitArray_copyBits_def words_for_eq make_slice_def pos_imp_zdiv_neg_iff)
  moreover have "Bits ?c = bits" by simp
  moreover have "wf_ba ?c" using assms by (simp add: wf_ba_def pos_imp_zdiv_nonneg_iff)
  moreover have "Elems ?c ! i = (if i < length (Elems b) then Elems b ! i else 0)"
    if "i < length (Elems ?c)" for i
    using that by (simp add: nth_copy_into)
  ultimately show thesis by (rule that)
qed

lemma wf_ba_mono_elems:
  "wf_ba b \<Longrightarrow> wf_ba c \<Longrightarrow> Bits b \<le> Bits c \<Longrightarrow> length (Elems b) \<le> length (Elems c)"
  by (simp add: wf_length_elems div_le_mono nat_mono)

text \<open>
  The exact result of \<^verbatim>\<open>Or\<close>: bits of the second operand are taken only from the
  elements both operands have.
\<close>

lemma Or_exact:
  assumes "wf_ba b" and "wf_ba ob"
  shows "\<exists>c. BitArray_Or (Some b) (Some ob) = Ok (Some c) \<and> wf_ba c \<and> Bits c = max (Bits b) (Bits ob)
     \<and> (\<forall>n. n div 64 < length (Elems c) \<longrightarrow> ba_bit c n \<longleftrightarrow>
          n div 64 < length (Elems b) \<and> (ba_bit b n \<or> n div 64 < length (Elems ob) \<and> ba_bit ob n))"
proof -
  have "0 < max (Bits b) (Bits ob)" "max (Bits b) (Bits ob) \<le> MaxInt64 - 63"
    using assms by (auto simp: wf_ba_def)
  then obtain c where c: "BitArray_copyBits b (max (Bits b) (Bits ob)) = Ok c"
    "Bits c = max (Bits b) (Bits ob)" "wf_ba c"
    "\<And>i. i < length (Elems c) \<Longrightarrow> Elems c ! i = (if i < length (Elems b) then Elems b ! i else 0)"
    by (rule copyBits_ok) blast
  let ?s = "min (length (Elems b)) (length (Elems ob))"
  have le: "length (Elems b) \<le> length (Elems c)"
    using wf_ba_mono_elems [OF assms(1) c(3)] c(2) by simp
  have "\<forall>i\<in>set [0..<?s]. i < length (Elems c) \<and> i < length (Elems ob)" using le by auto
  from elems_loop_ok [OF distinct_upt this, of "(OR)"] obtain es where es:
    "elems_loop (OR) (Elems ob) [0..<?s] (Elems c) = Ok es" "length es = length (Elems c)"
    "\<forall>i<length (Elems c). es ! i = (if i \<in> set [0..<?s] then Elems c ! i OR Elems ob ! i else Elems c ! i)"
    by blast
  let ?r = "c\<lparr>Elems := es\<rparr>"
  have "BitArray_Or (Some b) (Some ob) = Ok (Some ?r)"
    by (simp add: BitArray_Or_def c(1) Let_def es(1))
  moreover have "wf_ba ?r" using c(3) es(2) by (simp add: wf_ba_def)
  moreover have "ba_bit ?r n \<longleftrightarrow>
      n div 64 < length (Elems b) \<and> (ba_bit b n \<or> n div 64 < length (Elems ob) \<and> ba_bit ob n)"
    if "n div 64 < length (Elems ?r)" for n
    using that es(2,3) c(4) by (auto simp: ba_bit_def bit_or_iff)
  ultimately show ?thesis using c(2) by (intro exI [of _ ?r]) simp
qed

lemma And_exact:
  assumes "wf_ba b" and "wf_ba ob"
  shows "\<exists>c. BitArray_And (Some b) (Some ob) = Ok (Some c) \<and> wf_ba c
           \<and> ba_abs c = map2 (\<and>) (ba_abs b) (ba_abs ob)"
proof -
  have "0 < min (Bits b) (Bits ob)" "min (Bits b) (Bits ob) \<le> MaxInt64 - 63"
    using assms by (auto simp: wf_ba_def)
  then obtain c where c: "BitArray_copyBits b (min (Bits b) (Bits ob)) = Ok c"
    "Bits c = min (Bits b) (Bits ob)" "wf_ba c"
    "\<And>i. i < length (Elems c) \<Longrightarrow> Elems c ! i = (if i < length (Elems b) then Elems b ! i else 0)"
    by (rule copyBits_ok) blast
  have le: "length (Elems c) \<le> length (Elems b)" "length (Elems c) \<le> length (Elems ob)"
    using wf_ba_mono_elems [OF c(3) assms(1)] wf_ba_mono_elems [OF c(3) assms(2)] c(2) by simp_all
  have "\<forall>i\<in>set [0..<length (Elems c)]. i < length (Elems c) \<and> i < length (Elems ob)" using le by auto
  from elems_loop_ok [OF distinct_upt this, of "(AND)"] obtain es where es:
    "elems_loop (AND) (Elems ob) [0..<length (Elems c)] (Elems c) = Ok es" "length es = length (Elems c)"
    "\<forall>i<length (Elems c). es ! i = Elems c ! i AND Elems ob ! i"
    by auto
  let ?r = "c\<lparr>Elems := es\<rparr>"
  have "BitArray_And (Some b) (Some ob) = Ok (Some ?r)"
    by (simp add: BitArray_And_def BitArray_and_def c(1) es(1))
  moreover have wf: "wf_ba ?r" using c(3) es(2) by (simp add: wf_ba_def)
  moreover have "ba_abs ?r = map2 (\<and>) (ba_abs b) (ba_abs ob)"
  proof (rule nth_equalityI)
    fix n assume "n < length (ba_abs ?r)"
    then have n: "n < nat (Bits c)" by simp
    then have "n div 64 < length (Elems c)" using wf_index [OF c(3)] by blast
    then have "ba_bit ?r n \<longleftrightarrow> ba_bit b n \<and> ba_bit ob n"
      using es(3) c(4) le by (simp add: ba_bit_def bit_and_iff)
    moreover have "n < nat (Bits b)" "n < nat (Bits ob)" using n c(2) by auto
    ultimately show "ba_abs ?r ! n = map2 (\<and>) (ba_abs b) (ba_abs ob) ! n" using n by simp
  qed (simp add: c(2) min_def)
  ultimately show ?thesis by blast
qed

lemma Sub_exact:
  assumes "wf_ba b" and "wf_ba ob"
  shows "\<exists>c. BitArray_Sub (Some b) (Some ob) = Ok (Some c) \<and> wf_ba c \<and> Bits c = Bits b
     \<and> (\<forall>n. n div 64 < length (Elems b) \<longrightarrow> ba_bit c n \<longleftrightarrow>
          ba_bit b n \<and> \<not> (n div 64 < length (Elems ob) \<and> ba_bit ob n))"
proof -
  have "0 < Bits b" "Bits b \<le> MaxInt64 - 63" using assms by (auto simp: wf_ba_def)
  then obtain c where c: "BitArray_copyBits b (Bits b) = Ok c" "Bits c = Bits b" "wf_ba c"
    "\<And>i. i < length (Elems c) \<Longrightarrow> Elems c ! i = (if i < length (Elems b) then Elems b ! i else 0)"
    by (rule copyBits_ok) blast
  let ?s = "min (length (Elems b)) (length (Elems ob))"
  let ?f = "\<lambda>x y :: 64 word. x AND NOT y"
  have len: "length (Elems c) = length (Elems b)"
    using wf_length_elems [OF c(3)] wf_length_elems [OF assms(1)] c(2) by simp
  have "\<forall>i\<in>set [0..<?s]. i < length (Elems c) \<and> i < length (Elems ob)" using len by auto
  from elems_loop_ok [OF distinct_upt this, of ?f] obtain es where es:
    "elems_loop ?f (Elems ob) [0..<?s] (Elems c) = Ok es" "length es = length (Elems c)"
    "\<forall>i<length (Elems c). es ! i = (if i \<in> set [0..<?s] then ?f (Elems c ! i) (Elems ob ! i) else Elems c ! i)"
    by blast
  let ?r = "c\<lparr>Elems := es\<rparr>"
  have "BitArray_Sub (Some b) (Some ob) = Ok (Some ?r)"
    by (simp add: BitArray_Sub_def c(1) Let_def es(1))
  moreover have "wf_ba ?r" using c(3) es(2) by (simp add: wf_ba_def)
  moreover have "ba_bit ?r n \<longleftrightarrow> ba_bit b n \<and> \<not> (n div 64 < length (Elems ob) \<and> ba_bit ob n)"
    if "n div 64 < length (Elems b)" for n
    using that es(3) c(4) len by (auto simp: ba_bit_def bit_and_iff bit_not_iff)
  ultimately show ?thesis using c(2) by (intro exI [of _ ?r]) simp
qed

lemma copy_eq [simp]: "BitArray_copy b = \<lparr>Bits = Bits b, Elems = Elems b\<rparr>"
  by (simp add: BitArray_copy_def copy_into_def)

lemma Not_exact:
  assumes "wf_ba b"
  shows "wf_ba (BitArray_not b)" and "ba_abs (BitArray_not b) = map Not (ba_abs b)"
proof -
  show "wf_ba (BitArray_not b)" using assms by (simp add: wf_ba_def BitArray_not_def)
  show "ba_abs (BitArray_not b) = map Not (ba_abs b)"
    using wf_index [OF assms]
    by (intro nth_equalityI) (auto simp: BitArray_not_def ba_bit_def bit_not_iff)
qed

subsection \<open>Emptiness\<close>

lemma word_zero_iff_bits: "(e :: 64 word) = 0 \<longleftrightarrow> (\<forall>j<64. \<not> bit e j)"
proof
  show "\<forall>j<64. \<not> bit e j \<Longrightarrow> e = 0" by (rule bit_word_eqI) simp
qed simp

lemma IsEmpty_iff:
  assumes "wf_ba b"
  shows "BitArray_IsEmpty (Some b) \<longleftrightarrow> (\<forall>n<64 * length (Elems b). \<not> ba_bit b n)"
proof -
  have "BitArray_IsEmpty (Some b) \<longleftrightarrow> (\<forall>i<length (Elems b). \<forall>j<64. \<not> bit (Elems b ! i) j)"
    by (auto simp: BitArray_IsEmpty_def list_ex_iff word_gt_0 word_zero_iff_bits all_set_conv_all_nth)
  also have "\<dots> \<longleftrightarrow> (\<forall>n<64 * length (Elems b). \<not> ba_bit b n)"
  proof
    assume *: "\<forall>i<length (Elems b). \<forall>j<64. \<not> bit (Elems b ! i) j"
    then show "\<forall>n<64 * length (Elems b). \<not> ba_bit b n"
      by (auto simp: ba_bit_def div_less_iff_less_mult mult.commute)
  next
    assume *: "\<forall>n<64 * length (Elems b). \<not> ba_bit b n"
    show "\<forall>i<length (Elems b). \<forall>j<64. \<not> bit (Elems b ! i) j"
    proof (intro allI impI)
      fix i j :: nat assume ij: "i < length (Elems b)" "j < 64"
      then have "i * 64 + j < 64 * length (Elems b)" by linarith
      with * have "\<not> ba_bit b (i * 64 + j)" by blast
      with ij show "\<not> bit (Elems b ! i) j" by (simp add: ba_bit_def)
    qed
  qed
  finally show ?thesis .
qed

lemma IsEmpty_clean:
  assumes "wf_ba b" and "clean_ba b"
  shows "BitArray_IsEmpty (Some b) \<longleftrightarrow> True \<notin> set (ba_abs b)"
proof -
  have "nat (Bits b) \<le> 64 * length (Elems b)" using wf_length_elems [OF assms(1)] by linarith
  then have "(\<forall>n<64 * length (Elems b). \<not> ba_bit b n) \<longleftrightarrow> (\<forall>n<nat (Bits b). \<not> ba_bit b n)"
    using assms(2) by (meson clean_ba_def le_trans not_le)
  then show ?thesis
    by (auto simp: IsEmpty_iff [OF assms(1)] in_set_conv_nth)
qed

section \<open>Picking a set bit\<close>

text \<open>The positions of all set bits of the elements, in order.\<close>

fun true_idx :: "64 word list \<Rightarrow> nat list" where
  "true_idx [] = []"
| "true_idx (e # es) = filter (bit e) positions64 @ map ((+) 64) (true_idx es)"

lemma filter_upt_shift: "filter P [a..<a + n] = map ((+) a) (filter (\<lambda>i. P (a + i)) [0..<n])"
proof -
  have "[a..<a + n] = map ((+) a) [0..<n]" by (rule nth_equalityI) auto
  then show ?thesis by (simp add: filter_map o_def)
qed

lemma true_idx_filter:
  "true_idx es = filter (\<lambda>n. bit (es ! (n div 64)) (n mod 64)) [0..<64 * length es]"
proof (induction es)
  case (Cons e es)
  let ?P = "\<lambda>xs n. bit (xs ! (n div 64)) (n mod 64)"
  have "[0..<64 * length (e # es)] = positions64 @ [64..<64 + 64 * length es]"
    using upt_add_eq_append [of 0 64 "64 * length es"] by (simp add: positions64_def del: upt_rec_numeral)
  moreover have "filter (?P (e # es)) positions64 = filter (bit e) positions64"
    by (rule filter_cong) (simp_all add: positions64_def del: upt_rec_numeral)
  moreover have "filter (?P (e # es)) [64..<64 + 64 * length es]
      = map ((+) 64) (filter (\<lambda>i. ?P (e # es) (64 + i)) [0..<64 * length es])"
    by (rule filter_upt_shift)
  moreover have "(\<lambda>i. ?P (e # es) (64 + i)) = ?P es"
    by (simp add: fun_eq_iff div_add_self1)
  ultimately show ?case by (simp add: Cons)
qed simp

lemma and_shl1: "(e AND shl1 j \<noteq> 0) = bit e j" "(0 < e AND shl1 j) = bit e j"
  using and_mask_bit [of e j] by (simp_all add: shl1_def word_gt_0)

lemma nth_in_elem_spec:
  assumes "count \<le> n"
  shows "nth_in_elem e n js count =
    (let f = filter (bit e) js in
     if nat (n - count) < length f then Inl (f ! nat (n - count)) else Inr (count + int (length f)))"
  using assms
proof (induction js arbitrary: count)
  case (Cons j js)
  show ?case
  proof (cases "bit e j \<and> count \<noteq> n")
    case True
    with Cons.prems have "nat (n - count) = Suc (nat (n - (count + 1)))" by linarith
    with True Cons.IH [of "count + 1"] Cons.prems show ?thesis
      by (simp add: and_shl1 Let_def)
  next
    case False
    with Cons show ?thesis by (auto simp: and_shl1 Let_def)
  qed
qed (simp add: Let_def)

lemma nth_true_loop_spec:
  assumes "count \<le> n"
  shows "nth_true_loop es i n count =
    (if nat (n - count) < length (true_idx es)
     then int i * 64 + int (true_idx es ! nat (n - count)) else -1)"
  using assms
proof (induction es arbitrary: i count)
  case (Cons e es)
  let ?f = "filter (bit e) positions64" and ?c = "count + OnesCount64 e"
  have ones: "OnesCount64 e = int (length ?f)" by (simp add: OnesCount64_def)
  note inner = nth_in_elem_spec [OF Cons.prems, of e positions64, unfolded Let_def]
  show ?case
  proof (cases "nat (n - count) < length ?f")
    case True
    then have "n \<le> ?c" by (simp add: ones)
    moreover have "nth_in_elem e n positions64 count = Inl (?f ! nat (n - count))"
      using True inner by simp
    ultimately have "nth_true_loop (e # es) i n count = int i * 64 + int (?f ! nat (n - count))"
      by (simp add: Let_def)
    with True show ?thesis by (simp add: nth_append)
  next
    case False
    with Cons.prems have c: "?c \<le> n" by (simp add: ones)
    have sub: "nat (n - count) = length ?f + nat (n - ?c)" using c by (simp add: ones)
    have "nth_in_elem e n positions64 count = Inr ?c" using False inner by (simp add: ones)
    then have "nth_true_loop (e # es) i n count = nth_true_loop es (Suc i) n ?c"
      by (simp add: Let_def)
    also have "\<dots> = (if nat (n - ?c) < length (true_idx es)
        then int (Suc i) * 64 + int (true_idx es ! nat (n - ?c)) else -1)"
      by (rule Cons.IH [OF c])
    finally show ?thesis by (simp only: sub) (simp add: nth_append)
  qed
qed simp

lemma length_true_idx: "int (length (true_idx es)) = sum_list (map OnesCount64 es)"
  by (induction es) (simp_all add: OnesCount64_def)

definition ba_trues :: "bit_array \<Rightarrow> nat list" where
  "ba_trues b = filter (ba_bit b) [0..<nat (Bits b)]"

lemma getNumTrueIndices_spec:
  assumes "wf_ba b"
  shows "BitArray_getNumTrueIndices b = Ok (int (length (ba_trues b)))"
proof -
  let ?es = "Elems b" and ?k = "length (Elems b) - 1"
  have ne: "?es \<noteq> []" using assms by (rule wf_elems_ne)
  define nf where "nf = nat (Bits b) - 64 * ?k"
  have bits: "nat (Bits b) = 64 * ?k + nf" and nf: "0 < nf" "nf \<le> 64"
    using wf_length_elems [OF assms] assms by (auto simp: nf_def wf_ba_def)
  have fin: "wrap64 (Bits b - (int (length ?es) - 1) * 64) = int nf"
  proof -
    have "Bits b = int (nat (Bits b))" using assms by (simp add: wf_ba_def)
    then have "Bits b = 64 * int ?k + int nf" unfolding bits by simp
    moreover have "int ?k = int (length ?es) - 1" using ne by (simp add: Suc_le_eq)
    ultimately have "Bits b - (int (length ?es) - 1) * 64 = int nf" by simp
    with nf show ?thesis by (simp add: wrap64_idI)
  qed
  have last: "index_at ?es (int (length ?es) - 1) = Ok (last ?es)"
  proof -
    have "nat (int (length ?es) - 1) = ?k" by linarith
    with ne show ?thesis by (simp add: last_conv_nth)
  qed
  have "ba_trues b = filter (ba_bit b) [0..<64 * ?k] @ filter (ba_bit b) [64 * ?k..<64 * ?k + nf]"
    by (simp only: ba_trues_def bits upt_add_eq_append [of 0 "64 * ?k" nf] filter_append)
  moreover have "filter (ba_bit b) [0..<64 * ?k] = true_idx (butlast ?es)"
    unfolding true_idx_filter
    by (rule filter_cong) (auto simp: ba_bit_def nth_butlast div_less_iff_less_mult mult.commute)
  moreover have "length (filter (ba_bit b) [64 * ?k..<64 * ?k + nf])
      = length (filter (\<lambda>i. 0 < last ?es AND shl1 i) [0..<nf])"
  proof -
    have "filter (\<lambda>i. ba_bit b (64 * ?k + i)) [0..<nf] = filter (\<lambda>i. 0 < last ?es AND shl1 i) [0..<nf]"
      using nf ne by (intro filter_cong) (auto simp: ba_bit_def and_shl1 last_conv_nth)
    then show ?thesis by (simp add: filter_upt_shift)
  qed
  ultimately show ?thesis
    using nf(1) unfolding BitArray_getNumTrueIndices_def Let_def fin last
    by (simp flip: length_true_idx)
qed

lemma true_idx_prefix:
  assumes "wf_ba b"
  shows "\<exists>rest. true_idx (Elems b) = ba_trues b @ rest"
proof -
  have "nat (Bits b) \<le> 64 * length (Elems b)" using wf_length_elems [OF assms] by linarith
  from le_Suc_ex [OF this] obtain m where m: "64 * length (Elems b) = nat (Bits b) + m" ..
  have "true_idx (Elems b) = filter (ba_bit b) [0..<nat (Bits b) + m]"
    unfolding true_idx_filter m by (rule filter_cong) (simp_all add: ba_bit_def)
  then show ?thesis
    by (simp add: ba_trues_def upt_add_eq_append [of 0 "nat (Bits b)" m])
qed

lemma PickRandom_spec:
  assumes wf: "wf_ba b"
    and rng: "\<And>m. 0 < m \<Longrightarrow> 0 \<le> intn m \<and> intn m < m"
  shows "BitArray_PickRandom intn (Some b) =
    (if ba_trues b = [] then Ok (0, False)
     else Ok (int (ba_trues b ! nat (intn (int (length (ba_trues b))))), True))"
proof (cases "ba_trues b = []")
  case True
  then show ?thesis by (simp add: BitArray_PickRandom_def getNumTrueIndices_spec [OF wf])
next
  case False
  let ?n = "intn (int (length (ba_trues b)))"
  have n: "0 \<le> ?n" "nat ?n < length (ba_trues b)"
    using rng [of "int (length (ba_trues b))"] False by auto
  obtain rest where rest: "true_idx (Elems b) = ba_trues b @ rest"
    using true_idx_prefix [OF wf] by blast
  have "BitArray_getNthTrueIndex b ?n = int (ba_trues b ! nat ?n)"
    using n by (simp add: BitArray_getNthTrueIndex_def nth_true_loop_spec rest nth_append)
  then show ?thesis
    using False by (simp add: BitArray_PickRandom_def getNumTrueIndices_spec [OF wf] Let_def)
qed

section \<open>Fullness\<close>

lemma take_bit_Suc_nat: "take_bit k (Suc y) = 0 \<longleftrightarrow> take_bit k y = mask k"
proof -
  have "Suc y mod 2 ^ k = 0 \<longleftrightarrow> y mod 2 ^ k = 2 ^ k - 1"
    by (auto simp: mod_Suc)
  then show ?thesis by (simp add: take_bit_eq_mod mask_eq_exp_minus_1)
qed

lemma take_bit_Suc_zero_iff:
  assumes "k \<le> 64"
  shows "take_bit k (x + 1 :: 64 word) = 0 \<longleftrightarrow> (\<forall>j<k. bit x j)"
proof -
  have "unat (x + 1) = take_bit 64 (unat x + 1)"
    by (simp add: unat_word_ariths take_bit_eq_mod)
  then have "unat (take_bit k (x + 1)) = take_bit k (unat x + 1)"
    using assms by (simp add: unsigned_take_bit_eq min_absorb1 del: take_bit_Suc_bit0)
  then have "take_bit k (x + 1) = 0 \<longleftrightarrow> take_bit k (unat x) = mask k"
    by (simp flip: unat_eq_0 add: take_bit_Suc_nat)
  also have "\<dots> \<longleftrightarrow> (\<forall>j<k. bit (unat x) j)"
    by (auto simp: bit_eq_iff bit_take_bit_iff bit_mask_iff)
  also have "\<dots> \<longleftrightarrow> (\<forall>j<k. bit x j)"
    using assms by (auto simp: bit_unsigned_iff)
  finally show ?thesis .
qed

lemma low_mask_and: "0 \<le> n \<Longrightarrow> x AND low_mask n = take_bit (nat n) x"
  by (simp add: low_mask_def take_bit_eq_mask mask_eq_exp_minus_1)

lemma NOT_eq_0_iff: "NOT e = 0 \<longleftrightarrow> (\<forall>j<64. bit (e :: 64 word) j)"
  by (auto simp: word_zero_iff_bits bit_not_iff)

lemma last_word_bits:
  assumes "0 < (m :: nat)"
  shows "m = 64 * ((m + 63) div 64 - 1) + ((m + 63) mod 64 + 1)"
proof -
  have "64 * ((m + 63) div 64) + (m + 63) mod 64 = m + 63" by (rule mult_div_mod_eq)
  moreover have "1 \<le> (m + 63) div 64" using assms by linarith
  ultimately show ?thesis by linarith
qed

lemma IsFull_abs:
  assumes "wf_ba b"
  shows "BitArray_IsFull (Some b) = Ok (False \<notin> set (ba_abs b))"
proof -
  let ?es = "Elems b" and ?k = "length (Elems b) - 1"
  have ne: "?es \<noteq> []" using assms by (rule wf_elems_ne)
  obtain m where m: "Bits b = int m" "0 < m"
    using assms pos_int_cases [of "Bits b"] by (auto simp: wf_ba_def)
  define nf where "nf = (m + 63) mod 64 + 1"
  have r: "remt (wrap64 (Bits b + 63)) 64 + 1 = int nf"
    using assms m by (simp add: wf_ba_def wrap64_idI remt_nonneg nf_def zmod_int)
  have nf: "nf \<le> 64" by (simp add: nf_def Suc_le_eq)
  have bits: "nat (Bits b) = 64 * ?k + nf"
    using last_word_bits [OF m(2)] wf_length_elems [OF assms] m(1) by (simp add: nf_def)
  let ?A = "\<forall>n<64 * ?k. ba_bit b n" and ?B = "\<forall>j<nf. ba_bit b (64 * ?k + j)"
  have split: "(\<forall>n<64 * ?k + nf. ba_bit b n) \<longleftrightarrow> ?A \<and> ?B"
  proof
    assume ab: "?A \<and> ?B"
    show "\<forall>n<64 * ?k + nf. ba_bit b n"
    proof (intro allI impI)
      fix n assume "n < 64 * ?k + nf"
      with ab show "ba_bit b n"
        by (cases "n < 64 * ?k") (use ab [THEN conjunct2, rule_format, of "n - 64 * ?k"] in auto)
    qed
  qed simp
  have first: "(\<forall>n<64 * ?k. ba_bit b n) \<longleftrightarrow> \<not> list_ex (\<lambda>e. NOT e \<noteq> 0) (butlast ?es)"
  proof -
    have "(\<forall>n<64 * ?k. ba_bit b n) \<longleftrightarrow> (\<forall>i<?k. \<forall>j<64. bit (?es ! i) j)"
    proof (intro iffI allI impI)
      fix i j assume "\<forall>n<64 * ?k. ba_bit b n" and ij: "i < ?k" "j < (64 :: nat)"
      moreover from ij have "64 * i + j < 64 * ?k" by linarith
      ultimately have "ba_bit b (64 * i + j)" by blast
      with ij show "bit (?es ! i) j" by (simp add: ba_bit_def)
    next
      fix n assume "\<forall>i<?k. \<forall>j<64. bit (?es ! i) j" and "n < 64 * ?k"
      then show "ba_bit b n" by (simp add: ba_bit_def div_less_iff_less_mult mult.commute)
    qed
    also have "\<dots> \<longleftrightarrow> \<not> list_ex (\<lambda>e. NOT e \<noteq> 0) (butlast ?es)"
      by (auto simp: list_ex_length NOT_eq_0_iff nth_butlast)
    finally show ?thesis .
  qed
  have second: "(\<forall>j<nf. ba_bit b (64 * ?k + j))
      \<longleftrightarrow> (last ?es + 1) AND low_mask (remt (wrap64 (Bits b + 63)) 64 + 1) = 0"
    using nf ne by (simp add: r low_mask_and take_bit_Suc_zero_iff ba_bit_def last_conv_nth)
  have "False \<notin> set (ba_abs b) \<longleftrightarrow> (\<forall>n<nat (Bits b). ba_bit b n)"
    by (auto simp: in_set_conv_nth)
  also have "\<dots> \<longleftrightarrow> ?A \<and> ?B" unfolding bits by (rule split)
  finally show ?thesis using first second ne by (simp add: BitArray_IsFull_def Let_def)
qed

section \<open>JSON\<close>

lemma mapo_Ok: "(\<And>x. x \<in> set xs \<Longrightarrow> f x = Ok (g x)) \<Longrightarrow> mapo f xs = Ok (map g xs)"
  by (induction xs) auto

definition bit_char :: "bool \<Rightarrow> char" where
  "bit_char v = (if v then CHR ''x'' else CHR ''_'')"

lemma upto_map_int: "[0..int n - 1] = map int [0..<n]"
  by (induction n) (simp_all add: upto_rec2)

lemma MarshalJSON_abs:
  assumes "wf_ba b"
  shows "BitArray_MarshalJSON (Some b) = Ok (CHR 0x22 # map bit_char (ba_abs b) @ [CHR 0x22])"
proof -
  have "Bits b = int (nat (Bits b))" using assms by (simp add: wf_ba_def)
  then have idx: "[0..Bits b - 1] = map int [0..<nat (Bits b)]" by (metis upto_map_int)
  have "mapo (\<lambda>i. bindo (BitArray_getIndex b i) (\<lambda>v. Ok (if v then CHR ''x'' else CHR ''_'')))
          [0..Bits b - 1] = Ok (map (\<lambda>i. bit_char (ba_bit b (nat i))) [0..Bits b - 1])"
    using assms by (intro mapo_Ok) (auto simp: getIndex_abs bit_char_def nat_less_iff)
  then show ?thesis by (simp add: BitArray_MarshalJSON_def idx ba_abs_def o_def)
qed

lemma nth_Cons_diff: "i \<le> n \<Longrightarrow> (c # cs) ! (n - i) = (if n = i then c else cs ! (n - Suc i))"
  by (simp add: nth_Cons')

lemma unmarshal_loop_abs:
  assumes "wf_ba b2" and "i + length cs \<le> length (ba_abs b2)"
  shows "\<exists>b3. unmarshal_loop (List.enumerate i cs) (Some b2) = Ok (Some b3) \<and> wf_ba b3
     \<and> Bits b3 = Bits b2
     \<and> (\<forall>n<length (ba_abs b2). ba_abs b3 ! n \<longleftrightarrow>
          ba_abs b2 ! n \<or> i \<le> n \<and> n < i + length cs \<and> cs ! (n - i) = CHR ''x'')"
  using assms
proof (induction cs arbitrary: i b2)
  case (Cons c cs)
  show ?case
  proof (cases "c = CHR ''x''")
    case True
    from Cons.prems have "nat (int i) < length (ba_abs b2)" by simp
    with Cons.prems(1) obtain b' where b': "BitArray_setIndex b2 (int i) True = Ok (True, b')" "wf_ba b'"
      "ba_abs b' = (ba_abs b2)[i := True]"
      using setIndex_abs [of b2 "int i" True] by auto
    then have len: "length (ba_abs b') = length (ba_abs b2)" by simp
    from Cons.prems(2) len have "Suc i + length cs \<le> length (ba_abs b')" by simp
    from Cons.IH [OF b'(2) this] obtain b3 where b3:
      "unmarshal_loop (List.enumerate (Suc i) cs) (Some b') = Ok (Some b3)" "wf_ba b3" "Bits b3 = Bits b'"
      "\<forall>n<length (ba_abs b'). ba_abs b3 ! n \<longleftrightarrow>
         ba_abs b' ! n \<or> Suc i \<le> n \<and> n < Suc i + length cs \<and> cs ! (n - Suc i) = CHR ''x''" by blast
    have bits: "Bits b' = Bits b2" using len b'(2) Cons.prems(1) by (auto simp: wf_ba_def)
    have "ba_abs b3 ! n \<longleftrightarrow> ba_abs b2 ! n
        \<or> i \<le> n \<and> n < i + length (c # cs) \<and> (c # cs) ! (n - i) = CHR ''x''"
      if "n < length (ba_abs b2)" for n
      using b3(4) that len True Cons.prems(2)
      by (auto simp: b'(3) nth_Cons_diff nth_list_update)
    with b3 b'(1) True bits show ?thesis by (simp add: BitArray_SetIndex_def)
  next
    case False
    from Cons.prems(2) have "Suc i + length cs \<le> length (ba_abs b2)" by simp
    from Cons.IH [OF Cons.prems(1) this] obtain b3 where b3:
      "unmarshal_loop (List.enumerate (Suc i) cs) (Some b2) = Ok (Some b3)" "wf_ba b3" "Bits b3 = Bits b2"
      "\<forall>n<length (ba_abs b2). ba_abs b3 ! n \<longleftrightarrow>
         ba_abs b2 ! n \<or> Suc i \<le> n \<and> n < Suc i + length cs \<and> cs ! (n - Suc i) = CHR ''x''" by blast
    have "ba_abs b3 ! n \<longleftrightarrow> ba_abs b2 ! n
        \<or> i \<le> n \<and> n < i + length (c # cs) \<and> (c # cs) ! (n - i) = CHR ''x''"
      if "n < length (ba_abs b2)" for n
      using b3(4) that False by (auto simp: nth_Cons_diff split: if_splits)
    with b3 False show ?thesis by simp
  qed
qed auto

lemma UnmarshalJSON_abs:
  assumes "bits \<noteq> []" and "int (length bits) \<le> MaxInt64 - 63"
  shows "\<exists>r. BitArray_UnmarshalJSON bA (CHR 0x22 # map bit_char bits @ [CHR 0x22]) = Ok r
           \<and> wf_ba r \<and> ba_abs r = bits"
proof -
  let ?s = "CHR 0x22 # map bit_char bits @ [CHR 0x22]" and ?cs = "map bit_char bits"
  have re: "bitArrayJSONRegexp ?s = Some ?cs"
    by (auto simp: bitArrayJSONRegexp_def bit_char_def list_all_iff)
  have "0 < int (length bits)" using assms(1) by simp
  from NewBitArray_abs [OF this assms(2)] obtain b where b: "NewBitArray (int (length bits)) = Ok (Some b)"
    "wf_ba b" "Bits b = int (length bits)" "ba_abs b = replicate (length bits) False" by auto
  have "0 + length ?cs \<le> length (ba_abs b)" by (simp add: b(3))
  from unmarshal_loop_abs [OF b(2) this] obtain b3 where b3:
    "unmarshal_loop (List.enumerate 0 ?cs) (Some b) = Ok (Some b3)" "wf_ba b3" "Bits b3 = Bits b"
    "\<forall>n<length (ba_abs b). ba_abs b3 ! n \<longleftrightarrow>
       ba_abs b ! n \<or> 0 \<le> n \<and> n < 0 + length ?cs \<and> ?cs ! (n - 0) = CHR ''x''" by blast
  let ?r = "bA\<lparr>Bits := Bits b3, Elems := Elems b3\<rparr>"
  have "BitArray_UnmarshalJSON bA ?s = Ok ?r"
    using b(1) b3(1) re by (simp add: BitArray_UnmarshalJSON_def copy_into_def)
  moreover have "wf_ba ?r" using b3(2) by (simp add: wf_ba_def)
  moreover have "ba_abs ?r = bits"
  proof -
    have "ba_abs ?r = ba_abs b3" by (simp add: ba_abs_def ba_bit_def [abs_def])
    also have "\<dots> = bits"
    proof (rule nth_equalityI)
      fix n assume "n < length (ba_abs b3)"
      then have n: "n < length bits" using b(3) b3(3) by simp
      with b3(4) b(3) have "ba_abs b3 ! n \<longleftrightarrow> ba_abs b ! n \<or> ?cs ! n = CHR ''x''" by simp
      then show "ba_abs b3 ! n = bits ! n" using n by (simp add: b(4) bit_char_def)
    qed (simp add: b(3) b3(3))
    finally show ?thesis .
  qed
  ultimately show ?thesis by blast
qed

section \<open>Properties\<close>

text \<open>
  C37: on well-formed arrays \<^verbatim>\<open>And\<close>, \<^verbatim>\<open>Not\<close> and \<^verbatim>\<open>Sub\<close>
  never panic, return well-formed arrays and compute, bit by bit, the conjunction over the shorter
  length, the complement, and the first operand without the bits stored in the second one. The bits
  stored include the unused ones of the last element of a shorter second operand: when they are zero
  the second operand counts as padded with zeroes, as the comment of \<^verbatim>\<open>Sub\<close> says, and when one
  of them is set below the length of the first operand, as \<^verbatim>\<open>Not\<close> leaves them, \<^verbatim>\<open>Sub\<close>
  clears a bit the second operand does not have.
\<close>

theorem bitarray_algebra:
  assumes "wf_ba b" and "wf_ba ob"
  shows "(\<exists>c. BitArray_And (Some b) (Some ob) = Ok (Some c) \<and> wf_ba c
            \<and> ba_abs c = map2 (\<and>) (ba_abs b) (ba_abs ob))
       \<and> wf_ba (BitArray_not b) \<and> ba_abs (BitArray_not b) = map Not (ba_abs b)
       \<and> (\<exists>c. BitArray_Sub (Some b) (Some ob) = Ok (Some c) \<and> wf_ba c \<and> Bits c = Bits b
            \<and> (\<forall>n<nat (Bits b). ba_abs c ! n \<longleftrightarrow>
                 ba_abs b ! n \<and> \<not> (n < 64 * length (Elems ob) \<and> ba_bit ob n))
            \<and> ((\<forall>n<nat (Bits b). ba_abs c ! n \<longleftrightarrow>
                 ba_abs b ! n \<and> \<not> (n < length (ba_abs ob) \<and> ba_abs ob ! n)) \<longleftrightarrow>
               (\<forall>n<nat (Bits b). ba_abs b ! n \<and> nat (Bits ob) \<le> n \<and> n < 64 * length (Elems ob) \<longrightarrow> \<not> ba_bit ob n))
            \<and> (clean_ba ob \<longrightarrow> (\<forall>n<nat (Bits b). ba_abs c ! n \<longleftrightarrow>
                 ba_abs b ! n \<and> \<not> (n < length (ba_abs ob) \<and> ba_abs ob ! n))))"
proof (intro conjI)
  from Sub_exact [OF assms] obtain c where c: "BitArray_Sub (Some b) (Some ob) = Ok (Some c)"
    "wf_ba c" "Bits c = Bits b"
    "\<forall>n. n div 64 < length (Elems b) \<longrightarrow> ba_bit c n \<longleftrightarrow>
          ba_bit b n \<and> \<not> (n div 64 < length (Elems ob) \<and> ba_bit ob n)" by blast
  have exact: "ba_abs c ! n \<longleftrightarrow> ba_abs b ! n \<and> \<not> (n < 64 * length (Elems ob) \<and> ba_bit ob n)"
    if n: "n < nat (Bits b)" for n
    using n c wf_index [OF assms(1) n] by (auto simp: div_less_iff_less_mult mult.commute)
  have below: "n < nat (Bits ob) \<Longrightarrow> n < 64 * length (Elems ob)" for n
    using wf_index [OF assms(2)] by (simp add: div_less_iff_less_mult mult.commute)
  have padded: "(ba_abs c ! n \<longleftrightarrow> ba_abs b ! n \<and> \<not> (n < length (ba_abs ob) \<and> ba_abs ob ! n)) \<longleftrightarrow>
      (ba_abs b ! n \<and> nat (Bits ob) \<le> n \<and> n < 64 * length (Elems ob) \<longrightarrow> \<not> ba_bit ob n)"
    if n: "n < nat (Bits b)" for n
    using exact [OF n] below [of n] by (cases "n < nat (Bits ob)") auto
  have "clean_ba ob \<Longrightarrow> ba_abs c ! n \<longleftrightarrow> ba_abs b ! n \<and> \<not> (n < length (ba_abs ob) \<and> ba_abs ob ! n)"
    if n: "n < nat (Bits b)" for n
    using padded [OF n] by (auto simp: clean_ba_def)
  with c exact padded show "\<exists>c. BitArray_Sub (Some b) (Some ob) = Ok (Some c) \<and> wf_ba c \<and> Bits c = Bits b
      \<and> (\<forall>n<nat (Bits b). ba_abs c ! n \<longleftrightarrow> ba_abs b ! n \<and> \<not> (n < 64 * length (Elems ob) \<and> ba_bit ob n))
      \<and> ((\<forall>n<nat (Bits b). ba_abs c ! n \<longleftrightarrow>
            ba_abs b ! n \<and> \<not> (n < length (ba_abs ob) \<and> ba_abs ob ! n)) \<longleftrightarrow>
         (\<forall>n<nat (Bits b). ba_abs b ! n \<and> nat (Bits ob) \<le> n \<and> n < 64 * length (Elems ob) \<longrightarrow> \<not> ba_bit ob n))
      \<and> (clean_ba ob \<longrightarrow> (\<forall>n<nat (Bits b). ba_abs c ! n \<longleftrightarrow>
            ba_abs b ! n \<and> \<not> (n < length (ba_abs ob) \<and> ba_abs ob ! n)))" by blast
qed (use And_exact Not_exact assms in blast)+

text \<open>The second operand is the complement of two set bits: its third, unused bit is set, and the third bit of the first goes.\<close>

theorem bitarray_algebra_witness:
  "wf_ba \<lparr>Bits = 3, Elems = [7]\<rparr> \<and> wf_ba (BitArray_not \<lparr>Bits = 2, Elems = [3]\<rparr>) \<and>
   ba_abs (BitArray_not \<lparr>Bits = 2, Elems = [3]\<rparr>) = [False, False] \<and>
   (\<exists>c. BitArray_Sub (Some \<lparr>Bits = 3, Elems = [7]\<rparr>) (Some (BitArray_not \<lparr>Bits = 2, Elems = [3]\<rparr>)) = Ok (Some c) \<and>
      ba_abs \<lparr>Bits = 3, Elems = [7]\<rparr> ! 2 \<and> \<not> ba_abs c ! 2)"
proof -
  let ?b = "\<lparr>Bits = 3, Elems = [7]\<rparr>" and ?ob = "BitArray_not \<lparr>Bits = 2, Elems = [3]\<rparr>"
  have wf: "wf_ba ?b" "wf_ba ?ob" by (simp_all add: wf_ba_def BitArray_not_def)
  have bits: "ba_bit ?ob 2" "ba_abs ?ob = [False, False]" "ba_abs ?b ! 2" by code_simp+
  have len: "2 < 64 * length (Elems ?ob)" "2 < nat (Bits ?b)" by (simp_all add: BitArray_not_def)
  from bitarray_algebra [OF wf] obtain c where "BitArray_Sub (Some ?b) (Some ?ob) = Ok (Some c)"
    "\<forall>n<nat (Bits ?b). ba_abs c ! n \<longleftrightarrow> ba_abs ?b ! n \<and> \<not> (n < 64 * length (Elems ?ob) \<and> ba_bit ?ob n)" by blast
  then show ?thesis using wf bits len by blast
qed

text \<open>
  C38: \<^verbatim>\<open>PickRandom\<close> on a well-formed array, with any generator that returns a value below
  its argument: it never panics, it reports failure exactly when no bit below
  \<^verbatim>\<open>Bits\<close> is set, and otherwise returns the position of a set bit below
  \<^verbatim>\<open>Bits\<close>, also when the unused bits of the last element hold garbage.
\<close>

theorem bitarray_pick_random:
  assumes "wf_ba b" and "\<And>m. 0 < m \<Longrightarrow> 0 \<le> intn m \<and> intn m < m"
  shows "\<exists>i ok. BitArray_PickRandom intn (Some b) = Ok (i, ok)
           \<and> (ok \<longleftrightarrow> True \<in> set (ba_abs b))
           \<and> (ok \<longrightarrow> 0 \<le> i \<and> i < Bits b \<and> ba_abs b ! nat i)"
proof (cases "ba_trues b = []")
  case True
  then have "True \<notin> set (ba_abs b)"
    by (auto simp: ba_trues_def filter_empty_conv ba_abs_def)
  with True show ?thesis by (auto simp: PickRandom_spec [OF assms])
next
  case False
  let ?n = "nat (intn (int (length (ba_trues b))))"
  have "?n < length (ba_trues b)" using assms(2) [of "int (length (ba_trues b))"] False by auto
  then have "ba_trues b ! ?n \<in> set (ba_trues b)" by (rule nth_mem)
  then have i: "ba_trues b ! ?n < nat (Bits b)" "ba_bit b (ba_trues b ! ?n)"
    by (auto simp: ba_trues_def)
  then have "True \<in> set (ba_abs b)" by (force simp: ba_abs_def)
  moreover have "int (ba_trues b ! ?n) < Bits b" using i(1) by linarith
  ultimately show ?thesis using False i
    by (intro exI [of _ "int (ba_trues b ! ?n)"] exI [of _ True]) (simp add: PickRandom_spec [OF assms])
qed

theorem bitarray_pick_random_witness:
  "wf_ba \<lparr>Bits = 3, Elems = [4]\<rparr>
   \<and> (\<exists>i ok. BitArray_PickRandom (\<lambda>m. m - 1) (Some \<lparr>Bits = 3, Elems = [4]\<rparr>) = Ok (i, ok)
        \<and> (ok \<longleftrightarrow> True \<in> set (ba_abs \<lparr>Bits = 3, Elems = [4]\<rparr>)))"
  using bitarray_pick_random [of "\<lparr>Bits = 3, Elems = [4]\<rparr>" "\<lambda>m. m - 1"]
  by (auto simp: wf_ba_def)

text \<open>
  C39: JSON round trip. Marshalling a well-formed array and unmarshalling the text into any receiver
  succeeds and gives an array with the same bits.
\<close>

theorem bitarray_json_roundtrip:
  assumes "wf_ba b"
  shows "\<exists>txt r. BitArray_MarshalJSON (Some b) = Ok txt
           \<and> BitArray_UnmarshalJSON bA txt = Ok r \<and> wf_ba r \<and> ba_abs r = ba_abs b"
proof -
  have "int (length (ba_abs b)) \<le> MaxInt64 - 63" "ba_abs b \<noteq> []"
    using assms by (auto simp: wf_ba_def ba_abs_def)
  from UnmarshalJSON_abs [OF this(2,1), of bA] show ?thesis
    by (simp add: MarshalJSON_abs [OF assms])
qed

theorem bitarray_json_roundtrip_witness:
  "wf_ba \<lparr>Bits = 2, Elems = [2]\<rparr>
   \<and> (\<exists>txt r. BitArray_MarshalJSON (Some \<lparr>Bits = 2, Elems = [2]\<rparr>) = Ok txt
        \<and> BitArray_UnmarshalJSON \<lparr>Bits = 0, Elems = []\<rparr> txt = Ok r \<and> wf_ba r
        \<and> ba_abs r = ba_abs \<lparr>Bits = 2, Elems = [2]\<rparr>)"
  using bitarray_json_roundtrip [of "\<lparr>Bits = 2, Elems = [2]\<rparr>" "\<lparr>Bits = 0, Elems = []\<rparr>"]
  by (simp add: wf_ba_def)

text \<open>
  C40: what \<^verbatim>\<open>Or\<close> really computes. Its comment promises the bitwise or with the shorter
  array padded with zeroes. On clean well-formed arrays the result has the larger size, and it is
  that padded or if and only if the second array has no bit set beyond the elements of the first:
  the loop stops at the shorter element slice, so bits that only a longer second array has are lost.
\<close>

theorem bitarray_or_drops_tail:
  assumes "wf_ba b" and "wf_ba ob" and "clean_ba b" and "clean_ba ob"
  shows "\<exists>c. BitArray_Or (Some b) (Some ob) = Ok (Some c) \<and> wf_ba c \<and> Bits c = max (Bits b) (Bits ob)
     \<and> ((\<forall>n<nat (Bits c). ba_bit c n \<longleftrightarrow>
            n < nat (Bits b) \<and> ba_bit b n \<or> n < nat (Bits ob) \<and> ba_bit ob n)
        \<longleftrightarrow> (\<forall>n<nat (Bits ob). 64 * length (Elems b) \<le> n \<longrightarrow> \<not> ba_bit ob n))"
proof -
  from Or_exact [OF assms(1,2)] obtain c where c: "BitArray_Or (Some b) (Some ob) = Ok (Some c)"
    "wf_ba c" "Bits c = max (Bits b) (Bits ob)"
    "\<forall>n. n div 64 < length (Elems c) \<longrightarrow> ba_bit c n \<longleftrightarrow>
        n div 64 < length (Elems b) \<and> (ba_bit b n \<or> n div 64 < length (Elems ob) \<and> ba_bit ob n)"
    by blast
  have b: "n div 64 < length (Elems b) \<and> ba_bit b n \<longleftrightarrow> n < nat (Bits b) \<and> ba_bit b n" for n
    using assms(3) wf_index [OF assms(1)]
    by (auto simp: clean_ba_def div_less_iff_less_mult mult.commute not_less)
  have ob: "n div 64 < length (Elems ob) \<and> ba_bit ob n \<longleftrightarrow> n < nat (Bits ob) \<and> ba_bit ob n" for n
    using assms(4) wf_index [OF assms(2)]
    by (auto simp: clean_ba_def div_less_iff_less_mult mult.commute not_less)
  have eq: "ba_bit c n \<longleftrightarrow> n < nat (Bits b) \<and> ba_bit b n
      \<or> n < nat (Bits ob) \<and> ba_bit ob n \<and> n < 64 * length (Elems b)" if "n < nat (Bits c)" for n
    using c(4) wf_index [OF c(2) that] b [of n] ob [of n]
    by (auto simp: div_less_iff_less_mult mult.commute)
  have bnd: "n < nat (Bits b) \<Longrightarrow> n < 64 * length (Elems b)" for n
    using wf_length_elems [OF assms(1)] by linarith
  have "(\<forall>n<nat (Bits c). ba_bit c n \<longleftrightarrow> n < nat (Bits b) \<and> ba_bit b n \<or> n < nat (Bits ob) \<and> ba_bit ob n)
      \<longleftrightarrow> (\<forall>n<nat (Bits ob). 64 * length (Elems b) \<le> n \<longrightarrow> \<not> ba_bit ob n)"
    (is "?L \<longleftrightarrow> ?R")
  proof
    assume l: ?L
    show ?R
    proof (intro allI impI notI)
      fix n assume n: "n < nat (Bits ob)" "64 * length (Elems b) \<le> n" "ba_bit ob n"
      then have "n < nat (Bits c)" by (simp add: c(3))
      with l n have "ba_bit c n" by blast
      with eq [OF \<open>n < nat (Bits c)\<close>] n bnd [of n] show False by auto
    qed
  next
    assume r: ?R
    show ?L
    proof (intro allI impI)
      fix n assume "n < nat (Bits c)"
      from eq [OF this] r show "ba_bit c n \<longleftrightarrow> n < nat (Bits b) \<and> ba_bit b n \<or> n < nat (Bits ob) \<and> ba_bit ob n"
        by (meson not_le)
    qed
  qed
  with c show ?thesis by blast
qed

theorem bitarray_or_drops_tail_witness:
  "\<not> (\<forall>n<nat (Bits \<lparr>Bits = 65, Elems = [0, 1]\<rparr>). 64 * length (Elems \<lparr>Bits = 1, Elems = [1]\<rparr>) \<le> n
        \<longrightarrow> \<not> ba_bit \<lparr>Bits = 65, Elems = [0, 1]\<rparr> n)
   \<and> (\<exists>c. BitArray_Or (Some \<lparr>Bits = 1, Elems = [1]\<rparr>) (Some \<lparr>Bits = 65, Elems = [0, 1]\<rparr>) = Ok (Some c)
        \<and> Bits c = 65)"
proof
  show "\<not> (\<forall>n<nat (Bits \<lparr>Bits = 65, Elems = [0, 1]\<rparr>). 64 * length (Elems \<lparr>Bits = 1, Elems = [1]\<rparr>) \<le> n
        \<longrightarrow> \<not> ba_bit \<lparr>Bits = 65, Elems = [0, 1]\<rparr> n)"
    by (auto simp: ba_bit_def intro!: exI [of _ 64])
  have "clean_ba \<lparr>Bits = 1, Elems = [1]\<rparr>"
    by (auto simp: clean_ba_def ba_bit_def bit_1_iff)
  moreover have "clean_ba \<lparr>Bits = 65, Elems = [0, 1]\<rparr>"
  proof -
    have "\<not> ba_bit \<lparr>Bits = 65, Elems = [0, 1]\<rparr> n" if "65 \<le> n" "n < 128" for n
    proof -
      from that have "n div 64 = 1" "n mod 64 = n - 64" by (auto simp: div_nat_eqI mod_if)
      with that show ?thesis by (simp add: ba_bit_def bit_1_iff)
    qed
    then show ?thesis by (simp add: clean_ba_def)
  qed
  ultimately show "\<exists>c. BitArray_Or (Some \<lparr>Bits = 1, Elems = [1]\<rparr>) (Some \<lparr>Bits = 65, Elems = [0, 1]\<rparr>)
      = Ok (Some c) \<and> Bits c = 65"
    using bitarray_or_drops_tail [of "\<lparr>Bits = 1, Elems = [1]\<rparr>" "\<lparr>Bits = 65, Elems = [0, 1]\<rparr>"]
    by (auto simp: wf_ba_def)
qed

end
