(* ===== verification/Merkle.thy ===== *)
theory Merkle
  imports Prelude
begin

text \<open>
  Merkle trees and inclusion proofs: \<^verbatim>\<open>crypto/merkle/hash.go\<close>,
  \<^verbatim>\<open>tree.go\<close> and \<^verbatim>\<open>proof.go\<close>. The digest \<open>sha\<close>
  (SHA-256 in the code) is a parameter. The nodes that \<^verbatim>\<open>trailsFromByteSlices\<close>
  links by pointers live in an explicit store, a list of nodes whose addresses are positions, so
  that the aliasing between a trail and the later mutation of its root is the code's. The theory
  shows that the iterative and the recursive root agree, that every proof the code builds verifies,
  and that a proof that verifies names the right leaf unless two of the strings hashed on the way
  collide.
\<close>

section \<open>hash.go\<close>

definition leafPrefix :: bytes where "leafPrefix = [0]"

definition innerPrefix :: bytes where "innerPrefix = [1]"

definition emptyHash :: "(bytes \<Rightarrow> bytes) \<Rightarrow> bytes" where
  "emptyHash sha = sha []"

definition leafHash :: "(bytes \<Rightarrow> bytes) \<Rightarrow> bytes \<Rightarrow> bytes" where
  "leafHash sha leaf = sha (leafPrefix @ leaf)"

text \<open>The \<^verbatim>\<open>Opt\<close> variants write the pieces into a reset hash state.\<close>

definition leafHashOpt :: "(bytes \<Rightarrow> bytes) \<Rightarrow> bytes \<Rightarrow> bytes" where
  "leafHashOpt sha leaf = sha (concat [leafPrefix, leaf])"

definition innerHash :: "(bytes \<Rightarrow> bytes) \<Rightarrow> bytes \<Rightarrow> bytes \<Rightarrow> bytes" where
  "innerHash sha left right = sha (innerPrefix @ left @ right)"

definition innerHashOpt :: "(bytes \<Rightarrow> bytes) \<Rightarrow> bytes \<Rightarrow> bytes \<Rightarrow> bytes" where
  "innerHashOpt sha left right = sha (concat [innerPrefix, left, right])"

section \<open>tree.go\<close>

text \<open>\<^verbatim>\<open>bits.Len\<close>: the number of bits of the binary representation.\<close>

fun bits_Len :: "nat \<Rightarrow> nat" where
  "bits_Len n = (if n = 0 then 0 else Suc (bits_Len (n div 2)))"

declare bits_Len.simps [simp del]

text \<open>
  \<open>split_point\<close> is the body of \<^verbatim>\<open>getSplitPoint\<close> after its guard; the callers below
  reach it with a length of at least two only.
\<close>

definition split_point :: "int \<Rightarrow> int" where
  "split_point len =
     (let k = 2 ^ (bits_Len (nat len) - 1) in if k = len then k div 2 else k)"

definition getSplitPoint :: "int \<Rightarrow> int outcome" where
  "getSplitPoint len =
     (if len < 1 then Panic ''Trying to split a tree with size < 1'' else Ok (split_point len))"

lemma bits_Len_bounds: "0 < n \<Longrightarrow> 2 ^ (bits_Len n - 1) \<le> n \<and> n < 2 ^ bits_Len n"
proof (induction n rule: bits_Len.induct)
  case (1 n)
  show ?case
  proof (cases "n div 2 = 0")
    case True
    then have "n = 1" using 1 by linarith
    then show ?thesis by (simp add: bits_Len.simps)
  next
    case False
    define m where "m = bits_Len (n div 2)"
    have m: "2 ^ (m - 1) \<le> n div 2" "n div 2 < 2 ^ m" using 1 False by (simp_all add: m_def)
    have m0: "m \<noteq> 0" using m False by (metis less_one power_0)
    have b: "bits_Len n = Suc m" using 1 by (simp add: m_def bits_Len.simps [of n])
    have "(2::nat) ^ m = 2 * 2 ^ (m - 1)" using m0 by (cases m) simp_all
    then have "2 ^ m \<le> n" using m(1) by linarith
    moreover have "n < 2 * 2 ^ m" using m(2) by linarith
    ultimately show ?thesis by (simp add: b)
  qed
qed

text \<open>The split point is the largest power of two below the length.\<close>

lemma split_point_pow2:
  assumes "2 \<le> n"
  shows "\<exists>j. split_point (int n) = 2 ^ j \<and> 2 ^ j < n \<and> n \<le> 2 * 2 ^ j"
proof -
  define b where "b = bits_Len n - 1"
  have lo: "2 ^ b \<le> n" and hi: "n < 2 ^ bits_Len n"
    using bits_Len_bounds [of n] assms by (simp_all add: b_def)
  have "bits_Len n = Suc b"
    using hi assms by (cases "bits_Len n") (simp_all add: b_def)
  with hi have hi': "n < 2 * 2 ^ b" by simp
  have sp: "split_point (int n) = (if 2 ^ b = n then int (2 ^ b) div 2 else int (2 ^ b))"
    by (simp add: split_point_def b_def Let_def) (metis of_nat_eq_iff of_nat_numeral of_nat_power)
  show ?thesis
  proof (cases "2 ^ b = n")
    case True
    then obtain c where c: "b = Suc c" using assms by (cases b) simp_all
    then have n: "n = 2 * 2 ^ c" using True by simp
    then have "split_point (int n) = 2 ^ c" using sp True by simp
    then show ?thesis using True c assms by (intro exI [of _ c]) auto
  next
    case False
    then show ?thesis using sp lo hi' by (intro exI [of _ b]) auto
  qed
qed

lemma split_point_nat:
  assumes "2 \<le> n"
  obtains j where "nat (split_point (int n)) = 2 ^ j" "split_point (int n) = int (2 ^ j)"
    "2 ^ j < n" "n \<le> 2 * 2 ^ j"
proof -
  from split_point_pow2 [OF assms] obtain j
    where "split_point (int n) = 2 ^ j" "2 ^ j < n" "n \<le> 2 * 2 ^ j" by blast
  then show ?thesis by (intro that [of j]) (simp_all add: nat_power_eq)
qed

lemma split_point_range:
  "2 \<le> n \<Longrightarrow> 0 < nat (split_point (int n)) \<and> nat (split_point (int n)) < n"
  by (erule split_point_nat) (simp only: zero_less_power zero_less_numeral)

lemma split_point_int: "1 < t \<Longrightarrow> 0 < split_point t \<and> split_point t < t"
  using split_point_range [of "nat t"] by simp

function hashFromByteSlices :: "(bytes \<Rightarrow> bytes) \<Rightarrow> bytes list \<Rightarrow> bytes" where
  "hashFromByteSlices sha items =
     (if length items = 0 then emptyHash sha
      else if length items = 1 then leafHashOpt sha (items ! 0)
      else
        let k = nat (split_point (int (length items)));
            left = hashFromByteSlices sha (take k items);
            right = hashFromByteSlices sha (drop k items)
        in innerHashOpt sha left right)"
  by pat_completeness auto
termination
proof (relation "measure (length \<circ> snd)", goal_cases)
  case (2 sha items x)
  then have "2 \<le> length items" by linarith
  from split_point_range [OF this] show ?case using 2 by auto
next
  case (3 sha items x xa)
  then have "2 \<le> length items" by linarith
  from split_point_range [OF this] show ?case using 3 by auto
qed simp

declare hashFromByteSlices.simps [simp del]

definition HashFromByteSlices :: "(bytes \<Rightarrow> bytes) \<Rightarrow> bytes list \<Rightarrow> bytes" where
  "HashFromByteSlices sha items = hashFromByteSlices sha items"

text \<open>One pass of the iterative variant over the current level, in place.\<close>

function level_loop ::
  "(bytes \<Rightarrow> bytes) \<Rightarrow> bytes list \<Rightarrow> nat \<Rightarrow> nat \<Rightarrow> nat \<Rightarrow> bytes list \<times> nat" where
  "level_loop sha items sz rp wp =
     (if rp < sz then
        if rp + 1 < sz then
          level_loop sha (items[wp := innerHashOpt sha (items ! rp) (items ! (rp + 1))]) sz (rp + 2) (wp + 1)
        else level_loop sha (items[wp := items ! rp]) sz (rp + 1) (wp + 1)
      else (items, wp))"
  by pat_completeness auto
termination by (relation "measure (\<lambda>(sha, items, sz, rp, wp). sz - rp)") auto

declare level_loop.simps [simp del]

lemma level_loop_size: "snd (level_loop sha items sz rp wp) = wp + (sz - rp + 1) div 2"
proof (induction sha items sz rp wp rule: level_loop.induct)
  case (1 sha items sz rp wp)
  consider "\<not> rp < sz" | "rp < sz" "\<not> rp + 1 < sz" | "rp + 1 < sz" by linarith
  then show ?case
  proof cases
    case 3
    then have "(sz - (rp + 2) + 1) div 2 + 1 = (sz - rp + 1) div 2" by presburger
    then show ?thesis using 1 3 by (subst level_loop.simps) simp
  qed (use 1 in \<open>subst level_loop.simps; simp\<close>)+
qed

function root_loop :: "(bytes \<Rightarrow> bytes) \<Rightarrow> bytes list \<Rightarrow> nat \<Rightarrow> bytes" where
  "root_loop sha items sz =
     (if sz = 0 then emptyHash sha
      else if sz = 1 then items ! 0
      else let (items', wp) = level_loop sha items sz 0 0 in root_loop sha items' wp)"
  by pat_completeness auto
termination
proof (relation "measure (\<lambda>(sha, items, sz). sz)", goal_cases)
  case (2 sha items sz x xa y)
  then show ?case using level_loop_size [of sha items sz 0 0] by (cases "level_loop sha items sz 0 0") auto
qed simp_all

declare root_loop.simps [simp del]

definition HashFromByteSlicesIterative :: "(bytes \<Rightarrow> bytes) \<Rightarrow> bytes list \<Rightarrow> bytes" where
  "HashFromByteSlicesIterative sha input = root_loop sha (map (leafHash sha) input) (length input)"

section \<open>proof.go\<close>

definition MaxAunts :: nat where "MaxAunts = 100"

definition tmhash_Size :: nat where "tmhash_Size = 32"

record Proof =
  pfTotal :: int
  pfIndex :: int
  pfLeafHash :: bytes
  pfAunts :: "bytes list"

definition ErrInvalidHash :: "err \<Rightarrow> err" where
  "ErrInvalidHash e = ErrWrap ''merkle: invalid hash'' e"

definition ErrInvalidProof :: "err \<Rightarrow> err" where
  "ErrInvalidProof e = ErrWrap ''merkle: invalid proof'' e"

definition ErrMaxAuntsLenExceeded :: err where
  "ErrMaxAuntsLenExceeded = ErrFmt ''merkle: maximum aunts length exceeded'' [int MaxAunts]"

function computeHashFromAunts ::
  "(bytes \<Rightarrow> bytes) \<Rightarrow> int \<Rightarrow> int \<Rightarrow> bytes \<Rightarrow> bytes list \<Rightarrow> bytes outcome" where
  "computeHashFromAunts sha index tot lfHash innerHashes =
     (if index \<ge> tot \<or> index < 0 \<or> tot \<le> 0
      then Err (ErrFmt ''invalid index and/or total'' [index, tot])
      else if tot = 1 then
        (if innerHashes \<noteq> [] then Err (ErrNew ''unexpected inner hashes'') else Ok lfHash)
      else if innerHashes = [] then Err (ErrNew ''expected at least one inner hash'')
      else
        let numLeft = split_point tot in
        if index < numLeft then
          bindo (computeHashFromAunts sha index numLeft lfHash (butlast innerHashes))
            (\<lambda>leftHash. Ok (innerHashOpt sha leftHash (last innerHashes)))
        else
          bindo (computeHashFromAunts sha (index - numLeft) (tot - numLeft) lfHash (butlast innerHashes))
            (\<lambda>rightHash. Ok (innerHashOpt sha (last innerHashes) rightHash)))"
  by pat_completeness auto
termination by (relation "measure (\<lambda>(sha, index, tot, lfHash, innerHashes). length innerHashes)") auto

declare computeHashFromAunts.simps [simp del]

definition Proof_computeRootHash :: "(bytes \<Rightarrow> bytes) \<Rightarrow> Proof \<Rightarrow> bytes outcome" where
  "Proof_computeRootHash sha sp =
     computeHashFromAunts sha (pfIndex sp) (pfTotal sp) (pfLeafHash sp) (pfAunts sp)"

text \<open>
  A nil and an empty root are both the empty list here: the code rejects a nil root in its first
  check and an empty one in its last, both with \<^verbatim>\<open>ErrInvalidHash\<close>, since a digest is
  never empty.
\<close>

definition Proof_Verify :: "(bytes \<Rightarrow> bytes) \<Rightarrow> Proof \<Rightarrow> bytes \<Rightarrow> bytes \<Rightarrow> unit outcome" where
  "Proof_Verify sha sp rootHash leaf =
     (if rootHash = [] then Err (ErrInvalidHash (ErrNew ''nil root''))
      else if pfTotal sp < 0 then Err (ErrInvalidProof (ErrNew ''negative proof total''))
      else if pfIndex sp < 0 then Err (ErrInvalidProof (ErrNew ''negative proof index''))
      else if pfLeafHash sp \<noteq> leafHashOpt sha leaf then Err (ErrInvalidHash (ErrNew ''leaf''))
      else case Proof_computeRootHash sha sp of
        Err e \<Rightarrow> Err (ErrInvalidHash (ErrWrap ''compute root hash'' e))
      | Panic p \<Rightarrow> Panic p
      | Ok computedHash \<Rightarrow>
          if computedHash \<noteq> rootHash then Err (ErrInvalidHash (ErrNew ''root'')) else Ok ())"

fun aunts_check :: "int \<Rightarrow> bytes list \<Rightarrow> unit outcome" where
  "aunts_check i [] = Ok ()"
| "aunts_check i (auntHash # rest) =
     (if length auntHash \<noteq> tmhash_Size
      then Err (ErrInvalidHash (ErrFmt ''aunt# hash length'' [i, int (length auntHash), int tmhash_Size]))
      else aunts_check (i + 1) rest)"

definition Proof_ValidateBasic :: "Proof \<Rightarrow> unit outcome" where
  "Proof_ValidateBasic sp =
     (if pfTotal sp < 0 then Err (ErrInvalidProof (ErrNew ''negative proof total''))
      else if pfIndex sp < 0 then Err (ErrInvalidProof (ErrNew ''negative proof index''))
      else if length (pfLeafHash sp) \<noteq> tmhash_Size
        then Err (ErrInvalidHash (ErrFmt ''leaf length'' [int (length (pfLeafHash sp)), int tmhash_Size]))
      else if length (pfAunts sp) > MaxAunts then Err ErrMaxAuntsLenExceeded
      else aunts_check 0 (pfAunts sp))"

text \<open>The generated protobuf type has the same four fields, so its values are the records here.\<close>

definition Proof_ToProto :: "Proof option \<Rightarrow> Proof option" where
  "Proof_ToProto sp =
     (case sp of None \<Rightarrow> None
      | Some p \<Rightarrow> Some \<lparr>pfTotal = pfTotal p, pfIndex = pfIndex p, pfLeafHash = pfLeafHash p,
                     pfAunts = pfAunts p\<rparr>)"

definition ProofFromProto :: "Proof option \<Rightarrow> Proof outcome" where
  "ProofFromProto pb =
     (case pb of None \<Rightarrow> Err (ErrInvalidProof (ErrNew ''nil proof''))
      | Some p \<Rightarrow>
          let sp = \<lparr>pfTotal = pfTotal p, pfIndex = pfIndex p, pfLeafHash = pfLeafHash p,
                    pfAunts = pfAunts p\<rparr>
          in bindo (Proof_ValidateBasic sp) (\<lambda>_. Ok sp))"

subsection \<open>Building proofs\<close>

record ProofNode =
  pnHash :: bytes
  pnParent :: "nat option"
  pnLeft :: "nat option"
  pnRight :: "nat option"

type_synonym node_store = "ProofNode list"

partial_function (option) FlattenAunts_loop ::
  "node_store \<Rightarrow> nat option \<Rightarrow> bytes list \<Rightarrow> bytes list option" where
  "FlattenAunts_loop h spn innerHashes =
     (case spn of
        None \<Rightarrow> Some innerHashes
      | Some a \<Rightarrow>
          FlattenAunts_loop h (pnParent (h ! a))
            (case pnLeft (h ! a) of
               Some l \<Rightarrow> innerHashes @ [pnHash (h ! l)]
             | None \<Rightarrow>
                (case pnRight (h ! a) of
                   Some r \<Rightarrow> innerHashes @ [pnHash (h ! r)]
                 | None \<Rightarrow> innerHashes)))"

definition ProofNode_FlattenAunts :: "node_store \<Rightarrow> nat \<Rightarrow> bytes list option" where
  "ProofNode_FlattenAunts h spn = FlattenAunts_loop h (Some spn) []"

function trailsFromByteSlicesInternal ::
  "(bytes \<Rightarrow> bytes) \<Rightarrow> bytes list \<Rightarrow> node_store \<Rightarrow> nat list \<times> nat \<times> node_store" where
  "trailsFromByteSlicesInternal sha items h =
     (if length items = 0 then
        ([], length h, h @ [\<lparr>pnHash = emptyHash sha, pnParent = None, pnLeft = None, pnRight = None\<rparr>])
      else if length items = 1 then
        ([length h], length h,
         h @ [\<lparr>pnHash = leafHashOpt sha (items ! 0), pnParent = None, pnLeft = None, pnRight = None\<rparr>])
      else
        let k = nat (split_point (int (length items)));
            (lefts, leftRoot, h1) = trailsFromByteSlicesInternal sha (take k items) h;
            (rights, rightRoot, h2) = trailsFromByteSlicesInternal sha (drop k items) h1;
            rootHash = innerHashOpt sha (pnHash (h2 ! leftRoot)) (pnHash (h2 ! rightRoot));
            root = length h2;
            h3 = h2 @ [\<lparr>pnHash = rootHash, pnParent = None, pnLeft = None, pnRight = None\<rparr>];
            h4 = h3[leftRoot := (h3 ! leftRoot)\<lparr>pnParent := Some root, pnRight := Some rightRoot\<rparr>];
            h5 = h4[rightRoot := (h4 ! rightRoot)\<lparr>pnParent := Some root, pnLeft := Some leftRoot\<rparr>]
        in (lefts @ rights, root, h5))"
  by pat_completeness auto
termination
proof (relation "measure (\<lambda>(sha, items, h). length items)", goal_cases)
  case (2 sha items h x)
  then have "2 \<le> length items" by linarith
  from split_point_range [OF this] show ?case using 2 by auto
next
  case (3 sha items h x xa y xb ya)
  then have "2 \<le> length items" by linarith
  from split_point_range [OF this] show ?case using 3 by auto
qed simp

declare trailsFromByteSlicesInternal.simps [simp del]

definition trailsFromByteSlices ::
  "(bytes \<Rightarrow> bytes) \<Rightarrow> bytes list \<Rightarrow> nat list \<times> nat \<times> node_store" where
  "trailsFromByteSlices sha items = trailsFromByteSlicesInternal sha items []"

text \<open>The result is \<open>None\<close> when following the parent pointers would not end.\<close>

definition ProofsFromByteSlices ::
  "(bytes \<Rightarrow> bytes) \<Rightarrow> bytes list \<Rightarrow> (bytes \<times> Proof list) option" where
  "ProofsFromByteSlices sha items =
     (let (trails, root, h) = trailsFromByteSlices sha items in
      case those (map (ProofNode_FlattenAunts h) trails) of
        None \<Rightarrow> None
      | Some auntss \<Rightarrow>
          Some (pnHash (h ! root),
            map (\<lambda>i. \<lparr>pfTotal = int (length items), pfIndex = int i,
                     pfLeafHash = pnHash (h ! (trails ! i)), pfAunts = auntss ! i\<rparr>)
              [0..<length trails]))"

section \<open>The iterative root is the recursive root\<close>

lemma leafHashOpt_eq: "leafHashOpt sha leaf = leafHash sha leaf"
  by (simp add: leafHashOpt_def leafHash_def)

lemma innerHashOpt_eq: "innerHashOpt sha l r = innerHash sha l r"
  by (simp add: innerHashOpt_def innerHash_def)

text \<open>The root over leaves that are already hashed, and one level of pairing.\<close>

function tree_root :: "(bytes \<Rightarrow> bytes) \<Rightarrow> bytes list \<Rightarrow> bytes" where
  "tree_root sha hs =
     (if length hs = 0 then emptyHash sha
      else if length hs = 1 then hs ! 0
      else innerHash sha (tree_root sha (take (nat (split_point (int (length hs)))) hs))
             (tree_root sha (drop (nat (split_point (int (length hs)))) hs)))"
  by pat_completeness auto
termination
proof (relation "measure (length \<circ> snd)", goal_cases)
  case (2 sha hs)
  then have "2 \<le> length hs" by linarith
  from split_point_range [OF this] show ?case using 2 by auto
next
  case (3 sha hs)
  then have "2 \<le> length hs" by linarith
  from split_point_range [OF this] show ?case using 3 by auto
qed simp

declare tree_root.simps [simp del]

fun pairs :: "(bytes \<Rightarrow> bytes) \<Rightarrow> bytes list \<Rightarrow> bytes list" where
  "pairs sha (x # y # hs) = innerHash sha x y # pairs sha hs"
| "pairs sha hs = hs"

lemma hashFromByteSlices_tree_root:
  "hashFromByteSlices sha items = tree_root sha (map (leafHash sha) items)"
proof (induction sha items rule: hashFromByteSlices.induct)
  case (1 sha items)
  consider (zero) "length items = 0" | (one) "length items = 1"
    | (more) "length items \<noteq> 0" "length items \<noteq> 1" by blast
  then show ?case
  proof cases
    case more
    then show ?thesis using "1.IH" [OF more refl]
      by (simp add: hashFromByteSlices.simps [of sha items] tree_root.simps [of sha "map (leafHash sha) items"]
          Let_def innerHashOpt_eq take_map drop_map)
  next
    case zero
    then show ?thesis by (subst hashFromByteSlices.simps, subst tree_root.simps) simp
  next
    case one
    then show ?thesis by (subst hashFromByteSlices.simps, subst tree_root.simps) (simp add: leafHashOpt_eq)
  qed
qed

lemma length_pairs [simp]: "length (pairs sha hs) = (length hs + 1) div 2"
  by (induction sha hs rule: pairs.induct) auto

lemma pairs_append: "even (length xs) \<Longrightarrow> pairs sha (xs @ ys) = pairs sha xs @ pairs sha ys"
  by (induction sha xs rule: pairs.induct) auto

lemma pow2_split_unique:
  assumes "(2::nat) ^ i < n" "n \<le> 2 * 2 ^ i" "2 ^ j < n" "n \<le> 2 * 2 ^ j"
  shows "i = (j :: nat)"
proof -
  have "2 ^ i < (2::nat) ^ Suc j" "2 ^ j < (2::nat) ^ Suc i" using assms by simp_all
  then have "i < Suc j" "j < Suc i" by (simp_all only: power_strict_increasing_iff one_less_numeral_iff semiring_norm)
  then show ?thesis by simp
qed

lemma split_point_eqI:
  assumes "2 ^ j < n" "n \<le> 2 * 2 ^ j"
  shows "nat (split_point (int n)) = 2 ^ j"
proof -
  have "(1::nat) \<le> 2 ^ j" by simp
  then have "2 \<le> n" using assms(1) by linarith
  then obtain i where i: "nat (split_point (int n)) = 2 ^ i" "2 ^ i < n" "n \<le> 2 * 2 ^ i"
    by (rule split_point_nat)
  have "i = j" by (rule pow2_split_unique [OF i(2,3) assms])
  then show ?thesis using i by simp
qed

lemma tree_root_single [simp]: "tree_root sha [x] = x"
  by (simp add: tree_root.simps)

lemma tree_root_pairs: "hs \<noteq> [] \<Longrightarrow> tree_root sha (pairs sha hs) = tree_root sha hs"
proof (induction "length hs" arbitrary: hs rule: less_induct)
  case less
  consider (one) "length hs = 1" | (two) "length hs = 2" | (more) "3 \<le> length hs"
    using less.prems length_0_conv [of hs] by linarith
  then show ?case
  proof cases
    case one
    then obtain x where "hs = [x]" by (cases hs) auto
    then show ?thesis by simp
  next
    case two
    then obtain x y where hs: "hs = [x, y]" by (auto simp: numeral_2_eq_2 length_Suc_conv)
    have "nat (split_point 2) = 1" using split_point_eqI [of 0 2] by simp
    then show ?thesis by (simp add: hs tree_root.simps [of sha "[x, y]"])
  next
    case more
    define n where "n = length hs"
    have n: "3 \<le> n" using more by (simp add: n_def)
    from n have "2 \<le> n" by simp
    then obtain j where j: "nat (split_point (int n)) = 2 ^ j" "2 ^ j < n" "n \<le> 2 * 2 ^ j"
      by (rule split_point_nat)
    obtain i where i: "j = Suc i" using j(3) n by (cases j) auto
    have half: "K < (n + 1) div 2 \<and> (n + 1) div 2 \<le> 2 * K" if "2 * K < n" "n \<le> 4 * K" for K
      using that by presburger
    have sm: "nat (split_point (int ((n + 1) div 2))) = 2 ^ i"
      using half [of "2 ^ i"] j(2,3) i by (intro split_point_eqI) simp_all
    have len: "length (pairs sha hs) = (n + 1) div 2" by (simp add: n_def)
    have ev: "even (length (take (2 ^ j) hs))" using j(2) i by (simp add: n_def min_def)
    have ps: "pairs sha hs = pairs sha (take (2 ^ j) hs) @ pairs sha (drop (2 ^ j) hs)"
      using pairs_append [OF ev, of sha "drop (2 ^ j) hs"] by simp
    have lt: "length (pairs sha (take (2 ^ j) hs)) = 2 ^ i" using j(2) i by (simp add: n_def min_def)
    have r: "tree_root sha (pairs sha (take (2 ^ j) hs)) = tree_root sha (take (2 ^ j) hs)"
      "tree_root sha (pairs sha (drop (2 ^ j) hs)) = tree_root sha (drop (2 ^ j) hs)"
      by (rule less.hyps; use j(2) n in \<open>auto simp: n_def intro!: diff_less\<close>)+
    have m2: "(n + 1) div 2 \<noteq> 0" "(n + 1) div 2 \<noteq> 1" using n by presburger+
    have "tree_root sha (pairs sha hs) =
        innerHash sha (tree_root sha (take (2 ^ i) (pairs sha hs))) (tree_root sha (drop (2 ^ i) (pairs sha hs)))"
      using m2 by (simp only: tree_root.simps [of sha "pairs sha hs"] len sm if_False)
    also have "\<dots> = innerHash sha (tree_root sha (take (2 ^ j) hs)) (tree_root sha (drop (2 ^ j) hs))"
      using lt r by (simp add: ps)
    also have "\<dots> = tree_root sha hs"
      using n by (auto simp add: tree_root.simps [of sha hs] j(1) n_def [symmetric])
    finally show ?thesis .
  qed
qed

lemma level_loop_pairs:
  assumes "wp \<le> rp" "rp \<le> sz" "sz \<le> length items"
    "level_loop sha items sz rp wp = (items', w)"
  shows "length items' = length items \<and>
         take w items' = take wp items @ pairs sha (drop rp (take sz items))"
  using assms
proof (induction sha items sz rp wp arbitrary: items' w rule: level_loop.induct)
  case (1 sha items sz rp wp)
  consider (fin) "\<not> rp < sz" | (last) "rp < sz" "\<not> rp + 1 < sz" | (pair) "rp + 1 < sz" by linarith
  then show ?case
  proof cases
    case fin
    then have "level_loop sha items sz rp wp = (items, wp)" by (simp add: level_loop.simps)
    then show ?thesis using "1.prems" fin by simp
  next
    case last
    let ?xs = "items[wp := items ! rp]"
    have l: "level_loop sha ?xs sz (rp + 1) (wp + 1) = (items', w)"
      using "1.prems"(4) last by (subst (asm) level_loop.simps) simp
    have "sz = Suc rp" using last by simp
    then have "drop rp (take sz items) = [items ! rp]"
      using "1.prems"(3) by (simp add: take_Suc_conv_app_nth)
    moreover have "take (wp + 1) ?xs = take wp items @ [items ! rp]"
      using last "1.prems" by (simp add: take_Suc_conv_app_nth)
    moreover have "drop (rp + 1) (take sz ?xs) = []" using last by simp
    ultimately show ?thesis using "1.IH"(2) [OF last _ _ _ l] last "1.prems" by simp
  next
    case pair
    let ?xs = "items[wp := innerHashOpt sha (items ! rp) (items ! (rp + 1))]"
    have l: "level_loop sha ?xs sz (rp + 2) (wp + 1) = (items', w)"
      using "1.prems"(4) pair by (subst (asm) level_loop.simps) simp
    have "drop rp (take sz items) = items ! rp # items ! (rp + 1) # drop (rp + 2) (take sz items)"
      using pair "1.prems" by (simp add: Cons_nth_drop_Suc [symmetric])
    moreover have "take (wp + 1) ?xs = take wp items @ [innerHash sha (items ! rp) (items ! (rp + 1))]"
      using pair "1.prems" by (simp add: take_Suc_conv_app_nth innerHashOpt_eq)
    moreover have "drop (rp + 2) (take sz ?xs) = drop (rp + 2) (take sz items)"
      using pair "1.prems" by (simp add: take_update_swap drop_update_cancel)
    ultimately show ?thesis using "1.IH"(1) [OF _ pair _ _ _ l] pair "1.prems" by simp
  qed
qed

lemma root_loop_tree_root:
  "sz \<le> length items \<Longrightarrow> root_loop sha items sz = tree_root sha (take sz items)"
proof (induction sha items sz rule: root_loop.induct)
  case (1 sha items sz)
  consider "sz = 0" | "sz = 1" | "2 \<le> sz" by linarith
  then show ?case
  proof cases
    case 3
    obtain items' w where l: "level_loop sha items sz 0 0 = (items', w)" by fastforce
    have p: "length items' = length items" "take w items' = pairs sha (take sz items)"
      using level_loop_pairs [OF _ _ "1.prems" l] by simp_all
    have w: "w = (sz + 1) div 2" using level_loop_size [of sha items sz 0 0] l by simp
    have "root_loop sha items sz = root_loop sha items' w"
      using 3 l by (subst root_loop.simps) simp
    also have "\<dots> = tree_root sha (take w items')"
      by (rule "1.IH") (use 3 l w p(1) "1.prems" in auto)
    also have "\<dots> = tree_root sha (take sz items)"
      using 3 "1.prems" by (subst p(2), intro tree_root_pairs) auto
    finally show ?thesis .
  qed (use "1.prems" in \<open>simp_all add: root_loop.simps tree_root.simps\<close>)
qed

text \<open>C36. The in-place iterative Merkle root equals the recursive RFC 6962 root for every list of
  items, for every digest function.\<close>

theorem merkle_iterative_eq:
  "HashFromByteSlicesIterative sha items = HashFromByteSlices sha items"
  by (simp add: HashFromByteSlicesIterative_def HashFromByteSlices_def hashFromByteSlices_tree_root
      root_loop_tree_root)

section \<open>Proofs built by the code verify\<close>

text \<open>
  \<open>tree_aunts\<close> lists the siblings on the way from leaf \<open>i\<close> to the root, lowest first;
  \<open>path h a as r\<close> says that following parent pointers from node \<open>a\<close> reaches \<open>r\<close> and passes
  the siblings \<open>as\<close>.
\<close>

function tree_aunts :: "(bytes \<Rightarrow> bytes) \<Rightarrow> bytes list \<Rightarrow> nat \<Rightarrow> bytes list" where
  "tree_aunts sha items i =
     (if length items \<le> 1 then []
      else let k = nat (split_point (int (length items))) in
        if i < k then tree_aunts sha (take k items) i @ [hashFromByteSlices sha (drop k items)]
        else tree_aunts sha (drop k items) (i - k) @ [hashFromByteSlices sha (take k items)])"
  by pat_completeness auto
termination
proof (relation "measure (\<lambda>(sha, items, i). length items)", goal_cases)
  case (2 sha items i)
  then have "2 \<le> length items" by linarith
  from split_point_range [OF this] show ?case using 2 by auto
next
  case (3 sha items i)
  then have "2 \<le> length items" by linarith
  from split_point_range [OF this] show ?case using 3 by auto
qed simp

declare tree_aunts.simps [simp del]

definition node_aunts :: "node_store \<Rightarrow> nat \<Rightarrow> bytes list" where
  "node_aunts h a =
     (case pnLeft (h ! a) of
        Some l \<Rightarrow> [pnHash (h ! l)]
      | None \<Rightarrow> (case pnRight (h ! a) of Some r \<Rightarrow> [pnHash (h ! r)] | None \<Rightarrow> []))"

definition links_in :: "node_store \<Rightarrow> nat \<Rightarrow> bool" where
  "links_in h a \<longleftrightarrow>
     (\<forall>l. pnLeft (h ! a) = Some l \<longrightarrow> l < length h) \<and> (\<forall>r. pnRight (h ! a) = Some r \<longrightarrow> r < length h)"

inductive path :: "node_store \<Rightarrow> nat \<Rightarrow> bytes list \<Rightarrow> nat \<Rightarrow> bool" for h where
  here: "a < length h \<Longrightarrow> path h a [] a"
| up: "a < length h \<Longrightarrow> pnParent (h ! a) = Some p \<Longrightarrow> links_in h a \<Longrightarrow> path h p as r \<Longrightarrow>
       path h a (node_aunts h a @ as) r"

lemma path_FlattenAunts:
  "path h a as r \<Longrightarrow> pnParent (h ! r) = None \<Longrightarrow> node_aunts h r = [] \<Longrightarrow>
   FlattenAunts_loop h (Some a) acc = Some (acc @ as)"
proof (induction arbitrary: acc rule: path.induct)
  case (here a)
  then show ?case
    by (subst FlattenAunts_loop.simps)
      (auto simp: node_aunts_def FlattenAunts_loop.simps split: option.splits)
next
  case (up a p as r)
  then show ?case
    by (subst FlattenAunts_loop.simps) (auto simp: node_aunts_def split: option.splits)
qed

lemma path_snoc:
  "path h a as r \<Longrightarrow> pnParent (h ! r) = Some p \<Longrightarrow> links_in h r \<Longrightarrow> p < length h \<Longrightarrow>
   path h a (as @ node_aunts h r) p"
proof (induction rule: path.induct)
  case (here a)
  then show ?case using path.up [of a h p "[]" p] path.here [of p h] by simp
next
  case (up a q as r)
  then show ?case using path.up [of a h q] by simp
qed

lemma path_extend:
  assumes "path h a as r"
  shows "path (h @ h') a as r"
  using assms
proof (induction rule: path.induct)
  case (up a p as r)
  have "node_aunts (h @ h') a = node_aunts h a" "links_in (h @ h') a"
    using up by (auto simp: node_aunts_def links_in_def nth_append trans_less_add1 split: option.splits)
  then show ?case using up path.up [of a "h @ h'" p as r] by (simp add: nth_append)
qed (simp add: path.here)

lemma path_relink:
  assumes "path h a as r" "length h' = length h"
    and "\<And>b. b < length h \<Longrightarrow> pnHash (h' ! b) = pnHash (h ! b)"
    and "\<And>b. b < length h \<Longrightarrow> pnParent (h ! b) \<noteq> None \<Longrightarrow> h' ! b = h ! b"
  shows "path h' a as r"
  using assms(1)
proof (induction rule: path.induct)
  case (up a p as r)
  have e: "h' ! a = h ! a" using up assms(4) by simp
  have "node_aunts h' a = node_aunts h a" "links_in h' a"
    using up assms(2,3) by (auto simp: node_aunts_def links_in_def e split: option.splits)
  then show ?case using up path.up [of a h' p as r] assms(2) by (simp add: e)
qed (simp add: path.here assms)

definition trails_ok :: "(bytes \<Rightarrow> bytes) \<Rightarrow> bytes list \<Rightarrow> node_store \<Rightarrow> nat list \<Rightarrow> nat \<Rightarrow> node_store \<Rightarrow> bool" where
  "trails_ok sha items h ts r h' \<longleftrightarrow>
     (\<exists>g. h' = h @ g) \<and> length h \<le> r \<and> r < length h' \<and> length ts = length items \<and>
     h' ! r = \<lparr>pnHash = hashFromByteSlices sha items, pnParent = None, pnLeft = None, pnRight = None\<rparr> \<and>
     (\<forall>i<length items. ts ! i < length h' \<and> pnHash (h' ! (ts ! i)) = leafHash sha (items ! i) \<and>
        path h' (ts ! i) (tree_aunts sha items i) r)"

lemma hashFromByteSlices_split:
  "2 \<le> length items \<Longrightarrow> k = nat (split_point (int (length items))) \<Longrightarrow>
   hashFromByteSlices sha items =
     innerHash sha (hashFromByteSlices sha (take k items)) (hashFromByteSlices sha (drop k items))"
  by (subst hashFromByteSlices.simps) (auto simp add: Let_def innerHashOpt_eq)

lemma trails_leaf:
  assumes "length items \<le> 1" "trailsFromByteSlicesInternal sha items h = (ts, r, h')"
  shows "trails_ok sha items h ts r h'"
proof (cases items)
  case Nil
  then show ?thesis using assms
    by (simp add: trailsFromByteSlicesInternal.simps trails_ok_def hashFromByteSlices.simps) auto
next
  case (Cons x xs)
  then have x: "items = [x]" using assms(1) by simp
  have "path (h @ [n]) (length h) [] (length h)" for n by (rule path.here) simp
  then show ?thesis using assms(2)
    by (simp add: x trailsFromByteSlicesInternal.simps [of sha "[x]"] trails_ok_def
        hashFromByteSlices.simps [of sha "[x]"] tree_aunts.simps [of sha "[x]"] leafHashOpt_eq) auto
qed

text \<open>Linking two finished subtrees under a new root.\<close>

definition link_nodes :: "node_store \<Rightarrow> nat \<Rightarrow> nat \<Rightarrow> bytes \<Rightarrow> node_store" where
  "link_nodes h2 lr rr d =
     (let root = length h2;
          h3 = h2 @ [\<lparr>pnHash = d, pnParent = None, pnLeft = None, pnRight = None\<rparr>];
          h4 = h3[lr := (h3 ! lr)\<lparr>pnParent := Some root, pnRight := Some rr\<rparr>]
      in h4[rr := (h4 ! rr)\<lparr>pnParent := Some root, pnLeft := Some lr\<rparr>])"

lemma link_nodes_nth:
  assumes "lr < length h2" "rr < length h2" "lr \<noteq> rr"
  shows "length (link_nodes h2 lr rr d) = Suc (length h2)"
    and "link_nodes h2 lr rr d ! lr = (h2 ! lr)\<lparr>pnParent := Some (length h2), pnRight := Some rr\<rparr>"
    and "link_nodes h2 lr rr d ! rr = (h2 ! rr)\<lparr>pnParent := Some (length h2), pnLeft := Some lr\<rparr>"
    and "b < length h2 \<Longrightarrow> b \<noteq> lr \<Longrightarrow> b \<noteq> rr \<Longrightarrow> link_nodes h2 lr rr d ! b = h2 ! b"
    and "link_nodes h2 lr rr d ! length h2 = \<lparr>pnHash = d, pnParent = None, pnLeft = None, pnRight = None\<rparr>"
  using assms by (auto simp: link_nodes_def Let_def nth_append nth_list_update)

lemma link_nodes_hash:
  "lr < length h2 \<Longrightarrow> rr < length h2 \<Longrightarrow> lr \<noteq> rr \<Longrightarrow> b < length h2 \<Longrightarrow>
   pnHash (link_nodes h2 lr rr d ! b) = pnHash (h2 ! b)"
  by (cases "b = lr"; cases "b = rr") (simp_all add: link_nodes_nth)

lemma link_nodes_path:
  assumes "lr < length h2" "rr < length h2" "lr \<noteq> rr"
    and none: "pnParent (h2 ! lr) = None" "pnParent (h2 ! rr) = None"
    and "path h2 a as r"
  shows "path (link_nodes h2 lr rr d) a as r"
proof (rule path_relink [OF path_extend [OF assms(6), of "[\<lparr>pnHash = d, pnParent = None, pnLeft = None, pnRight = None\<rparr>]"]])
  fix b assume b: "b < length (h2 @ [\<lparr>pnHash = d, pnParent = None, pnLeft = None, pnRight = None\<rparr>])"
  show "pnHash (link_nodes h2 lr rr d ! b) = pnHash ((h2 @ [\<lparr>pnHash = d, pnParent = None, pnLeft = None, pnRight = None\<rparr>]) ! b)"
    using b assms(1-3) by (cases "b = length h2") (simp_all add: link_nodes_nth link_nodes_hash nth_append)
  show "link_nodes h2 lr rr d ! b = (h2 @ [\<lparr>pnHash = d, pnParent = None, pnLeft = None, pnRight = None\<rparr>]) ! b"
    if "pnParent ((h2 @ [\<lparr>pnHash = d, pnParent = None, pnLeft = None, pnRight = None\<rparr>]) ! b) \<noteq> None"
    using that b none assms(1-3) link_nodes_nth(4) [OF assms(1-3), of b d]
    by (cases "b = length h2"; cases "b = lr"; cases "b = rr") (auto simp: link_nodes_nth nth_append)
qed (simp add: link_nodes_nth assms)

lemma trails_link:
  assumes len: "2 \<le> length items" and k: "k = nat (split_point (int (length items)))"
    and l: "trails_ok sha (take k items) h ls lr h1" and r: "trails_ok sha (drop k items) h1 rs rr h2"
  shows "trails_ok sha items h (ls @ rs) (length h2)
           (link_nodes h2 lr rr (innerHashOpt sha (pnHash (h2 ! lr)) (pnHash (h2 ! rr))))"
    (is "trails_ok sha items h _ _ ?h5")
proof -
  have kr: "0 < k" "k < length items" using split_point_range [OF len] k by simp_all
  obtain g1 g2 where g: "h1 = h @ g1" "h2 = h1 @ g2" using l r by (auto simp: trails_ok_def)
  have lr: "length h \<le> lr" "lr < length h1" and rr: "length h1 \<le> rr" "rr < length h2"
    using l r by (auto simp: trails_ok_def)
  have b: "lr < length h2" "rr < length h2" "lr \<noteq> rr" using lr rr g by auto
  have hl: "h2 ! lr = \<lparr>pnHash = hashFromByteSlices sha (take k items), pnParent = None, pnLeft = None, pnRight = None\<rparr>"
    using l lr(2) g(2) by (simp add: trails_ok_def nth_append)
  have hr: "h2 ! rr = \<lparr>pnHash = hashFromByteSlices sha (drop k items), pnParent = None, pnLeft = None, pnRight = None\<rparr>"
    using r by (simp add: trails_ok_def)
  note nth = link_nodes_nth [OF b]
  have pl: "path ?h5 a as lr \<Longrightarrow> path ?h5 a (as @ [hashFromByteSlices sha (drop k items)]) (length h2)" for a as
    using path_snoc [of ?h5 a as lr "length h2"] b hl hr
    by (simp add: nth node_aunts_def links_in_def link_nodes_hash)
  have pr: "path ?h5 a as rr \<Longrightarrow> path ?h5 a (as @ [hashFromByteSlices sha (take k items)]) (length h2)" for a as
    using path_snoc [of ?h5 a as rr "length h2"] b hl hr
    by (simp add: nth node_aunts_def links_in_def link_nodes_hash)
  have keep: "path h2 a as q \<Longrightarrow> path ?h5 a as q" for a as q
    by (rule link_nodes_path [OF b]) (simp_all add: hl hr)
  have leaves: "(ls @ rs) ! i < length ?h5 \<and> pnHash (?h5 ! ((ls @ rs) ! i)) = leafHash sha (items ! i) \<and>
      path ?h5 ((ls @ rs) ! i) (tree_aunts sha items i) (length h2)" if i: "i < length items" for i
  proof (cases "i < k")
    case True
    have a: "ls ! i < length h1" "pnHash (h1 ! (ls ! i)) = leafHash sha (items ! i)"
      "path h1 (ls ! i) (tree_aunts sha (take k items) i) lr" "length ls = k"
      using l True kr by (auto simp: trails_ok_def)
    have "path h2 (ls ! i) (tree_aunts sha (take k items) i) lr"
      using path_extend [OF a(3), of g2] g by simp
    note p = pl [OF keep [OF this]]
    have "ls ! i < length h2" "pnHash (h2 ! (ls ! i)) = leafHash sha (items ! i)" "(ls @ rs) ! i = ls ! i"
      using a(1,2,4) g(2) True by (simp_all add: nth_append)
    then show ?thesis
      using p b True len by (simp add: nth link_nodes_hash tree_aunts.simps [of sha items] k [symmetric])
  next
    case False
    have a: "rs ! (i - k) < length h2" "pnHash (h2 ! (rs ! (i - k))) = leafHash sha (items ! i)"
      "path h2 (rs ! (i - k)) (tree_aunts sha (drop k items) (i - k)) rr" "length ls = k"
      using l r False i kr by (auto simp: trails_ok_def)
    have "(ls @ rs) ! i = rs ! (i - k)" using a(4) False by (simp add: nth_append)
    with pr [OF keep [OF a(3)]] show ?thesis
      using a(1,2) b False len by (simp add: nth link_nodes_hash tree_aunts.simps [of sha items] k [symmetric])
  qed
  have pre: "take (length h) ?h5 = h"
  proof (rule nth_equalityI)
    fix i assume "i < length (take (length h) ?h5)"
    then have "i < length h" by simp
    then show "take (length h) ?h5 ! i = h ! i"
      using lr rr g b nth(4) [of i] by (simp add: nth_append)
  qed (use g b nth in simp)
  then have "\<exists>g. ?h5 = h @ g" by (metis append_take_drop_id)
  moreover have "length (ls @ rs) = length items" using l r kr by (simp add: trails_ok_def)
  moreover have "length h \<le> length h2" using g by simp
  moreover have "hashFromByteSlices sha items = innerHashOpt sha (pnHash (h2 ! lr)) (pnHash (h2 ! rr))"
    using hashFromByteSlices_split [OF len k, of sha] by (simp add: hl hr innerHashOpt_eq)
  ultimately show ?thesis using leaves by (simp add: trails_ok_def nth)
qed

lemma trails_correct:
  "trailsFromByteSlicesInternal sha items h = (ts, r, h') \<Longrightarrow> trails_ok sha items h ts r h'"
proof (induction sha items h arbitrary: ts r h' rule: trailsFromByteSlicesInternal.induct)
  case (1 sha items h)
  show ?case
  proof (cases "length items \<le> 1")
    case True
    then show ?thesis using trails_leaf "1.prems" by blast
  next
    case False
    define k where "k = nat (split_point (int (length items)))"
    obtain ls lr h1 where l: "trailsFromByteSlicesInternal sha (take k items) h = (ls, lr, h1)" by (metis prod_cases3)
    obtain rs rr h2 where r: "trailsFromByteSlicesInternal sha (drop k items) h1 = (rs, rr, h2)" by (metis prod_cases3)
    have len: "2 \<le> length items" "length items \<noteq> 0" "length items \<noteq> 1" using False by auto
    have "trails_ok sha (take k items) h ls lr h1" "trails_ok sha (drop k items) h1 rs rr h2"
      using "1.IH"(1) [OF len(2,3) k_def l] "1.IH"(2) [OF len(2,3) k_def refl l [symmetric] refl r] by auto
    note ok = trails_link [OF len(1) k_def this]
    have "trailsFromByteSlicesInternal sha items h = (ls @ rs, length h2,
        link_nodes h2 lr rr (innerHashOpt sha (pnHash (h2 ! lr)) (pnHash (h2 ! rr))))"
      using len l r
      by (simp add: trailsFromByteSlicesInternal.simps [of sha items] k_def [symmetric] Let_def link_nodes_def)
    then show ?thesis using ok "1.prems" by simp
  qed
qed

lemma ProofsFromByteSlices_spec:
  "ProofsFromByteSlices sha items =
     Some (HashFromByteSlices sha items,
       map (\<lambda>i. \<lparr>pfTotal = int (length items), pfIndex = int i, pfLeafHash = leafHash sha (items ! i),
                pfAunts = tree_aunts sha items i\<rparr>) [0..<length items])"
proof -
  obtain ts r h where t: "trailsFromByteSlicesInternal sha items [] = (ts, r, h)" by (metis prod_cases3)
  from trails_correct [OF t] have ok: "length ts = length items"
    "h ! r = \<lparr>pnHash = hashFromByteSlices sha items, pnParent = None, pnLeft = None, pnRight = None\<rparr>"
    and leaf: "\<And>i. i < length items \<Longrightarrow> pnHash (h ! (ts ! i)) = leafHash sha (items ! i) \<and>
        path h (ts ! i) (tree_aunts sha items i) r"
    by (auto simp: trails_ok_def)
  have "ProofNode_FlattenAunts h (ts ! i) = Some (tree_aunts sha items i)" if "i < length items" for i
    using path_FlattenAunts [of h "ts ! i" "tree_aunts sha items i" r "[]"] leaf [OF that] ok(2)
    by (simp add: ProofNode_FlattenAunts_def node_aunts_def)
  then have m: "map (ProofNode_FlattenAunts h) ts = map (\<lambda>i. Some (tree_aunts sha items i)) [0..<length items]"
    using ok(1) by (intro nth_equalityI) simp_all
  have those: "those (map (\<lambda>i. Some (f i)) xs) = Some (map f xs)" for f :: "nat \<Rightarrow> bytes list" and xs
    by (induction xs) auto
  show ?thesis using ok leaf
    by (auto simp: ProofsFromByteSlices_def trailsFromByteSlices_def t m those HashFromByteSlices_def)
qed

lemma compute_left:
  "1 < tot \<Longrightarrow> 0 \<le> index \<Longrightarrow> index < split_point tot \<Longrightarrow>
   computeHashFromAunts sha index tot lf (as @ [a]) =
     bindo (computeHashFromAunts sha index (split_point tot) lf as) (\<lambda>l. Ok (innerHash sha l a))"
  using split_point_int [of tot]
  by (subst computeHashFromAunts.simps) (simp add: Let_def innerHashOpt_eq)

lemma compute_right:
  "1 < tot \<Longrightarrow> split_point tot \<le> index \<Longrightarrow> index < tot \<Longrightarrow>
   computeHashFromAunts sha index tot lf (as @ [a]) =
     bindo (computeHashFromAunts sha (index - split_point tot) (tot - split_point tot) lf as)
       (\<lambda>r. Ok (innerHash sha a r))"
  using split_point_int [of tot]
  by (subst computeHashFromAunts.simps) (simp add: Let_def innerHashOpt_eq)

lemma compute_tree_aunts:
  "i < length items \<Longrightarrow>
   computeHashFromAunts sha (int i) (int (length items)) (leafHash sha (items ! i)) (tree_aunts sha items i)
     = Ok (hashFromByteSlices sha items)"
proof (induction sha items i rule: tree_aunts.induct)
  case (1 sha items i)
  show ?case
  proof (cases "length items \<le> 1")
    case True
    then have "length items = 1" "i = 0" using "1.prems" by linarith+
    then show ?thesis
      by (simp add: computeHashFromAunts.simps [of sha 0 1] tree_aunts.simps [of sha items]
          hashFromByteSlices.simps [of sha items] leafHashOpt_eq)
  next
    case False
    define k where "k = nat (split_point (int (length items)))"
    have len: "2 \<le> length items" using False by simp
    have k: "0 < k" "k < length items" "split_point (int (length items)) = int k"
      using split_point_range [OF len] by (simp_all add: k_def)
    note split = hashFromByteSlices_split [OF len k_def, of sha]
    show ?thesis
    proof (cases "i < k")
      case True
      have "computeHashFromAunts sha (int i) (int k) (leafHash sha (items ! i)) (tree_aunts sha (take k items) i)
          = Ok (hashFromByteSlices sha (take k items))"
        using "1.IH"(1) [OF False k_def True] True k by simp
      moreover have "tree_aunts sha items i = tree_aunts sha (take k items) i @ [hashFromByteSlices sha (drop k items)]"
        using True False by (simp add: tree_aunts.simps [of sha items] k_def [symmetric] Let_def)
      ultimately show ?thesis using True k len split by (simp add: compute_left)
    next
      case i: False
      have "computeHashFromAunts sha (int (i - k)) (int (length items - k)) (leafHash sha (items ! i))
          (tree_aunts sha (drop k items) (i - k)) = Ok (hashFromByteSlices sha (drop k items))"
        using "1.IH"(2) [OF False k_def i] i k "1.prems" by simp
      moreover have "tree_aunts sha items i = tree_aunts sha (drop k items) (i - k) @ [hashFromByteSlices sha (take k items)]"
        using i False by (simp add: tree_aunts.simps [of sha items] k_def [symmetric] Let_def)
      ultimately show ?thesis using i k len split "1.prems" by (simp add: compute_right of_nat_diff)
    qed
  qed
qed

lemma length_tree_aunts: "length items \<le> 2 ^ j \<Longrightarrow> length (tree_aunts sha items i) \<le> j"
proof (induction sha items i arbitrary: j rule: tree_aunts.induct)
  case (1 sha items i)
  show ?case
  proof (cases "length items \<le> 1")
    case False
    then have "2 \<le> length items" by simp
    then obtain m where m: "nat (split_point (int (length items))) = 2 ^ m"
      "2 ^ m < length items" "length items \<le> 2 * 2 ^ m" by (rule split_point_nat)
    have "2 ^ m < (2::nat) ^ j" using m(2) "1.prems" by linarith
    then have "m < j" by simp
    moreover have "length (tree_aunts sha items i) \<le> Suc m"
    proof (cases "i < 2 ^ m")
      case True
      then show ?thesis using "1.IH"(1) [OF False m(1) [symmetric] True, of m] False m(2,3)
        by (simp add: tree_aunts.simps [of sha items i] m(1) Let_def)
    next
      case i: False
      then show ?thesis using "1.IH"(2) [OF False m(1) [symmetric] i, of m] False m(2,3)
        by (simp add: tree_aunts.simps [of sha items i] m(1) Let_def)
    qed
    ultimately show ?thesis by simp
  qed (simp add: tree_aunts.simps)
qed

lemma length_hashFromByteSlices:
  assumes "\<forall>x. length (sha x) = tmhash_Size"
  shows "length (hashFromByteSlices sha items) = tmhash_Size"
  by (subst hashFromByteSlices.simps)
    (use assms in \<open>simp add: Let_def innerHashOpt_def leafHashOpt_def emptyHash_def\<close>)

lemma length_tree_aunt:
  "\<forall>x. length (sha x) = tmhash_Size \<Longrightarrow> a \<in> set (tree_aunts sha items i) \<Longrightarrow> length a = tmhash_Size"
proof (induction sha items i rule: tree_aunts.induct)
  case (1 sha items i)
  show ?case
  proof (cases "length items \<le> 1")
    case False
    then show ?thesis
      using "1.IH"(1) [OF False refl] "1.IH"(2) [OF False refl] "1.prems" length_hashFromByteSlices [of sha]
      by (auto simp: tree_aunts.simps [of sha items i] Let_def split: if_splits)
  qed (use "1.prems" in \<open>simp add: tree_aunts.simps [of sha items i]\<close>)
qed

lemma aunts_check_Ok: "(\<And>a. a \<in> set as \<Longrightarrow> length a = tmhash_Size) \<Longrightarrow> aunts_check n as = Ok ()"
  by (induction as arbitrary: n) auto

text \<open>C33. For every list of items (at most 2^100 of them) and every digest with 32-byte output, building
  proofs terminates, the root is the Merkle root, there is one proof per item with its index and the
  total, each proof passes ValidateBasic, and each proof verifies its item against the root.\<close>

theorem merkle_proofs_verify:
  assumes "\<forall>x. length (sha x) = tmhash_Size" and "length items \<le> 2 ^ 100"
  shows "\<exists>ps. ProofsFromByteSlices sha items = Some (HashFromByteSlices sha items, ps) \<and>
      length ps = length items \<and>
      (\<forall>i<length items. pfTotal (ps ! i) = int (length items) \<and> pfIndex (ps ! i) = int i \<and>
         Proof_ValidateBasic (ps ! i) = Ok () \<and>
         Proof_Verify sha (ps ! i) (HashFromByteSlices sha items) (items ! i) = Ok ())"
proof -
  have ne: "hashFromByteSlices sha items \<noteq> []"
    using length_hashFromByteSlices [OF assms(1), of items] by (auto simp: tmhash_Size_def)
  have leaf: "length (leafHash sha x) = tmhash_Size" for x using assms(1) by (simp add: leafHash_def)
  have au: "length (tree_aunts sha items i) \<le> 100" for i
    using length_tree_aunts [OF assms(2)] .
  have v: "Proof_ValidateBasic \<lparr>pfTotal = int (length items), pfIndex = int i,
      pfLeafHash = leafHash sha (items ! i), pfAunts = tree_aunts sha items i\<rparr> = Ok ()" for i
    using au [of i] leaf aunts_check_Ok [OF length_tree_aunt [OF assms(1)]]
    by (simp add: Proof_ValidateBasic_def MaxAunts_def)
  show ?thesis
    using compute_tree_aunts [of _ items sha] ne v
    by (simp add: ProofsFromByteSlices_spec Proof_Verify_def Proof_computeRootHash_def
        HashFromByteSlices_def leafHashOpt_eq)
qed

text \<open>A stand-in digest for concrete evaluations: the first 32 bytes, padded with zeroes.\<close>

definition pad32 :: "bytes \<Rightarrow> bytes" where
  "pad32 x = take 32 (x @ replicate 32 0)"

lemma length_pad32: "length (pad32 x) = tmhash_Size"
  by (simp add: pad32_def tmhash_Size_def)

theorem merkle_proofs_verify_witness:
  "\<exists>ps. ProofsFromByteSlices pad32 [[1], [2], [3]] = Some (HashFromByteSlices pad32 [[1], [2], [3]], ps) \<and>
     Proof_Verify pad32 (ps ! 2) (HashFromByteSlices pad32 [[1], [2], [3]]) [3] = Ok ()"
proof -
  have "\<forall>x. length (pad32 x) = tmhash_Size" "length [[1], [2], [3 :: byte]] \<le> 2 ^ 100"
    by (simp_all add: length_pad32)
  from merkle_proofs_verify [OF this] obtain ps
    where "ProofsFromByteSlices pad32 [[1], [2], [3]] = Some (HashFromByteSlices pad32 [[1], [2], [3]], ps)"
      and v: "\<forall>i<length [[1], [2], [3 :: byte]].
        Proof_Verify pad32 (ps ! i) (HashFromByteSlices pad32 [[1], [2], [3]]) ([[1], [2], [3]] ! i) = Ok ()"
    by blast
  moreover have "Proof_Verify pad32 (ps ! 2) (HashFromByteSlices pad32 [[1], [2], [3]]) [3] = Ok ()"
    using v [rule_format, of 2] by simp
  ultimately show ?thesis by blast
qed

section \<open>A proof that verifies names its leaf\<close>

text \<open>
  The strings hashed to compute a root, and the strings hashed to check a proof. The soundness
  theorem assumes that the digest has no collision among these strings only; for a digest of fixed
  length there are always collisions somewhere.
\<close>

function tree_inputs :: "(bytes \<Rightarrow> bytes) \<Rightarrow> bytes list \<Rightarrow> bytes list" where
  "tree_inputs sha items =
     (if length items = 0 then [[]]
      else if length items = 1 then [leafPrefix @ items ! 0]
      else let k = nat (split_point (int (length items))) in
        (innerPrefix @ hashFromByteSlices sha (take k items) @ hashFromByteSlices sha (drop k items))
          # tree_inputs sha (take k items) @ tree_inputs sha (drop k items))"
  by pat_completeness auto
termination
proof (relation "measure (length \<circ> snd)", goal_cases)
  case (2 sha items)
  then have "2 \<le> length items" by linarith
  from split_point_range [OF this] show ?case using 2 by auto
next
  case (3 sha items)
  then have "2 \<le> length items" by linarith
  from split_point_range [OF this] show ?case using 3 by auto
qed simp

declare tree_inputs.simps [simp del]

fun aunts_inputs :: "(bytes \<Rightarrow> bytes) \<Rightarrow> int \<Rightarrow> int \<Rightarrow> bytes \<Rightarrow> bytes list \<Rightarrow> bytes list" where
  "aunts_inputs sha index tot lf aunts =
     (if aunts = [] then []
      else if index < split_point tot then
        aunts_inputs sha index (split_point tot) lf (butlast aunts) @
        (case computeHashFromAunts sha index (split_point tot) lf (butlast aunts) of
           Ok l \<Rightarrow> [innerPrefix @ l @ last aunts] | _ \<Rightarrow> [])
      else
        aunts_inputs sha (index - split_point tot) (tot - split_point tot) lf (butlast aunts) @
        (case computeHashFromAunts sha (index - split_point tot) (tot - split_point tot) lf (butlast aunts) of
           Ok r \<Rightarrow> [innerPrefix @ last aunts @ r] | _ \<Rightarrow> []))"

declare aunts_inputs.simps [simp del]

definition verify_inputs :: "(bytes \<Rightarrow> bytes) \<Rightarrow> Proof \<Rightarrow> bytes \<Rightarrow> bytes list" where
  "verify_inputs sha sp leaf =
     (leafPrefix @ leaf) # aunts_inputs sha (pfIndex sp) (pfTotal sp) (pfLeafHash sp) (pfAunts sp)"

lemma length_computeHashFromAunts:
  "\<forall>x. length (sha x) = tmhash_Size \<Longrightarrow> length lf = tmhash_Size \<Longrightarrow>
   computeHashFromAunts sha index tot lf aunts = Ok d \<Longrightarrow> length d = tmhash_Size"
  by (subst (asm) computeHashFromAunts.simps)
    (auto simp: Let_def innerHashOpt_def bindo_Ok_iff split: if_splits)

lemma aunts_inputs_left:
  "1 < tot \<Longrightarrow> index < split_point tot \<Longrightarrow>
   computeHashFromAunts sha index (split_point tot) lf as = Ok l \<Longrightarrow>
   aunts_inputs sha index tot lf (as @ [a]) =
     aunts_inputs sha index (split_point tot) lf as @ [innerPrefix @ l @ a]"
  by (subst aunts_inputs.simps) simp

lemma aunts_inputs_right:
  "1 < tot \<Longrightarrow> split_point tot \<le> index \<Longrightarrow>
   computeHashFromAunts sha (index - split_point tot) (tot - split_point tot) lf as = Ok r \<Longrightarrow>
   aunts_inputs sha index tot lf (as @ [a]) =
     aunts_inputs sha (index - split_point tot) (tot - split_point tot) lf as @ [innerPrefix @ a @ r]"
  by (subst aunts_inputs.simps) simp

lemma tree_inputs_split:
  "2 \<le> length items \<Longrightarrow> k = nat (split_point (int (length items))) \<Longrightarrow>
   set (tree_inputs sha items) =
     insert (innerPrefix @ hashFromByteSlices sha (take k items) @ hashFromByteSlices sha (drop k items))
       (set (tree_inputs sha (take k items)) \<union> set (tree_inputs sha (drop k items)))"
  by (subst tree_inputs.simps) (auto simp: Let_def)

lemma compute_Ok_range:
  "computeHashFromAunts sha index tot lf aunts = Ok d \<Longrightarrow> 0 \<le> index \<and> index < tot"
  by (subst (asm) computeHashFromAunts.simps) (auto split: if_splits)

lemma compute_sound:
  assumes sha: "\<forall>x. length (sha x) = tmhash_Size" and inj: "inj_on sha S" and lf: "leafPrefix @ leaf \<in> S"
  shows "items \<noteq> [] \<Longrightarrow> i < length items \<Longrightarrow>
    set (tree_inputs sha items) \<subseteq> S \<Longrightarrow>
    set (aunts_inputs sha (int i) (int (length items)) (leafHash sha leaf) aunts) \<subseteq> S \<Longrightarrow>
    computeHashFromAunts sha (int i) (int (length items)) (leafHash sha leaf) aunts
      = Ok (hashFromByteSlices sha items) \<Longrightarrow>
    leaf = items ! i \<and> aunts = tree_aunts sha items i"
proof (induction "length items" arbitrary: items i aunts rule: less_induct)
  case less
  show ?case
  proof (cases "length items = 1")
    case True
    then have "i = 0" using less.prems by simp
    then have "leafHash sha leaf = leafHash sha (items ! 0)" "aunts = []"
      using less.prems(5) True
      by (auto simp: computeHashFromAunts.simps [of sha 0 1] hashFromByteSlices.simps [of sha items]
          leafHashOpt_eq split: if_splits)
    moreover have "leafPrefix @ items ! 0 \<in> S"
      using less.prems(3) True by (simp add: tree_inputs.simps [of sha items])
    ultimately show ?thesis using inj lf \<open>i = 0\<close> True
      by (auto simp: leafHash_def inj_on_eq_iff tree_aunts.simps [of sha items])
  next
    case False
    then have len: "2 \<le> length items" using less.prems(1) by (cases items) (auto simp: Suc_le_eq)
    define k where "k = nat (split_point (int (length items)))"
    have k: "0 < k" "k < length items" "split_point (int (length items)) = int k"
      using split_point_range [OF len] by (simp_all add: k_def)
    note split = hashFromByteSlices_split [OF len k_def, of sha]
    note inputs = tree_inputs_split [OF len k_def, of sha]
    let ?L = "hashFromByteSlices sha (take k items)" and ?R = "hashFromByteSlices sha (drop k items)"
    have lenLR: "length ?L = tmhash_Size" "length ?R = tmhash_Size"
      using length_hashFromByteSlices [OF sha] by auto
    have "aunts \<noteq> []"
      using less.prems(2,5) len by (subst (asm) computeHashFromAunts.simps) (auto split: if_splits)
    then obtain as a where aunts: "aunts = as @ [a]" by (metis rev_exhaust)
    have lflen: "length (leafHash sha leaf) = tmhash_Size" using sha by (simp add: leafHash_def)
    show ?thesis
    proof (cases "i < k")
      case True
      have "\<exists>l. computeHashFromAunts sha (int i) (int k) (leafHash sha leaf) as = Ok l \<and>
          innerHash sha l a = hashFromByteSlices sha items"
        using less.prems(5) True k len by (simp add: aunts compute_left bindo_Ok_iff)
      then obtain l where l: "computeHashFromAunts sha (int i) (int k) (leafHash sha leaf) as = Ok l"
        "innerHash sha l a = innerHash sha ?L ?R" using split by auto
      have ai: "set (aunts_inputs sha (int i) (int k) (leafHash sha leaf) as) \<subseteq> S" "innerPrefix @ l @ a \<in> S"
        using less.prems(4) True k len l(1) by (simp_all add: aunts aunts_inputs_left)
      have "innerPrefix @ l @ a = innerPrefix @ ?L @ ?R"
        using inj l(2) ai(2) less.prems(3) by (auto simp: innerHash_def inputs inj_on_eq_iff)
      moreover have "length l = length ?L" using length_computeHashFromAunts [OF sha lflen l(1)] lenLR by simp
      ultimately have eq: "l = ?L" "a = ?R" by simp_all
      have "leaf = take k items ! i \<and> as = tree_aunts sha (take k items) i"
        by (rule less.hyps) (use k True less.prems(1,3) ai(1) l(1) eq inputs in \<open>auto simp: min_def\<close>)
      then show ?thesis using True k len eq aunts
        by (simp add: tree_aunts.simps [of sha items] k_def [symmetric] Let_def)
    next
      case i: False
      have "\<exists>r. computeHashFromAunts sha (int (i - k)) (int (length items - k)) (leafHash sha leaf) as = Ok r \<and>
          innerHash sha a r = hashFromByteSlices sha items"
        using less.prems(2,5) i k len by (simp add: aunts compute_right bindo_Ok_iff of_nat_diff)
      then obtain r where r: "computeHashFromAunts sha (int (i - k)) (int (length items - k)) (leafHash sha leaf) as = Ok r"
        "innerHash sha a r = innerHash sha ?L ?R" using split by auto
      have ai: "set (aunts_inputs sha (int (i - k)) (int (length items - k)) (leafHash sha leaf) as) \<subseteq> S"
        "innerPrefix @ a @ r \<in> S"
        using less.prems(2,4) i k len r(1) by (simp_all add: aunts aunts_inputs_right of_nat_diff)
      have "innerPrefix @ a @ r = innerPrefix @ ?L @ ?R"
        using inj r(2) ai(2) less.prems(3) by (auto simp: innerHash_def inputs inj_on_eq_iff)
      moreover have "length r = length ?R" using length_computeHashFromAunts [OF sha lflen r(1)] lenLR by simp
      ultimately have eq: "r = ?R" "a = ?L" by simp_all
      have "leaf = drop k items ! (i - k) \<and> as = tree_aunts sha (drop k items) (i - k)"
        by (rule less.hyps) (use k i less.prems(1,2,3) ai(1) r(1) eq inputs in auto)
      then show ?thesis using i k len eq aunts less.prems(2)
        by (simp add: tree_aunts.simps [of sha items] k_def [symmetric] Let_def)
    qed
  qed
qed

lemma Proof_Verify_sound:
  assumes sha: "\<forall>x. length (sha x) = tmhash_Size"
    and inj: "inj_on sha (set (tree_inputs sha items) \<union> set (verify_inputs sha sp leaf))"
    and total: "pfTotal sp = int (length items)"
    and ok: "Proof_Verify sha sp (HashFromByteSlices sha items) leaf = Ok ()"
  shows "0 \<le> pfIndex sp \<and> pfIndex sp < int (length items) \<and> leaf = items ! nat (pfIndex sp) \<and>
         pfAunts sp = tree_aunts sha items (nat (pfIndex sp))"
proof -
  have lf: "pfLeafHash sp = leafHash sha leaf"
    and c: "computeHashFromAunts sha (pfIndex sp) (pfTotal sp) (pfLeafHash sp) (pfAunts sp)
        = Ok (hashFromByteSlices sha items)"
    using ok by (auto simp: Proof_Verify_def Proof_computeRootHash_def leafHashOpt_eq HashFromByteSlices_def
        split: if_splits outcome.splits)
  from compute_Ok_range [OF c] have r: "0 \<le> pfIndex sp" "pfIndex sp < int (length items)" using total by auto
  have "leaf = items ! nat (pfIndex sp) \<and> pfAunts sp = tree_aunts sha items (nat (pfIndex sp))"
    by (rule compute_sound [OF sha inj]) (use r c lf total in \<open>auto simp: verify_inputs_def\<close>)
  then show ?thesis using r by simp
qed

text \<open>C32. A proof that verifies against the Merkle root of a list of items, and claims the list's
  length as its total, has an index inside the list and proves exactly the item at that index (and
  carries exactly the sibling hashes), unless two of the strings hashed by the tree or by the check
  collide under the digest.\<close>

theorem merkle_proof_sound:
  assumes sha: "\<forall>x. length (sha x) = tmhash_Size"
    and inj: "inj_on sha (set (tree_inputs sha items) \<union> set (verify_inputs sha sp leaf))"
    and total: "pfTotal sp = int (length items)"
    and ok: "Proof_Verify sha sp (HashFromByteSlices sha items) leaf = Ok ()"
  shows "0 \<le> pfIndex sp \<and> pfIndex sp < int (length items) \<and> leaf = items ! nat (pfIndex sp) \<and>
         pfAunts sp = tree_aunts sha items (nat (pfIndex sp))"
  using Proof_Verify_sound [OF assms] .

definition two_leaf_proof :: Proof where
  "two_leaf_proof = \<lparr>pfTotal = 2, pfIndex = 1, pfLeafHash = leafHash pad32 [2], pfAunts = [leafHash pad32 [1]]\<rparr>"

theorem merkle_proof_sound_witness:
  "Proof_Verify pad32 two_leaf_proof (HashFromByteSlices pad32 [[1], [2]]) [2] = Ok () \<and>
   ([2] :: bytes) = [[1], [2]] ! nat (pfIndex two_leaf_proof) \<and>
   pfAunts two_leaf_proof = tree_aunts pad32 [[1], [2]] 1"
proof -
  have ok: "Proof_Verify pad32 two_leaf_proof (HashFromByteSlices pad32 [[1], [2]]) [2] = Ok ()" by code_simp
  have "distinct (map pad32 (remdups (tree_inputs pad32 [[1], [2]] @ verify_inputs pad32 two_leaf_proof [2])))"
    by code_simp
  then have inj: "inj_on pad32 (set (tree_inputs pad32 [[1], [2]]) \<union> set (verify_inputs pad32 two_leaf_proof [2]))"
    by (simp only: distinct_map set_remdups set_append)
  have "\<forall>x. length (pad32 x) = tmhash_Size" "pfTotal two_leaf_proof = int (length [[1], [2 :: byte]])"
    by (simp_all add: length_pad32 two_leaf_proof_def)
  from merkle_proof_sound [OF this(1) inj this(2) ok] show ?thesis
    using ok by (simp add: two_leaf_proof_def)
qed

end
