(* ===== verification/Part_Set.thy ===== *)
theory Part_Set
  imports Bit_Array Merkle
begin

text \<open>
  Blocks travel as parts with Merkle proofs: \<^verbatim>\<open>types/part_set.go\<close>. A part set is a
  record with the code's fields; 32-bit counters stay \<open>32 word\<close> values and wrap. The theory
  shows that splitting and reading back is the identity, that \<^verbatim>\<open>AddPart\<close> keeps the
  part set's invariant on every branch, and that a part set opened from the header of some data can
  only ever be completed with that data.
\<close>

section \<open>Parts and headers\<close>

definition BlockPartSizeBytes :: "32 word" where "BlockPartSizeBytes = 65536"

definition MaxBlockSizeBytes :: int where "MaxBlockSizeBytes = 100 * 1024 * 1024"

definition MaxBlockPartsCount :: int where
  "MaxBlockPartsCount = MaxBlockSizeBytes div uint BlockPartSizeBytes + 1"

definition ErrPartSetUnexpectedIndex :: err where
  "ErrPartSetUnexpectedIndex = ErrNew ''error part set unexpected index''"

definition ErrPartSetInvalidProof :: err where
  "ErrPartSetInvalidProof = ErrNew ''error part set invalid proof''"

definition ErrPartTooBig :: err where
  "ErrPartTooBig = ErrNew ''error part size too big''"

definition ErrPartInvalidSize :: err where
  "ErrPartInvalidSize = ErrNew ''error inner part with invalid size''"

definition ErrInvalidPart :: "err \<Rightarrow> err" where
  "ErrInvalidPart e = ErrWrap ''invalid part'' e"

record Part =
  ptIndex :: "32 word"
  ptBytes :: bytes
  ptProof :: Proof

definition Part_ValidateBasic :: "Part \<Rightarrow> unit outcome" where
  "Part_ValidateBasic part =
     (if int (length (ptBytes part)) > uint BlockPartSizeBytes then Err ErrPartTooBig
      else if uint (ptIndex part) < wrap64 (pfTotal (ptProof part) - 1)
              \<and> int (length (ptBytes part)) \<noteq> uint BlockPartSizeBytes
        then Err ErrPartInvalidSize
      else if uint (ptIndex part) \<noteq> pfIndex (ptProof part)
        then Err (ErrInvalidPart (ErrFmt ''part index != proof index'' [uint (ptIndex part), pfIndex (ptProof part)]))
      else case Proof_ValidateBasic (ptProof part) of
        Err e \<Rightarrow> Err (ErrInvalidPart (ErrWrap ''wrong Proof'' e))
      | r \<Rightarrow> r)"

text \<open>The generated protobuf part has the same fields.\<close>

definition Part_ToProto :: "Part option \<Rightarrow> Part outcome" where
  "Part_ToProto part =
     (case part of None \<Rightarrow> Err (ErrNew ''nil part'')
      | Some p \<Rightarrow>
          (case Proof_ToProto (Some (ptProof p)) of
             None \<Rightarrow> Panic ''nil pointer dereference''
           | Some proof \<Rightarrow> Ok \<lparr>ptIndex = ptIndex p, ptBytes = ptBytes p, ptProof = proof\<rparr>))"

definition PartFromProto :: "Part option \<Rightarrow> Part outcome" where
  "PartFromProto pb =
     (case pb of None \<Rightarrow> Err (ErrNew ''nil part'')
      | Some p \<Rightarrow>
          bindo (ProofFromProto (Some (ptProof p))) (\<lambda>proof.
            let part = \<lparr>ptIndex = ptIndex p, ptBytes = ptBytes p, ptProof = proof\<rparr>
            in bindo (Part_ValidateBasic part) (\<lambda>_. Ok part)))"

record PartSetHeader =
  phTotal :: "32 word"
  phHash :: bytes

definition ValidateHash :: "bytes \<Rightarrow> unit outcome" where
  "ValidateHash h =
     (if length h > 0 \<and> length h \<noteq> tmhash_Size
      then Err (ErrFmt ''expected size to be bytes, got bytes'' [int tmhash_Size, int (length h)])
      else Ok ())"

definition PartSetHeader_IsZero :: "PartSetHeader \<Rightarrow> bool" where
  "PartSetHeader_IsZero psh \<longleftrightarrow> phTotal psh = 0 \<and> length (phHash psh) = 0"

definition PartSetHeader_Equals :: "PartSetHeader \<Rightarrow> PartSetHeader \<Rightarrow> bool" where
  "PartSetHeader_Equals psh other \<longleftrightarrow> phTotal psh = phTotal other \<and> phHash psh = phHash other"

definition PartSetHeader_ValidateBasic :: "PartSetHeader \<Rightarrow> unit outcome" where
  "PartSetHeader_ValidateBasic psh =
     (case ValidateHash (phHash psh) of Err e \<Rightarrow> Err (ErrWrap ''wrong Hash'' e) | r \<Rightarrow> r)"

definition PartSetHeader_ToProto :: "PartSetHeader option \<Rightarrow> PartSetHeader" where
  "PartSetHeader_ToProto psh =
     (case psh of None \<Rightarrow> \<lparr>phTotal = 0, phHash = []\<rparr>
      | Some p \<Rightarrow> \<lparr>phTotal = phTotal p, phHash = phHash p\<rparr>)"

definition PartSetHeaderFromProto :: "PartSetHeader option \<Rightarrow> PartSetHeader outcome" where
  "PartSetHeaderFromProto ppsh =
     (case ppsh of None \<Rightarrow> Err (ErrNew ''nil PartSetHeader'')
      | Some p \<Rightarrow>
          let psh = \<lparr>phTotal = phTotal p, phHash = phHash p\<rparr>
          in bindo (PartSetHeader_ValidateBasic psh) (\<lambda>_. Ok psh))"

definition ProtoPartSetHeaderIsZero :: "PartSetHeader \<Rightarrow> bool" where
  "ProtoPartSetHeaderIsZero ppsh \<longleftrightarrow> phTotal ppsh = 0 \<and> length (phHash ppsh) = 0"

section \<open>Part sets\<close>

record PartSet =
  psTotal :: "32 word"
  psHash :: bytes
  psParts :: "Part option list"
  psBits :: "bit_array option"
  psCount :: "32 word"
  psByteSize :: int

text \<open>
  Cutting the data: a part for every \<open>i < total\<close>, with bounds computed in 32 bits as the code
  does; slicing with a lower bound above the upper one panics.
\<close>

definition cut_part :: "bytes \<Rightarrow> 32 word \<Rightarrow> 32 word \<Rightarrow> bytes outcome" where
  "cut_part data partSize i =
     (let lo = unat (i * partSize);
          hi = min (length data) (unat ((i + 1) * partSize))
      in if lo > hi then Panic ''slice bounds out of range'' else Ok (take (hi - lo) (drop lo data)))"

definition NewPartSetFromData :: "(bytes \<Rightarrow> bytes) \<Rightarrow> bytes \<Rightarrow> 32 word \<Rightarrow> PartSet outcome option" where
  "NewPartSetFromData sha data partSize =
     (if partSize = 0 then Some (Panic ''integer divide by zero'')
      else
        let total = (of_nat (length data) + partSize - 1) div partSize in
        case mapo (\<lambda>i. cut_part data partSize (of_nat i)) [0..<unat total] of
          Err e \<Rightarrow> Some (Err e)
        | Panic s \<Rightarrow> Some (Panic s)
        | Ok partsBytes \<Rightarrow>
            (case ProofsFromByteSlices sha partsBytes of
               None \<Rightarrow> None
             | Some (root, proofs) \<Rightarrow>
                 Some (bindo (mapo (\<lambda>i. bindo (index_at proofs (int i)) (\<lambda>proof.
                               Ok \<lparr>ptIndex = of_nat i, ptBytes = partsBytes ! i, ptProof = proof\<rparr>))
                             [0..<unat total]) (\<lambda>parts.
                       bindo (NewBitArrayFromFn (uint total) (\<lambda>_. True)) (\<lambda>partsBitArray.
                       Ok \<lparr>psTotal = total, psHash = root, psParts = map Some parts,
                           psBits = partsBitArray, psCount = total, psByteSize = int (length data)\<rparr>)))))"

definition NewPartSetFromHeader :: "PartSetHeader \<Rightarrow> PartSet outcome" where
  "NewPartSetFromHeader header =
     bindo (NewBitArray (uint (phTotal header))) (\<lambda>bA.
     Ok \<lparr>psTotal = phTotal header, psHash = phHash header,
         psParts = replicate (unat (phTotal header)) None, psBits = bA, psCount = 0, psByteSize = 0\<rparr>)"

definition PartSet_Header :: "PartSet option \<Rightarrow> PartSetHeader" where
  "PartSet_Header ps =
     (case ps of None \<Rightarrow> \<lparr>phTotal = 0, phHash = []\<rparr> | Some p \<Rightarrow> \<lparr>phTotal = psTotal p, phHash = psHash p\<rparr>)"

definition PartSet_HasHeader :: "PartSet option \<Rightarrow> PartSetHeader \<Rightarrow> bool" where
  "PartSet_HasHeader ps header =
     (case ps of None \<Rightarrow> False | Some _ \<Rightarrow> PartSetHeader_Equals (PartSet_Header ps) header)"

definition PartSet_BitArray :: "PartSet \<Rightarrow> bit_array option" where
  "PartSet_BitArray ps = BitArray_Copy (psBits ps)"

definition PartSet_Hash :: "(bytes \<Rightarrow> bytes) \<Rightarrow> PartSet option \<Rightarrow> bytes" where
  "PartSet_Hash sha ps = (case ps of None \<Rightarrow> HashFromByteSlices sha [] | Some p \<Rightarrow> psHash p)"

definition PartSet_HashesTo :: "PartSet option \<Rightarrow> bytes \<Rightarrow> bool" where
  "PartSet_HashesTo ps hash = (case ps of None \<Rightarrow> False | Some p \<Rightarrow> psHash p = hash)"

definition PartSet_Count :: "PartSet option \<Rightarrow> 32 word" where
  "PartSet_Count ps = (case ps of None \<Rightarrow> 0 | Some p \<Rightarrow> psCount p)"

definition PartSet_ByteSize :: "PartSet option \<Rightarrow> int" where
  "PartSet_ByteSize ps = (case ps of None \<Rightarrow> 0 | Some p \<Rightarrow> psByteSize p)"

definition PartSet_Total :: "PartSet option \<Rightarrow> 32 word" where
  "PartSet_Total ps = (case ps of None \<Rightarrow> 0 | Some p \<Rightarrow> psTotal p)"

text \<open>
  Every error of \<^verbatim>\<open>AddPart\<close> is returned before the first assignment, so the error
  value carries no state.
\<close>

definition PartSet_AddPart ::
  "(bytes \<Rightarrow> bytes) \<Rightarrow> PartSet option \<Rightarrow> Part \<Rightarrow> (bool \<times> PartSet option) outcome" where
  "PartSet_AddPart sha ps part =
     (case ps of
        None \<Rightarrow> Ok (False, None)
      | Some p \<Rightarrow>
          if ptIndex part \<ge> psTotal p then Err ErrPartSetUnexpectedIndex
          else bindo (index_at (psParts p) (uint (ptIndex part))) (\<lambda>old.
            if old \<noteq> None then Ok (False, Some p)
            else if pfTotal (ptProof part) \<noteq> uint (psTotal p) then Err ErrPartSetInvalidProof
            else case Proof_Verify sha (ptProof part) (PartSet_Hash sha ps) (ptBytes part) of
              Err _ \<Rightarrow> Err ErrPartSetInvalidProof
            | Panic s \<Rightarrow> Panic s
            | Ok _ \<Rightarrow>
                bindo (store_at (psParts p) (uint (ptIndex part)) (Some part)) (\<lambda>parts.
                bindo (BitArray_SetIndex (psBits p) (uint (ptIndex part)) True) (\<lambda>(_, bA).
                Ok (True, Some (p\<lparr>psParts := parts, psBits := bA, psCount := psCount p + 1,
                                  psByteSize := wrap64 (psByteSize p + int (length (ptBytes part)))\<rparr>))))))"

definition PartSet_GetPart :: "PartSet \<Rightarrow> int \<Rightarrow> Part option outcome" where
  "PartSet_GetPart ps index = index_at (psParts ps) index"

definition PartSet_IsComplete :: "PartSet \<Rightarrow> bool" where
  "PartSet_IsComplete ps \<longleftrightarrow> psCount ps = psTotal ps"

subsection \<open>Reading a complete set\<close>

record PartSetReader =
  rdI :: nat
  rdParts :: "Part option list"
  rdRest :: bytes

definition nil_deref :: string where "nil_deref = ''invalid memory address or nil pointer dereference''"

definition NewPartSetReader :: "Part option list \<Rightarrow> PartSetReader outcome" where
  "NewPartSetReader parts =
     bindo (index_at parts 0) (\<lambda>p0.
       case p0 of None \<Rightarrow> Panic nil_deref
       | Some p \<Rightarrow> Ok \<lparr>rdI = 0, rdParts = parts, rdRest = ptBytes p\<rparr>)"

definition PartSet_GetReader :: "PartSet \<Rightarrow> PartSetReader outcome" where
  "PartSet_GetReader ps =
     (if \<not> PartSet_IsComplete ps then Panic ''Cannot GetReader() on incomplete PartSet''
      else NewPartSetReader (psParts ps))"

text \<open>
  \<^verbatim>\<open>Read(p)\<close> with a buffer of \<open>n\<close> bytes: the bytes written, whether the error is
  \<^verbatim>\<open>io.EOF\<close>, and the reader afterwards. \<^verbatim>\<open>bytes.Reader.Read\<close> reports EOF
  when nothing is left. The nested \<^verbatim>\<open>psr.Read(p[:readerLen])\<close> takes the first branch and
  returns all that is left of the current part.
\<close>

definition bytes_Reader_Read :: "PartSetReader \<Rightarrow> nat \<Rightarrow> bytes \<times> bool \<times> PartSetReader" where
  "bytes_Reader_Read r n =
     (if rdRest r = [] then ([], True, r)
      else (take n (rdRest r), False, r\<lparr>rdRest := drop n (rdRest r)\<rparr>))"

function PartSetReader_Read :: "PartSetReader \<Rightarrow> nat \<Rightarrow> (bytes \<times> bool \<times> PartSetReader) outcome" where
  "PartSetReader_Read psr n =
     (let readerLen = length (rdRest psr) in
      if readerLen \<ge> n then Ok (bytes_Reader_Read psr n)
      else if readerLen > 0 then
        (let (b1, eof1, psr1) = bytes_Reader_Read psr readerLen in
         if eof1 then Ok (b1, eof1, psr1)
         else bindo (PartSetReader_Read (psr\<lparr>rdRest := drop readerLen (rdRest psr)\<rparr>) (n - readerLen))
                (\<lambda>(b2, eof2, psr2). Ok (b1 @ b2, eof2, psr2)))
      else
        let i = rdI psr + 1 in
        if i \<ge> length (rdParts psr) then Ok ([], True, psr\<lparr>rdI := i\<rparr>)
        else case rdParts psr ! i of
          None \<Rightarrow> Panic nil_deref
        | Some p \<Rightarrow> PartSetReader_Read (psr\<lparr>rdI := i, rdRest := ptBytes p\<rparr>) n)"
  by pat_completeness auto
termination
  by (relation "measures [\<lambda>(r, n). length (rdParts r) - rdI r, \<lambda>(r, n). length (rdRest r)]") auto

declare PartSetReader_Read.simps [simp del]

section \<open>Splitting data into parts\<close>

definition chunk :: "bytes \<Rightarrow> nat \<Rightarrow> nat \<Rightarrow> bytes" where
  "chunk data s i = take s (drop (i * s) data)"

definition chunks :: "bytes \<Rightarrow> nat \<Rightarrow> bytes list" where
  "chunks data s = map (chunk data s) [0..<(length data + s - 1) div s]"

lemma concat_chunk: "concat (map (chunk data s) [0..<t]) = take (t * s) data"
proof (induction t)
  case (Suc t)
  have "take (Suc t * s) data = take (t * s) data @ take s (drop (t * s) data)"
    by (metis add.commute mult_Suc take_add)
  then show ?case using Suc by (simp add: chunk_def)
qed simp

lemma chunks_total: "0 < s \<Longrightarrow> n \<le> (n + s - 1) div s * (s :: nat)"
proof -
  assume s: "0 < s"
  have "n + s - 1 = (n + s - 1) div s * s + (n + s - 1) mod s" by simp
  moreover have "(n + s - 1) mod s < s" using s by simp
  ultimately show ?thesis by linarith
qed

lemma chunks_end:
  assumes "i < (n + s - 1) div s"
  shows "Suc i * s \<le> n + s - (1 :: nat)"
proof -
  have "Suc i * s \<le> (n + s - 1) div s * s" using assms by (intro mult_le_mono1) simp
  also have "\<dots> \<le> n + s - 1" by simp
  finally show ?thesis .
qed

lemma chunks_index: "0 < s \<Longrightarrow> i < (n + s - 1) div s \<Longrightarrow> i * s < (n :: nat)"
  using chunks_end [of i n s] by simp

lemma concat_chunks: "0 < s \<Longrightarrow> concat (chunks data s) = data"
  using chunks_total [of s "length data"] by (simp add: chunks_def concat_chunk)

lemma unat_of_nat32: "k < 2 ^ 32 \<Longrightarrow> unat (of_nat k :: 32 word) = k"
  by (simp add: unat_of_nat take_bit_nat_eq_self)

lemma unat_total:
  fixes partSize :: "32 word"
  assumes "partSize \<noteq> 0" "n + unat partSize - 1 < 2 ^ 32"
  shows "unat ((of_nat n + partSize - 1) div partSize) = (n + unat partSize - 1) div unat partSize"
proof -
  have "1 \<le> unat partSize" using assms(1) by (simp add: unat_eq_0 Suc_le_eq unat_gt_0)
  then have "(of_nat (n + unat partSize - 1) :: 32 word) = of_nat n + partSize - 1"
    by (simp add: of_nat_diff)
  moreover have "unat (of_nat (n + unat partSize - 1) :: 32 word) = n + unat partSize - 1"
    using assms(2) by (intro unat_of_nat32) simp
  ultimately show ?thesis by (metis unat_div_distrib)
qed

lemma cut_part_chunk:
  fixes partSize :: "32 word"
  assumes "partSize \<noteq> 0" "length data + unat partSize - 1 < 2 ^ 32"
    and "i < (length data + unat partSize - 1) div unat partSize"
  shows "cut_part data partSize (of_nat i) = Ok (chunk data (unat partSize) i)"
proof -
  let ?s = "unat partSize"
  have s: "0 < ?s" using assms(1) by (simp add: unat_gt_0)
  have lo: "i * ?s < length data" using chunks_index [OF s assms(3)] .
  have hi: "Suc i * ?s < 2 ^ 32" using chunks_end [OF assms(3)] assms(2) by linarith
  have w: "(of_nat i + 1) * partSize = (of_nat (Suc i * ?s) :: 32 word)"
    "of_nat i * partSize = (of_nat (i * ?s) :: 32 word)" by (simp_all add: algebra_simps)
  have "unat (of_nat (Suc i * ?s) :: 32 word) = Suc i * ?s" "unat (of_nat (i * ?s) :: 32 word) = i * ?s"
    using hi by (intro unat_of_nat32; simp)+
  then have "cut_part data partSize (of_nat i) =
      Ok (take (min (length data) (Suc i * ?s) - i * ?s) (drop (i * ?s) data))"
    using lo unfolding cut_part_def Let_def w by simp
  also have "take (min (length data) (Suc i * ?s) - i * ?s) (drop (i * ?s) data) = chunk data ?s i"
    unfolding chunk_def by (cases "length data \<le> Suc i * ?s") (simp_all add: min_def)
  finally show ?thesis .
qed

lemma mapo_all_Ok: "(\<And>x. x \<in> set xs \<Longrightarrow> f x = Ok (g x)) \<Longrightarrow> mapo f xs = Ok (map g xs)"
  by (induction xs) auto

definition data_part :: "(bytes \<Rightarrow> bytes) \<Rightarrow> bytes \<Rightarrow> nat \<Rightarrow> nat \<Rightarrow> Part" where
  "data_part sha data s i =
     \<lparr>ptIndex = of_nat i, ptBytes = chunk data s i,
      ptProof = \<lparr>pfTotal = int ((length data + s - 1) div s), pfIndex = int i,
                 pfLeafHash = leafHash sha (chunk data s i), pfAunts = tree_aunts sha (chunks data s) i\<rparr>\<rparr>"

definition full_bits :: "nat \<Rightarrow> bit_array option \<Rightarrow> bool" where
  "full_bits t bA = (case bA of None \<Rightarrow> t = 0 | Some b \<Rightarrow> 0 < t \<and> wf_ba b \<and> ba_abs b = replicate t True)"

lemma NewPartSetFromData_spec:
  fixes partSize :: "32 word"
  assumes "partSize \<noteq> 0" "length data + unat partSize - 1 < 2 ^ 32"
  defines "t \<equiv> (length data + unat partSize - 1) div unat partSize"
  shows "\<exists>bA. NewPartSetFromData sha data partSize = Some (Ok
      \<lparr>psTotal = of_nat t, psHash = HashFromByteSlices sha (chunks data (unat partSize)),
       psParts = map (\<lambda>i. Some (data_part sha data (unat partSize) i)) [0..<t],
       psBits = bA, psCount = of_nat t, psByteSize = int (length data)\<rparr>) \<and> full_bits t bA \<and> t < 2 ^ 32"
proof -
  let ?total = "(of_nat (length data) + partSize - 1) div partSize"
  have t: "unat ?total = t" using unat_total [OF assms(1,2)] by (simp add: t_def)
  have tw: "?total = of_nat t" by (simp add: t [symmetric] del: unat_div)
  have t32: "t < 2 ^ 32" using t unsigned_less [of ?total, where ?'a = nat] by simp
  have cuts: "mapo (\<lambda>i. cut_part data partSize (of_nat i)) [0..<t] = Ok (chunks data (unat partSize))"
    unfolding chunks_def t_def by (rule mapo_all_Ok) (use cut_part_chunk [OF assms(1,2)] in simp)
  have ps: "mapo (\<lambda>i. bindo (index_at (map (\<lambda>i. \<lparr>pfTotal = int (length (chunks data (unat partSize))), pfIndex = int i,
        pfLeafHash = leafHash sha (chunks data (unat partSize) ! i), pfAunts = tree_aunts sha (chunks data (unat partSize)) i\<rparr>)
          [0..<length (chunks data (unat partSize))]) (int i)) (\<lambda>proof.
        Ok \<lparr>ptIndex = of_nat i, ptBytes = chunks data (unat partSize) ! i, ptProof = proof\<rparr>)) [0..<t]
      = Ok (map (data_part sha data (unat partSize)) [0..<t])"
    by (rule mapo_all_Ok) (simp add: chunks_def data_part_def t_def)
  have u: "uint ?total = int t" using t uint_nat [of ?total] by argo
  have bits: "\<exists>bA. NewBitArrayFromFn (uint ?total) (\<lambda>_. True) = Ok bA \<and> full_bits t bA"
  proof (cases "t = 0")
    case True
    then show ?thesis unfolding u by (simp add: NewBitArrayFromFn_def full_bits_def)
  next
    case False
    then have "0 < int t" "int t \<le> MaxInt64 - 63" using t32 by auto
    from NewBitArrayFromFn_abs [OF this, of "\<lambda>_. True"] show ?thesis
      unfolding u using False by (auto simp: full_bits_def map_replicate_const)
  qed
  then obtain bA where "NewBitArrayFromFn (uint ?total) (\<lambda>_. True) = Ok bA" "full_bits t bA" by blast
  then show ?thesis using assms(1) cuts ps t tw t32
    by (simp add: NewPartSetFromData_def Let_def ProofsFromByteSlices_spec)
qed

section \<open>Reading back\<close>

definition part_bytes :: "Part option \<Rightarrow> bytes" where
  "part_bytes p = (case p of None \<Rightarrow> [] | Some q \<Rightarrow> ptBytes q)"

definition unread :: "PartSetReader \<Rightarrow> bytes" where
  "unread r = rdRest r @ concat (map part_bytes (drop (Suc (rdI r)) (rdParts r)))"

lemma PartSetReader_Read_spec:
  "0 < n \<Longrightarrow> None \<notin> set (rdParts r) \<Longrightarrow>
   \<exists>r'. PartSetReader_Read r n = Ok (take n (unread r), length (unread r) < n, r') \<and>
        unread r' = drop n (unread r) \<and> rdParts r' = rdParts r"
proof (induction r n rule: PartSetReader_Read.induct)
  case (1 psr n)
  consider (whole) "n \<le> length (rdRest psr)"
    | (rest) "\<not> n \<le> length (rdRest psr)" "0 < length (rdRest psr)" | (next_part) "0 < n" "rdRest psr = []"
    using "1.prems" by (cases "rdRest psr = []") auto
  then show ?case
  proof cases
    case whole
    then show ?thesis using "1.prems"
      by (auto simp: PartSetReader_Read.simps [of psr n] bytes_Reader_Read_def unread_def)
  next
    case rest
    let ?p = "psr\<lparr>rdRest := []\<rparr>" and ?k = "length (rdRest psr)"
    have "\<exists>r'. PartSetReader_Read ?p (n - ?k) = Ok (take (n - ?k) (unread ?p), length (unread ?p) < n - ?k, r') \<and>
        unread r' = drop (n - ?k) (unread ?p) \<and> rdParts r' = rdParts psr"
      using "1.IH"(1) [OF refl rest, of "(rdRest psr, False, ?p)" "rdRest psr" "(False, ?p)" False ?p]
        rest "1.prems" by (simp add: bytes_Reader_Read_def)
    then show ?thesis using rest
      by (auto simp: PartSetReader_Read.simps [of psr n] bytes_Reader_Read_def unread_def)
  next
    case next_part
    show ?thesis
    proof (cases "Suc (rdI psr) < length (rdParts psr)")
      case True
      then have "rdParts psr ! Suc (rdI psr) \<noteq> None" using "1.prems"(2) nth_mem by metis
      then obtain p where p: "rdParts psr ! Suc (rdI psr) = Some p" by blast
      let ?p = "psr\<lparr>rdI := Suc (rdI psr), rdRest := ptBytes p\<rparr>"
      have u: "unread ?p = unread psr"
        using True next_part p by (simp add: unread_def Cons_nth_drop_Suc [symmetric] part_bytes_def)
      have p1: "rdParts psr ! (rdI psr + 1) = Some p" using p by simp
      show ?thesis using "1.IH"(2) [OF refl _ _ refl _ p1] "1.prems" next_part True p u
        by (simp add: PartSetReader_Read.simps [of psr n])
    next
      case False
      then show ?thesis using next_part
        by (simp add: PartSetReader_Read.simps [of psr n] unread_def)
    qed
  qed
qed

section \<open>The invariant of a part set\<close>

definition has_part :: "Part option \<Rightarrow> bool" where
  "has_part p = (case p of None \<Rightarrow> False | Some _ \<Rightarrow> True)"

lemma has_part_simps [simp]: "\<not> has_part None" "has_part (Some x)"
  by (simp_all add: has_part_def)

definition bits_match :: "Part option list \<Rightarrow> bit_array option \<Rightarrow> bool" where
  "bits_match parts bA =
     (case bA of None \<Rightarrow> parts = [] | Some b \<Rightarrow> parts \<noteq> [] \<and> wf_ba b \<and> ba_abs b = map has_part parts)"

definition partset_inv :: "PartSet \<Rightarrow> bool" where
  "partset_inv ps \<longleftrightarrow>
     length (psParts ps) = unat (psTotal ps) \<and>
     unat (psCount ps) = length (filter has_part (psParts ps)) \<and>
     bits_match (psParts ps) (psBits ps) \<and>
     psByteSize ps = wrap64 (int (sum_list (map (length \<circ> part_bytes) (psParts ps))))"

lemma count_some_less: "None \<in> set xs \<Longrightarrow> length (filter has_part xs) < length xs"
  by (rule length_filter_less) auto

lemma count_some_all: "length (filter has_part xs) = length xs \<longleftrightarrow> None \<notin> set xs"
proof (cases "None \<in> set xs")
  case False
  then have "\<forall>x\<in>set xs. has_part x" by (metis has_part_simps(2) not_None_eq)
  then show ?thesis using False by simp
qed (use count_some_less [of xs] in auto)

lemma IsComplete_iff: "partset_inv ps \<Longrightarrow> PartSet_IsComplete ps \<longleftrightarrow> None \<notin> set (psParts ps)"
proof -
  assume inv: "partset_inv ps"
  have "PartSet_IsComplete ps \<longleftrightarrow> length (filter has_part (psParts ps)) = length (psParts ps)"
    using inv by (simp add: PartSet_IsComplete_def partset_inv_def word_unat_eq_iff)
  also have "\<dots> \<longleftrightarrow> None \<notin> set (psParts ps)" by (rule count_some_all)
  finally show ?thesis .
qed

lemma compute_no_panic: "computeHashFromAunts sha i t lf as \<noteq> Panic s"
proof (induction sha i t lf as arbitrary: s rule: computeHashFromAunts.induct)
  case (1 sha i t lf as)
  have b: "bindo r (\<lambda>x. Ok (f x)) \<noteq> Panic s" if "\<And>s. r \<noteq> Panic s" for r :: "bytes outcome" and f
    using that by (cases r) auto
  show ?case using 1 by (subst computeHashFromAunts.simps) (auto simp: Let_def intro!: b)
qed

lemma Verify_no_panic: "Proof_Verify sha sp root leaf \<noteq> Panic s"
  using compute_no_panic by (auto simp: Proof_Verify_def Proof_computeRootHash_def split: outcome.splits)

lemma filter_some_update:
  "i < length ps \<Longrightarrow> ps ! i = None \<Longrightarrow>
   length (filter has_part (ps[i := Some x])) = Suc (length (filter has_part ps))"
  by (induction ps arbitrary: i) (auto split: nat.splits simp: nth_Cons')

lemma sum_bytes_update:
  "i < length ps \<Longrightarrow> ps ! i = None \<Longrightarrow>
   sum_list (map (length \<circ> part_bytes) (ps[i := Some x])) =
     sum_list (map (length \<circ> part_bytes) ps) + length (ptBytes x)"
  by (induction ps arbitrary: i) (auto split: nat.splits simp: nth_Cons' part_bytes_def)

lemma wrap64_add: "wrap64 (wrap64 a + b) = wrap64 (a + b)"
  unfolding wrap64_def by (simp add: mod_simps algebra_simps)

lemma NewPartSetFromHeader_inv:
  "\<exists>ps. NewPartSetFromHeader h = Ok ps \<and> partset_inv ps \<and> psTotal ps = phTotal h \<and> psHash ps = phHash h \<and>
     psParts ps = replicate (unat (phTotal h)) None"
proof (cases "phTotal h = 0")
  case True
  then show ?thesis
    by (simp add: NewPartSetFromHeader_def NewBitArray_def partset_inv_def bits_match_def wrap64_def)
next
  case False
  then have u: "0 < unat (phTotal h)" by (simp add: unat_gt_0)
  have "uint (phTotal h) < 4294967296" using unsigned_less [of "phTotal h", where ?'a = int] by simp
  moreover have "uint (phTotal h) = int (unat (phTotal h))" by simp
  ultimately have "0 < uint (phTotal h)" "uint (phTotal h) \<le> MaxInt64 - 63"
    using u by linarith+
  from NewBitArray_abs [OF this] obtain b where b: "NewBitArray (uint (phTotal h)) = Ok (Some b)" "wf_ba b"
    "ba_abs b = replicate (unat (phTotal h)) False" by auto
  then show ?thesis using u
    by (simp add: NewPartSetFromHeader_def partset_inv_def bits_match_def wrap64_def part_bytes_def
        map_replicate_const sum_list_replicate)
qed

lemma AddPart_accept:
  assumes inv: "partset_inv ps" and i: "ptIndex part < psTotal ps"
    and free: "psParts ps ! unat (ptIndex part) = None" and total: "pfTotal (ptProof part) = uint (psTotal ps)"
    and v: "Proof_Verify sha (ptProof part) (psHash ps) (ptBytes part) = Ok ()"
  shows "\<exists>ps'. PartSet_AddPart sha (Some ps) part = Ok (True, Some ps') \<and> partset_inv ps' \<and>
      psTotal ps' = psTotal ps \<and> psHash ps' = psHash ps \<and>
      psParts ps' = (psParts ps)[unat (ptIndex part) := Some part]"
proof -
  let ?k = "unat (ptIndex part)"
  have k: "?k < length (psParts ps)" using inv i by (simp add: partset_inv_def word_less_nat_alt)
  have ki: "uint (ptIndex part) < int (length (psParts ps))" using k by (metis of_nat_less_iff uint_nat)
  obtain b where b: "psBits ps = Some b" "wf_ba b" "ba_abs b = map has_part (psParts ps)"
    using inv k by (auto simp: partset_inv_def bits_match_def split: option.splits)
  have "nat (uint (ptIndex part)) < length (ba_abs b)" using k b(3) by simp
  from ba.put_abs [OF b(2) _ this, of True] obtain b' where b': "BitArray_setIndex b (uint (ptIndex part)) True = Ok (True, b')"
    "wf_ba b'" "ba_abs b' = (ba_abs b)[?k := True]" by auto
  have c: "unat (psCount ps + 1) = Suc (unat (psCount ps))"
  proof -
    have "unat (psCount ps) < length (psParts ps)"
      using inv count_some_less [of "psParts ps"] nth_mem [OF k] free by (simp only: partset_inv_def)
    then have "Suc (unat (psCount ps)) < 2 ^ 32 \<or> Suc (unat (psCount ps)) = unat (psTotal ps)"
      using inv unsigned_less [of "psTotal ps", where ?'a = nat] by (simp add: partset_inv_def)
    then have "Suc (unat (psCount ps)) < 2 ^ 32" using unsigned_less [of "psTotal ps", where ?'a = nat] by auto
    from unat_of_nat32 [OF this] show ?thesis by (simp add: add.commute)
  qed
  have m: "map has_part ((psParts ps)[?k := Some part]) = (map has_part (psParts ps))[?k := True]"
    by (simp add: map_update)
  have "PartSet_AddPart sha (Some ps) part = Ok (True, Some (ps\<lparr>psParts := (psParts ps)[?k := Some part],
      psBits := Some b', psCount := psCount ps + 1,
      psByteSize := wrap64 (psByteSize ps + int (length (ptBytes part)))\<rparr>))"
    using i k ki free total v b(1) b'(1)
    by (simp add: PartSet_AddPart_def PartSet_Hash_def BitArray_SetIndex_def not_le index_at_def store_at_def)
  moreover have "partset_inv (ps\<lparr>psParts := (psParts ps)[?k := Some part], psBits := Some b',
      psCount := psCount ps + 1, psByteSize := wrap64 (psByteSize ps + int (length (ptBytes part)))\<rparr>)"
    using inv k free b' b(3) c m
    by (auto simp add: partset_inv_def bits_match_def filter_some_update sum_bytes_update wrap64_add)
  ultimately show ?thesis by simp
qed

lemma AddPart_spec:
  assumes inv: "partset_inv ps"
  shows "(psTotal ps \<le> ptIndex part \<longrightarrow> PartSet_AddPart sha (Some ps) part = Err ErrPartSetUnexpectedIndex) \<and>
    (ptIndex part < psTotal ps \<longrightarrow> psParts ps ! unat (ptIndex part) \<noteq> None \<longrightarrow>
       PartSet_AddPart sha (Some ps) part = Ok (False, Some ps)) \<and>
    (ptIndex part < psTotal ps \<longrightarrow> psParts ps ! unat (ptIndex part) = None \<longrightarrow>
       pfTotal (ptProof part) \<noteq> uint (psTotal ps) \<or>
         Proof_Verify sha (ptProof part) (psHash ps) (ptBytes part) \<noteq> Ok () \<longrightarrow>
       PartSet_AddPart sha (Some ps) part = Err ErrPartSetInvalidProof) \<and>
    (ptIndex part < psTotal ps \<longrightarrow> psParts ps ! unat (ptIndex part) = None \<longrightarrow>
     pfTotal (ptProof part) = uint (psTotal ps) \<longrightarrow>
     Proof_Verify sha (ptProof part) (psHash ps) (ptBytes part) = Ok () \<longrightarrow>
     (\<exists>ps'. PartSet_AddPart sha (Some ps) part = Ok (True, Some ps') \<and> partset_inv ps' \<and>
        psTotal ps' = psTotal ps \<and> psHash ps' = psHash ps \<and>
        psParts ps' = (psParts ps)[unat (ptIndex part) := Some part]))"
proof -
  have k: "uint (ptIndex part) < int (length (psParts ps))" if "ptIndex part < psTotal ps"
    using inv that by (simp add: partset_inv_def word_less_def)
  show ?thesis
    using AddPart_accept [OF inv, of part sha] k Verify_no_panic
    by (auto simp: PartSet_AddPart_def PartSet_Hash_def not_le index_at_def split: outcome.splits)
qed

text \<open>C34. On a part set that satisfies its invariant (the parts slice has the header's length, the
  counter counts the parts present, the bit array mirrors them, the byte size is their total length)
  AddPart never panics. It rejects an index outside the set, leaves the set unchanged on a duplicate,
  rejects a part whose proof has the wrong total or does not verify, and otherwise stores the part
  at its index and re-establishes the invariant; the set is complete exactly when no slot is empty.\<close>

theorem partset_addpart:
  assumes inv: "partset_inv ps"
  shows "(psTotal ps \<le> ptIndex part \<longrightarrow> PartSet_AddPart sha (Some ps) part = Err ErrPartSetUnexpectedIndex) \<and>
    (ptIndex part < psTotal ps \<longrightarrow> psParts ps ! unat (ptIndex part) \<noteq> None \<longrightarrow>
       PartSet_AddPart sha (Some ps) part = Ok (False, Some ps)) \<and>
    (ptIndex part < psTotal ps \<longrightarrow> psParts ps ! unat (ptIndex part) = None \<longrightarrow>
       pfTotal (ptProof part) \<noteq> uint (psTotal ps) \<or>
         Proof_Verify sha (ptProof part) (psHash ps) (ptBytes part) \<noteq> Ok () \<longrightarrow>
       PartSet_AddPart sha (Some ps) part = Err ErrPartSetInvalidProof) \<and>
    (ptIndex part < psTotal ps \<longrightarrow> psParts ps ! unat (ptIndex part) = None \<longrightarrow>
     pfTotal (ptProof part) = uint (psTotal ps) \<longrightarrow>
     Proof_Verify sha (ptProof part) (psHash ps) (ptBytes part) = Ok () \<longrightarrow>
     (\<exists>ps'. PartSet_AddPart sha (Some ps) part = Ok (True, Some ps') \<and> partset_inv ps' \<and>
        psTotal ps' = psTotal ps \<and> psHash ps' = psHash ps \<and>
        psParts ps' = (psParts ps)[unat (ptIndex part) := Some part])) \<and>
    (PartSet_IsComplete ps \<longleftrightarrow> None \<notin> set (psParts ps))"
  using AddPart_spec [OF inv, of part sha] IsComplete_iff [OF inv] by blast

theorem partset_addpart_witness:
  "let ps = \<lparr>psTotal = 1, psHash = leafHash pad32 [7], psParts = [None], psBits = Some \<lparr>Bits = 1, Elems = [0]\<rparr>,
              psCount = 0, psByteSize = 0\<rparr>
   in partset_inv ps \<and> (\<exists>ps'. PartSet_AddPart pad32 (Some ps) (data_part pad32 [7] 1 0) = Ok (True, Some ps') \<and> partset_inv ps')"
proof -
  let ?ps = "\<lparr>psTotal = 1, psHash = leafHash pad32 [7], psParts = [None], psBits = Some \<lparr>Bits = 1, Elems = [0]\<rparr>,
              psCount = 0, psByteSize = 0\<rparr>"
  have inv: "partset_inv ?ps"
    by (simp add: partset_inv_def bits_match_def part_bytes_def wrap64_def wf_ba_def ba_abs_def ba_bit_def)
  have "Proof_Verify pad32 (ptProof (data_part pad32 [7] 1 0)) (psHash ?ps) (ptBytes (data_part pad32 [7] 1 0)) = Ok ()"
    by code_simp
  moreover have "pfTotal (ptProof (data_part pad32 [7] 1 0)) = 1" "ptIndex (data_part pad32 [7] 1 0) = 0"
    by (simp_all add: data_part_def)
  ultimately show ?thesis
    using inv partset_addpart [OF inv, of "data_part pad32 [7] 1 0" pad32] by (auto simp add: Let_def)
qed

section \<open>Reassembling a block\<close>

text \<open>Offering a sequence of parts, in any order, with rejected parts skipped.\<close>

fun add_parts :: "(bytes \<Rightarrow> bytes) \<Rightarrow> PartSet \<Rightarrow> Part list \<Rightarrow> PartSet outcome" where
  "add_parts sha ps [] = Ok ps"
| "add_parts sha ps (part # rest) =
     (case PartSet_AddPart sha (Some ps) part of
        Ok (_, Some ps') \<Rightarrow> add_parts sha ps' rest
      | Ok (_, None) \<Rightarrow> Panic nil_deref
      | Err _ \<Rightarrow> add_parts sha ps rest
      | Panic s \<Rightarrow> Panic s)"

lemma AddPart_cases:
  assumes "partset_inv ps"
  shows "(\<exists>e. PartSet_AddPart sha (Some ps) part = Err e) \<or> PartSet_AddPart sha (Some ps) part = Ok (False, Some ps) \<or>
    (ptIndex part < psTotal ps \<and> pfTotal (ptProof part) = uint (psTotal ps) \<and>
     Proof_Verify sha (ptProof part) (psHash ps) (ptBytes part) = Ok () \<and>
     (\<exists>ps'. PartSet_AddPart sha (Some ps) part = Ok (True, Some ps') \<and> partset_inv ps' \<and>
        psTotal ps' = psTotal ps \<and> psHash ps' = psHash ps \<and>
        psParts ps' = (psParts ps)[unat (ptIndex part) := Some part]))"
  using AddPart_spec [OF assms, of part sha] by (metis linorder_not_le)

text \<open>The bytes a part set holds are the bytes of the list it was opened for.\<close>

definition holds_only :: "bytes list \<Rightarrow> PartSet \<Rightarrow> bool" where
  "holds_only items ps \<longleftrightarrow>
     partset_inv ps \<and> unat (psTotal ps) = length items \<and>
     (\<forall>i<length items. \<forall>p. psParts ps ! i = Some p \<longrightarrow> ptBytes p = items ! i)"

lemma add_part_genuine:
  assumes sha: "\<forall>x. length (sha x) = tmhash_Size"
    and inj: "inj_on sha (set (tree_inputs sha items) \<union> set (verify_inputs sha (ptProof part) (ptBytes part)))"
    and root: "psHash ps = HashFromByteSlices sha items" and h: "holds_only items ps"
    and valid: "Part_ValidateBasic part = Ok ()"
    and add: "PartSet_AddPart sha (Some ps) part = Ok (True, Some ps')"
  shows "holds_only items ps'"
proof -
  have inv: "partset_inv ps" using h by (simp add: holds_only_def)
  from AddPart_cases [OF inv, of sha part] add
  have a: "ptIndex part < psTotal ps" "pfTotal (ptProof part) = uint (psTotal ps)"
    "Proof_Verify sha (ptProof part) (psHash ps) (ptBytes part) = Ok ()"
    "partset_inv ps'" "psTotal ps' = psTotal ps" "psParts ps' = (psParts ps)[unat (ptIndex part) := Some part]"
    by auto
  have idx: "pfIndex (ptProof part) = uint (ptIndex part)"
    using valid by (auto simp: Part_ValidateBasic_def split: if_splits)
  have tot: "pfTotal (ptProof part) = int (length items)" using a(2) h uint_nat [of "psTotal ps"] by (simp only: holds_only_def)
  have "ptBytes part = items ! unat (ptIndex part)"
    using Proof_Verify_sound [OF sha inj tot a(3) [unfolded root]] idx by simp
  moreover have "length (psParts ps) = length items" using h inv by (simp add: holds_only_def partset_inv_def)
  ultimately have "ptBytes p = items ! i" if "i < length items" "psParts ps' ! i = Some p" for i p
    using h that a(6) by (cases "i = unat (ptIndex part)") (auto simp: holds_only_def)
  then show ?thesis using h a(4,5) by (simp add: holds_only_def)
qed

lemma add_parts_genuine:
  assumes sha: "\<forall>x. length (sha x) = tmhash_Size"
    and inj: "inj_on sha (set (tree_inputs sha items) \<union> (\<Union>p\<in>set parts. set (verify_inputs sha (ptProof p) (ptBytes p))))"
    and valid: "\<forall>p\<in>set parts. Part_ValidateBasic p = Ok ()"
    and "psHash ps = HashFromByteSlices sha items" "holds_only items ps"
  shows "\<exists>ps'. add_parts sha ps parts = Ok ps' \<and> holds_only items ps' \<and> psHash ps' = psHash ps"
  using assms(2-5)
proof (induction parts arbitrary: ps)
  case (Cons part rest)
  have inj1: "inj_on sha (set (tree_inputs sha items) \<union> set (verify_inputs sha (ptProof part) (ptBytes part)))"
    and inj2: "inj_on sha (set (tree_inputs sha items) \<union> (\<Union>p\<in>set rest. set (verify_inputs sha (ptProof p) (ptBytes p))))"
    using Cons.prems(1) by (rule inj_on_subset; auto)+
  have v: "\<forall>p\<in>set rest. Part_ValidateBasic p = Ok ()" "Part_ValidateBasic part = Ok ()" using Cons.prems(2) by auto
  have inv: "partset_inv ps" using Cons.prems(4) by (simp add: holds_only_def)
  note IH = Cons.IH [OF inj2 v(1)]
  from AddPart_cases [OF inv, of sha part] show ?case
  proof (elim disjE exE conjE)
    fix e assume "PartSet_AddPart sha (Some ps) part = Err e"
    then show ?thesis using IH Cons.prems(3,4) by simp
  next
    assume "PartSet_AddPart sha (Some ps) part = Ok (False, Some ps)"
    then show ?thesis using IH Cons.prems(3,4) by simp
  next
    fix ps' assume a: "PartSet_AddPart sha (Some ps) part = Ok (True, Some ps')" "psHash ps' = psHash ps"
    then show ?thesis
      using IH [of ps'] add_part_genuine [OF sha inj1 Cons.prems(3,4) v(2) a(1)] Cons.prems(3) by simp
  qed
qed simp

lemma complete_bytes:
  assumes "holds_only items ps" "PartSet_IsComplete ps"
  shows "concat (map part_bytes (psParts ps)) = concat items"
proof -
  have len: "length (psParts ps) = length items" and ne: "None \<notin> set (psParts ps)"
    using assms IsComplete_iff [of ps] by (auto simp: holds_only_def partset_inv_def)
  have "map part_bytes (psParts ps) = items"
  proof (rule nth_equalityI)
    fix i assume "i < length (map part_bytes (psParts ps))"
    then have i: "i < length (psParts ps)" by simp
    then have "psParts ps ! i \<noteq> None" using ne nth_mem by metis
    then show "map part_bytes (psParts ps) ! i = items ! i"
      using assms(1) i len by (auto simp: holds_only_def part_bytes_def)
  qed (simp add: len)
  then show ?thesis by simp
qed

lemma GetReader_reads:
  assumes "PartSet_IsComplete ps" "None \<notin> set (psParts ps)"
    and "concat (map part_bytes (psParts ps)) = data" "data \<noteq> []"
  shows "\<exists>r r'. PartSet_GetReader ps = Ok r \<and> PartSetReader_Read r (length data) = Ok (data, False, r') \<and>
     unread r' = []"
proof -
  have "psParts ps \<noteq> []" using assms(3,4) by auto
  then obtain p rest where ps: "psParts ps = Some p # rest" using assms(2)
    by (metis list.exhaust list.set_intros(1) not_None_eq)
  define r where "r = \<lparr>rdI = 0, rdParts = psParts ps, rdRest = ptBytes p\<rparr>"
  have "PartSet_GetReader ps = Ok r"
    using assms(1) ps by (simp add: PartSet_GetReader_def NewPartSetReader_def r_def)
  moreover have "unread r = data" using assms(3) ps by (simp add: unread_def r_def part_bytes_def)
  ultimately show ?thesis
    using PartSetReader_Read_spec [of "length data" r] assms(2,4) by (auto simp: r_def)
qed

text \<open>C35. Splitting non-empty data of at most 2^32 - partSize bytes into parts neither panics nor diverges, yields a
  complete part set whose header names the Merkle root of the chunks, and reading the set back
  through its reader returns exactly the data.\<close>

theorem partset_roundtrip:
  assumes "partSize \<noteq> 0" "length data + unat partSize - 1 < 2 ^ 32" "data \<noteq> []"
  shows "\<exists>ps r r'. NewPartSetFromData sha data partSize = Some (Ok ps) \<and> PartSet_IsComplete ps \<and>
     PartSet_Header (Some ps) = \<lparr>phTotal = psTotal ps, phHash = HashFromByteSlices sha (chunks data (unat partSize))\<rparr> \<and>
     unat (psTotal ps) = (length data + unat partSize - 1) div unat partSize \<and>
     PartSet_GetReader ps = Ok r \<and> PartSetReader_Read r (length data) = Ok (data, False, r')"
proof -
  let ?s = "unat partSize" let ?t = "(length data + ?s - 1) div ?s"
  obtain bA where n: "NewPartSetFromData sha data partSize = Some (Ok
      \<lparr>psTotal = of_nat ?t, psHash = HashFromByteSlices sha (chunks data ?s),
       psParts = map (\<lambda>i. Some (data_part sha data ?s i)) [0..<?t],
       psBits = bA, psCount = of_nat ?t, psByteSize = int (length data)\<rparr>)" and t: "?t < 2 ^ 32"
    using NewPartSetFromData_spec [OF assms(1,2), of sha] by blast
  define ps where "ps = \<lparr>psTotal = of_nat ?t, psHash = HashFromByteSlices sha (chunks data ?s),
       psParts = map (\<lambda>i. Some (data_part sha data ?s i)) [0..<?t],
       psBits = bA, psCount = of_nat ?t, psByteSize = int (length data)\<rparr>"
  have s: "0 < ?s" using assms(1) by (simp add: unat_gt_0)
  have "map part_bytes (psParts ps) = chunks data ?s"
    by (simp add: ps_def part_bytes_def data_part_def chunks_def)
  then have "concat (map part_bytes (psParts ps)) = data" by (simp add: concat_chunks [OF s])
  moreover have "PartSet_IsComplete ps" "None \<notin> set (psParts ps)" by (auto simp: ps_def PartSet_IsComplete_def)
  ultimately obtain r r' where "PartSet_GetReader ps = Ok r" "PartSetReader_Read r (length data) = Ok (data, False, r')"
    using GetReader_reads [of ps data] assms(3) by blast
  moreover have "unat (psTotal ps) = ?t" using unat_of_nat32 [OF t] by (simp add: ps_def)
  ultimately show ?thesis using n \<open>PartSet_IsComplete ps\<close>
    by (auto simp: ps_def [symmetric] PartSet_Header_def) (auto simp: ps_def)
qed

theorem partset_roundtrip_witness:
  "\<exists>ps r r'. NewPartSetFromData pad32 [1, 2, 3] 2 = Some (Ok ps) \<and> unat (psTotal ps) = 2 \<and>
     PartSet_GetReader ps = Ok r \<and> PartSetReader_Read r 3 = Ok ([1, 2, 3], False, r')"
proof -
  have "(2 :: 32 word) \<noteq> 0" "length [1, 2, 3 :: byte] + unat (2 :: 32 word) - 1 < 2 ^ 32" "[1, 2, 3 :: byte] \<noteq> []"
    by simp_all
  moreover have "length [1, 2, 3 :: byte] = 3" "(3 + unat (2 :: 32 word) - 1) div unat (2 :: 32 word) = 2" by simp_all
  ultimately show ?thesis using partset_roundtrip [of "2 :: 32 word" "[1, 2, 3]" pad32] by metis
qed

text \<open>C31. A part set opened from the header of some non-empty data, to which parts are offered in any order, any
  number of times and from any source (each having passed ValidateBasic, the contract of AddPart),
  never panics, and when it is complete, reading it returns exactly that data, provided the digest
  has no collision among the strings hashed.\<close>

theorem partset_reassembly:
  assumes sha: "\<forall>x. length (sha x) = tmhash_Size"
    and size: "partSize \<noteq> 0" "length data + unat partSize - 1 < 2 ^ 32" "data \<noteq> []"
    and src: "NewPartSetFromData sha data partSize = Some (Ok src)"
    and opened: "NewPartSetFromHeader (PartSet_Header (Some src)) = Ok ps0"
    and inj: "inj_on sha (set (tree_inputs sha (chunks data (unat partSize))) \<union>
                (\<Union>p\<in>set parts. set (verify_inputs sha (ptProof p) (ptBytes p))))"
    and valid: "\<forall>p\<in>set parts. Part_ValidateBasic p = Ok ()"
  shows "\<exists>ps. add_parts sha ps0 parts = Ok ps \<and>
     (PartSet_IsComplete ps \<longrightarrow>
        (\<exists>r r'. PartSet_GetReader ps = Ok r \<and> PartSetReader_Read r (length data) = Ok (data, False, r')))"
proof -
  let ?s = "unat partSize" let ?t = "(length data + ?s - 1) div ?s"
  have s: "0 < ?s" using size(1) by (simp add: unat_gt_0)
  have hdr: "psTotal src = of_nat ?t" "psHash src = HashFromByteSlices sha (chunks data ?s)" and t: "?t < 2 ^ 32"
    using NewPartSetFromData_spec [OF size(1,2), of sha] src by auto
  have "holds_only (chunks data ?s) ps0" "psHash ps0 = HashFromByteSlices sha (chunks data ?s)"
    using NewPartSetFromHeader_inv [of "PartSet_Header (Some src)"] opened hdr unat_of_nat32 [OF t]
    by (auto simp: holds_only_def PartSet_Header_def chunks_def)
  from add_parts_genuine [OF sha inj valid this(2,1)] obtain ps
    where ps: "add_parts sha ps0 parts = Ok ps" "holds_only (chunks data ?s) ps" by blast
  have "\<exists>r r'. PartSet_GetReader ps = Ok r \<and> PartSetReader_Read r (length data) = Ok (data, False, r')"
    if c: "PartSet_IsComplete ps"
  proof -
    have "None \<notin> set (psParts ps)" using IsComplete_iff [of ps] c ps(2) by (simp add: holds_only_def)
    then show ?thesis
      using GetReader_reads [OF c _ _ size(3)] complete_bytes [OF ps(2) c] concat_chunks [OF s, of data] by auto
  qed
  then show ?thesis using ps(1) by blast
qed

theorem partset_reassembly_witness:
  "\<exists>src ps0 ps r r'. NewPartSetFromData pad32 [7] 65536 = Some (Ok src) \<and>
     NewPartSetFromHeader (PartSet_Header (Some src)) = Ok ps0 \<and>
     add_parts pad32 ps0 [data_part pad32 [7] 65536 0] = Ok ps \<and> PartSet_IsComplete ps \<and>
     PartSet_GetReader ps = Ok r \<and> PartSetReader_Read r 1 = Ok ([7], False, r')"
proof -
  have size: "(65536 :: 32 word) \<noteq> 0" "length [7 :: byte] + unat (65536 :: 32 word) - 1 < 2 ^ 32" "[7 :: byte] \<noteq> []"
    by simp_all
  have cs: "chunks [7] (unat (65536 :: 32 word)) = [[7]]" by (simp add: chunks_def chunk_def)
  obtain bA where src: "NewPartSetFromData pad32 [7] 65536 = Some (Ok
      \<lparr>psTotal = 1, psHash = HashFromByteSlices pad32 [[7]], psParts = [Some (data_part pad32 [7] 65536 0)],
       psBits = bA, psCount = 1, psByteSize = 1\<rparr>)" (is "_ = Some (Ok ?src)")
    using NewPartSetFromData_spec [OF size(1,2), of pad32] cs by (auto simp: upt_rec)
  let ?ps0 = "\<lparr>psTotal = 1, psHash = HashFromByteSlices pad32 [[7]], psParts = [None],
      psBits = Some \<lparr>Bits = 1, Elems = [0]\<rparr>, psCount = 0, psByteSize = 0\<rparr>"
  have ps0: "NewPartSetFromHeader (PartSet_Header (Some ?src)) = Ok ?ps0"
    by (simp add: NewPartSetFromHeader_def PartSet_Header_def NewBitArray_def words_for_def wrap64_def quot_def make_slice_def)
  have inj: "inj_on pad32 (set (tree_inputs pad32 (chunks [7] (unat (65536 :: 32 word)))) \<union>
      (\<Union>p\<in>set [data_part pad32 [7] 65536 0]. set (verify_inputs pad32 (ptProof p) (ptBytes p))))"
    by (simp add: cs tree_inputs.simps verify_inputs_def data_part_def chunk_def aunts_inputs.simps chunks_def
        tree_aunts.simps)
  have valid: "\<forall>p\<in>set [data_part pad32 [7] 65536 0]. Part_ValidateBasic p = Ok ()"
    by (simp add: Part_ValidateBasic_def data_part_def chunk_def BlockPartSizeBytes_def wrap64_def chunks_def
        Proof_ValidateBasic_def leafHash_def length_pad32 tree_aunts.simps)
  have dp: "data_part pad32 [7] 65536 0 = \<lparr>ptIndex = 0, ptBytes = [7],
      ptProof = \<lparr>pfTotal = 1, pfIndex = 0, pfLeafHash = leafHash pad32 [7], pfAunts = []\<rparr>\<rparr>"
    by (simp add: data_part_def chunk_def chunks_def tree_aunts.simps)
  have add: "(case add_parts pad32 ?ps0 [data_part pad32 [7] 65536 0] of Ok ps \<Rightarrow> PartSet_IsComplete ps | _ \<Rightarrow> False)"
    unfolding dp by code_simp
  from partset_reassembly [OF _ size src ps0 inj valid] length_pad32 add show ?thesis
    using src ps0 by (auto split: outcome.splits)
qed

end
