(* ===== verification/Keys.thy ===== *)
theory Keys
  imports Prelude
begin

text \<open>
  Public keys: \<^verbatim>\<open>crypto/ed25519\<close>, \<^verbatim>\<open>crypto/secp256k1\<close>, their conversion in
  \<^verbatim>\<open>crypto/encoding\<close>, the batch verifier of \<^verbatim>\<open>crypto/batch\<close> and the table of key types
  in \<^verbatim>\<open>internal/keytypes\<close>. This is the default build, in which BLS12-381 is disabled and no
  such key can be made. The hash functions, the curve operations and the batch equation are the
  fields of a \<open>key_prims\<close> record; everything the sources do around them is defined here. The theory
  shows that the conversions are inverse to each other on well-sized keys, that private keys derived
  from a secret are valid scalars, and that batch verification answers as single verification does
  whenever the batch equation does.
\<close>

section \<open>Primitives outside the sources\<close>

record key_prims =
  pr_sha :: "bytes \<Rightarrow> bytes"
  pr_ripemd :: "bytes \<Rightarrow> bytes"
  pr_ed_verify :: "bytes \<Rightarrow> bytes \<Rightarrow> bytes \<Rightarrow> bool"
  pr_ed_batch :: "(bytes \<times> bytes \<times> bytes) list \<Rightarrow> bool \<times> bool list"
  pr_secp_parse :: "bytes \<Rightarrow> bool"
  pr_secp_low_s :: "bytes \<Rightarrow> bool"
  pr_secp_verify :: "bytes \<Rightarrow> bytes \<Rightarrow> bytes \<Rightarrow> bool"

definition tmhash_TruncatedSize :: nat where "tmhash_TruncatedSize = 20"

definition SumTruncated :: "'a key_prims_scheme \<Rightarrow> bytes \<Rightarrow> bytes" where
  "SumTruncated env bz = take tmhash_TruncatedSize (pr_sha env bz)"

section \<open>Keys\<close>

datatype PubKey = Ed25519 bytes | Secp256k1 bytes

definition ed25519_KeyType :: string where "ed25519_KeyType = ''ed25519''"
definition secp256k1_KeyType :: string where "secp256k1_KeyType = ''secp256k1''"
definition bls12381_KeyType :: string where "bls12381_KeyType = ''bls12_381''"
definition bls12381_Enabled :: bool where "bls12381_Enabled = False"

definition ed25519_PubKeySize :: nat where "ed25519_PubKeySize = 32"
definition ed25519_SignatureSize :: nat where "ed25519_SignatureSize = 64"
definition secp256k1_PubKeySize :: nat where "secp256k1_PubKeySize = 33"
definition secp256k1_PrivKeySize :: nat where "secp256k1_PrivKeySize = 32"

lemmas key_sizes = ed25519_PubKeySize_def ed25519_SignatureSize_def secp256k1_PubKeySize_def secp256k1_PrivKeySize_def
lemmas key_types = ed25519_KeyType_def secp256k1_KeyType_def bls12381_KeyType_def

fun PubKey_Type :: "PubKey \<Rightarrow> string" where
  "PubKey_Type (Ed25519 _) = ed25519_KeyType"
| "PubKey_Type (Secp256k1 _) = secp256k1_KeyType"

fun PubKey_Bytes :: "PubKey \<Rightarrow> bytes" where
  "PubKey_Bytes (Ed25519 b) = b"
| "PubKey_Bytes (Secp256k1 b) = b"

definition ed25519_PubKey_Address :: "'a key_prims_scheme \<Rightarrow> bytes \<Rightarrow> bytes outcome" where
  "ed25519_PubKey_Address env b =
     (if length b \<noteq> ed25519_PubKeySize then Panic ''pubkey is incorrect size'' else Ok (SumTruncated env b))"

definition secp256k1_PubKey_Address :: "'a key_prims_scheme \<Rightarrow> bytes \<Rightarrow> bytes outcome" where
  "secp256k1_PubKey_Address env b =
     (if length b \<noteq> secp256k1_PubKeySize then Panic ''length of pubkey is incorrect''
      else Ok (pr_ripemd env (pr_sha env b)))"

definition ed25519_PubKey_VerifySignature :: "'a key_prims_scheme \<Rightarrow> bytes \<Rightarrow> bytes \<Rightarrow> bytes \<Rightarrow> bool" where
  "ed25519_PubKey_VerifySignature env b msg sig =
     (if length sig \<noteq> ed25519_SignatureSize then False else pr_ed_verify env b msg sig)"

definition secp256k1_PubKey_VerifySignature :: "'a key_prims_scheme \<Rightarrow> bytes \<Rightarrow> bytes \<Rightarrow> bytes \<Rightarrow> bool" where
  "secp256k1_PubKey_VerifySignature env b msg sig =
     (if length sig \<noteq> 64 then False
      else if \<not> pr_secp_parse env b then False
      else if \<not> pr_secp_low_s env sig then False
      else pr_secp_verify env b (pr_sha env msg) sig)"

text \<open>The two methods of the key interface, by the type of the key.\<close>

fun PubKey_Address :: "'a key_prims_scheme \<Rightarrow> PubKey \<Rightarrow> bytes outcome" where
  "PubKey_Address env (Ed25519 b) = ed25519_PubKey_Address env b"
| "PubKey_Address env (Secp256k1 b) = secp256k1_PubKey_Address env b"

fun PubKey_VerifySignature :: "'a key_prims_scheme \<Rightarrow> PubKey \<Rightarrow> bytes \<Rightarrow> bytes \<Rightarrow> bool" where
  "PubKey_VerifySignature env (Ed25519 b) msg sig = ed25519_PubKey_VerifySignature env b msg sig"
| "PubKey_VerifySignature env (Secp256k1 b) msg sig = secp256k1_PubKey_VerifySignature env b msg sig"

text \<open>A key has the length its type prescribes: what the conversions below accept.\<close>

fun wf_key :: "PubKey \<Rightarrow> bool" where
  "wf_key (Ed25519 b) = (length b = ed25519_PubKeySize)"
| "wf_key (Secp256k1 b) = (length b = secp256k1_PubKeySize)"

definition key_address :: "'a key_prims_scheme \<Rightarrow> PubKey \<Rightarrow> bytes" where
  "key_address env k = (case PubKey_Address env k of Ok a \<Rightarrow> a | _ \<Rightarrow> [])"

lemma PubKey_Address_Ok: "PubKey_Address env k = Ok a \<longleftrightarrow> wf_key k \<and> a = key_address env k"
  by (cases k) (auto simp: key_address_def ed25519_PubKey_Address_def secp256k1_PubKey_Address_def)

lemma PubKey_Address_not_Err [simp]: "PubKey_Address env k \<noteq> Err e"
  by (cases k) (auto simp: ed25519_PubKey_Address_def secp256k1_PubKey_Address_def)

section \<open>Private keys\<close>

text \<open>An Ed25519 private key carries its public key in its second half; all zeroes mean it is missing.\<close>

definition ed25519_PrivKey_PubKey :: "bytes \<Rightarrow> PubKey outcome" where
  "ed25519_PrivKey_PubKey privKey =
     (if length privKey < 32 then Panic ''slice bounds out of range''
      else if list_all (\<lambda>v. v = 0) (drop 32 privKey)
        then Panic ''Expected ed25519 PrivKey to include concatenated pubkey bytes''
      else Ok (Ed25519 (copy_into (replicate ed25519_PubKeySize 0) (drop 32 privKey))))"

text \<open>\<^verbatim>\<open>big.Int.SetBytes\<close> and \<^verbatim>\<open>Bytes\<close>: big-endian, without leading zeroes.\<close>

definition SetBytes :: "bytes \<Rightarrow> int" where
  "SetBytes bz = foldl (\<lambda>acc b. acc * 256 + uint b) 0 bz"

function big_Bytes :: "int \<Rightarrow> bytes" where
  "big_Bytes n = (if n \<le> 0 then [] else big_Bytes (n div 256) @ [of_int (n mod 256)])"
  by pat_completeness auto
termination
  by (relation "measure nat") auto

declare big_Bytes.simps [simp del]

text \<open>The order of the curve is a constant of the curve library and a parameter here.\<close>

definition GenPrivKeySecp256k1 :: "'a key_prims_scheme \<Rightarrow> int \<Rightarrow> bytes \<Rightarrow> bytes outcome" where
  "GenPrivKeySecp256k1 env N secret =
     (let fe = SetBytes (pr_sha env secret) mod (N - 1) + 1;
          feB = big_Bytes fe
      in if length feB > 32 then Panic ''slice bounds out of range''
         else Ok (replicate (32 - length feB) 0 @ feB))"

text \<open>
  Rejection sampling from a source of randomness, given as the 32-byte blocks it delivers; a source
  that runs dry is a read error and panics.
\<close>

fun secp256k1_genPrivKey :: "int \<Rightarrow> bytes list \<Rightarrow> bytes outcome" where
  "secp256k1_genPrivKey N [] = Panic ''EOF''"
| "secp256k1_genPrivKey N (b # bs) =
     (let d = SetBytes b in if 0 < sgn d \<and> d < N then Ok b else secp256k1_genPrivKey N bs)"

section \<open>Conversion\<close>

datatype PublicKeyProto = PkEd25519 bytes | PkSecp256K1 bytes | PkBls12381 bytes | PkNone

definition ErrUnsupportedKey :: err where "ErrUnsupportedKey = ErrNew ''encoding: unsupported key''"

definition ErrInvalidKeyLen :: "nat \<Rightarrow> nat \<Rightarrow> err" where
  "ErrInvalidKeyLen got want = ErrFmt ''encoding: invalid key length'' [int got, int want]"

definition PubKeyToProto :: "PubKey option \<Rightarrow> PublicKeyProto outcome" where
  "PubKeyToProto k =
     (case k of None \<Rightarrow> Err ErrUnsupportedKey
      | Some key \<Rightarrow>
          if PubKey_Type key = ed25519_KeyType then Ok (PkEd25519 (PubKey_Bytes key))
          else if PubKey_Type key = secp256k1_KeyType then Ok (PkSecp256K1 (PubKey_Bytes key))
          else Err ErrUnsupportedKey)"

fun PubKeyFromProto :: "PublicKeyProto \<Rightarrow> PubKey outcome" where
  "PubKeyFromProto (PkEd25519 b) =
     (if length b \<noteq> ed25519_PubKeySize then Err (ErrInvalidKeyLen (length b) ed25519_PubKeySize) else Ok (Ed25519 b))"
| "PubKeyFromProto (PkSecp256K1 b) =
     (if length b \<noteq> secp256k1_PubKeySize then Err (ErrInvalidKeyLen (length b) secp256k1_PubKeySize) else Ok (Secp256k1 b))"
| "PubKeyFromProto (PkBls12381 b) = Err ErrUnsupportedKey"
| "PubKeyFromProto PkNone = Err ErrUnsupportedKey"

definition PubKeyFromTypeAndBytes :: "string \<Rightarrow> bytes \<Rightarrow> PubKey outcome" where
  "PubKeyFromTypeAndBytes pkType b =
     (if pkType = ed25519_KeyType then
        (if length b \<noteq> ed25519_PubKeySize then Err (ErrInvalidKeyLen (length b) ed25519_PubKeySize) else Ok (Ed25519 b))
      else if pkType = secp256k1_KeyType then
        (if length b \<noteq> secp256k1_PubKeySize then Err (ErrInvalidKeyLen (length b) secp256k1_PubKeySize) else Ok (Secp256k1 b))
      else Err ErrUnsupportedKey)"

definition IsSupported :: "string \<Rightarrow> bool" where
  "IsSupported keyType \<longleftrightarrow>
     keyType = ed25519_KeyType \<or> keyType = secp256k1_KeyType \<or> bls12381_Enabled \<and> keyType = bls12381_KeyType"

section \<open>Batch verification\<close>

definition SupportsBatchVerifier :: "PubKey option \<Rightarrow> bool" where
  "SupportsBatchVerifier pk =
     (case pk of None \<Rightarrow> False | Some k \<Rightarrow> PubKey_Type k = ed25519_KeyType)"

text \<open>A batch verifier is the list of entries added so far. A nil key panics.\<close>

type_synonym BatchVerifier = "(bytes \<times> bytes \<times> bytes) list"

definition CreateBatchVerifier :: "PubKey option \<Rightarrow> BatchVerifier option outcome" where
  "CreateBatchVerifier pk =
     (case pk of None \<Rightarrow> Panic ''invalid memory address or nil pointer dereference''
      | Some k \<Rightarrow> if PubKey_Type k = ed25519_KeyType then Ok (Some []) else Ok None)"

definition ErrNotEd25519Key :: err where "ErrNotEd25519Key = ErrNew ''ed25519: pubkey is not Ed25519''"
definition ErrInvalidSignature :: err where "ErrInvalidSignature = ErrNew ''ed25519: invalid signature''"

definition BatchVerifier_Add :: "BatchVerifier \<Rightarrow> PubKey option \<Rightarrow> bytes \<Rightarrow> bytes \<Rightarrow> BatchVerifier outcome" where
  "BatchVerifier_Add bv key msg sig =
     (case key of
        Some (Ed25519 b) \<Rightarrow>
          if length b \<noteq> ed25519_PubKeySize then Err (ErrInvalidKeyLen (length b) ed25519_PubKeySize)
          else if length sig \<noteq> ed25519_SignatureSize then Err ErrInvalidSignature
          else Ok (bv @ [(b, msg, sig)])
      | _ \<Rightarrow> Err ErrNotEd25519Key)"

definition BatchVerifier_Verify :: "'a key_prims_scheme \<Rightarrow> BatchVerifier \<Rightarrow> bool \<times> bool list" where
  "BatchVerifier_Verify env bv = pr_ed_batch env bv"

text \<open>
  The documented contract of the batch equation on a batch that is not empty: it reports the status
  of each entry and whether all are valid, as single verification does.
\<close>

definition batch_exact :: "'a key_prims_scheme \<Rightarrow> bool" where
  "batch_exact env \<longleftrightarrow>
     (\<forall>bv. bv \<noteq> [] \<longrightarrow>
        pr_ed_batch env bv =
          (list_all (\<lambda>(k, m, s). pr_ed_verify env k m s) bv, map (\<lambda>(k, m, s). pr_ed_verify env k m s) bv))"

section \<open>Conversions are inverse\<close>

lemma ed25519_type_neq [simp]: "secp256k1_KeyType \<noteq> ed25519_KeyType" "ed25519_KeyType \<noteq> secp256k1_KeyType"
  by (simp_all add: key_types)

lemma PubKeyFromTypeAndBytes_eq:
  "wf_key k \<Longrightarrow> PubKeyFromTypeAndBytes (PubKey_Type k) (PubKey_Bytes k) = Ok k"
  by (cases k) (simp_all add: PubKeyFromTypeAndBytes_def)

lemma PubKeyFromTypeAndBytes_Ok:
  "PubKeyFromTypeAndBytes t b = Ok k \<longleftrightarrow> wf_key k \<and> t = PubKey_Type k \<and> b = PubKey_Bytes k"
  by (cases k) (auto simp: PubKeyFromTypeAndBytes_def)

lemma PubKeyFromTypeAndBytes_no_panic [simp]: "PubKeyFromTypeAndBytes t b \<noteq> Panic s"
  by (simp add: PubKeyFromTypeAndBytes_def)

lemma PubKeyFromProto_ToProto:
  "wf_key k \<Longrightarrow> bindo (PubKeyToProto (Some k)) PubKeyFromProto = Ok k"
  by (cases k) (simp_all add: PubKeyToProto_def)

lemma PubKeyFromProto_wf: "PubKeyFromProto p = Ok k \<Longrightarrow> wf_key k \<and> PubKeyToProto (Some k) = Ok p"
  by (cases p) (auto simp: PubKeyToProto_def split: if_splits)

lemma IsSupported_Type [simp]: "IsSupported (PubKey_Type k)"
  by (cases k) (simp_all add: IsSupported_def)

section \<open>Derived private keys are valid scalars\<close>

lemma SetBytes_append: "SetBytes (a @ b) = SetBytes a * 256 ^ length b + SetBytes b"
proof (induction b rule: rev_induct)
  case (snoc x b) then show ?case by (simp add: SetBytes_def algebra_simps)
qed (simp add: SetBytes_def)

lemma SetBytes_zeros [simp]: "SetBytes (replicate n 0) = 0"
proof (induction n)
  case (Suc n)
  have "SetBytes (replicate (Suc n) 0) = SetBytes ([0] @ replicate n 0)" by simp
  then show ?case unfolding SetBytes_append using Suc by (simp add: SetBytes_def)
qed (simp add: SetBytes_def)

lemma SetBytes_big_Bytes: "0 \<le> n \<Longrightarrow> SetBytes (big_Bytes n) = n"
proof (induction n rule: big_Bytes.induct)
  case (1 n)
  show ?case
  proof (cases "n \<le> 0")
    case True
    then have "n = 0" using 1 by simp
    then show ?thesis by (simp add: big_Bytes.simps [of 0] SetBytes_def)
  next
    case False
    have "uint (of_int (n mod 256) :: byte) = n mod 256"
      by (simp add: unsigned_of_int take_bit_eq_mod)
    moreover have "0 \<le> n div 256" using False by simp
    ultimately show ?thesis using 1 False
      by (simp add: big_Bytes.simps [of n] SetBytes_append) (simp add: SetBytes_def)
  qed
qed

lemma length_big_Bytes: "n < 256 ^ k \<Longrightarrow> length (big_Bytes n) \<le> k"
proof (induction n arbitrary: k rule: big_Bytes.induct)
  case (1 n)
  show ?case
  proof (cases "n \<le> 0")
    case True then show ?thesis by (simp add: big_Bytes.simps [of n])
  next
    case False
    with 1(2) obtain j where k: "k = Suc j" by (cases k) auto
    have "n div 256 < 256 ^ j" using 1(2) k by (simp add: div_less_iff_less_mult mult.commute)
    then show ?thesis using 1(1) False k by (simp add: big_Bytes.simps [of n])
  qed
qed

lemma SetBytes_nonneg: "0 \<le> SetBytes b"
proof (induction b rule: rev_induct)
  case (snoc x b) then show ?case by (simp add: SetBytes_append) (simp add: SetBytes_def)
qed (simp add: SetBytes_def)

text \<open>C25. A secp256k1 private key derived from a secret is 32 bytes long and, read as a big-endian number, a
  scalar between 1 and the order of the curve minus one, whatever the digest of the secret is; the
  derivation never panics. A key drawn at random is a block of the random source with that range.\<close>

theorem secp256k1_privkey_valid:
  assumes N: "1 < N" "N \<le> 256 ^ 32"
  shows "(\<exists>k. GenPrivKeySecp256k1 env N secret = Ok k \<and> length k = secp256k1_PrivKeySize \<and>
           1 \<le> SetBytes k \<and> SetBytes k < N) \<and>
    (\<forall>k. secp256k1_genPrivKey N blocks = Ok k \<longrightarrow> k \<in> set blocks \<and> 1 \<le> SetBytes k \<and> SetBytes k < N)"
proof
  define fe where "fe = SetBytes (pr_sha env secret) mod (N - 1) + 1"
  have "0 < N - 1" using N by simp
  then have "0 \<le> SetBytes (pr_sha env secret) mod (N - 1)" "SetBytes (pr_sha env secret) mod (N - 1) < N - 1"
    by (rule pos_mod_sign, rule pos_mod_bound)
  then have fe: "1 \<le> fe" "fe < N" unfolding fe_def by linarith+
  have len: "length (big_Bytes fe) \<le> 32" using fe N by (intro length_big_Bytes) simp
  have "GenPrivKeySecp256k1 env N secret = Ok (replicate (32 - length (big_Bytes fe)) 0 @ big_Bytes fe)"
    using len by (simp add: GenPrivKeySecp256k1_def fe_def [symmetric] Let_def)
  then show "\<exists>k. GenPrivKeySecp256k1 env N secret = Ok k \<and> length k = secp256k1_PrivKeySize \<and>
           1 \<le> SetBytes k \<and> SetBytes k < N"
    using len fe by (simp add: SetBytes_append SetBytes_big_Bytes key_sizes)
next
  show "\<forall>k. secp256k1_genPrivKey N blocks = Ok k \<longrightarrow> k \<in> set blocks \<and> 1 \<le> SetBytes k \<and> SetBytes k < N"
    by (induction blocks) (auto simp: Let_def sgn_if split: if_splits)
qed

definition toy_prims :: key_prims where
  "toy_prims = \<lparr>pr_sha = (\<lambda>b. take 32 (b @ replicate 32 0)), pr_ripemd = take 20,
     pr_ed_verify = (\<lambda>k m s. s = take 64 (m @ k @ replicate 64 0)),
     pr_ed_batch = (\<lambda>bv. (list_all (\<lambda>(k, m, s). s = take 64 (m @ k @ replicate 64 0)) bv,
                          map (\<lambda>(k, m, s). s = take 64 (m @ k @ replicate 64 0)) bv)),
     pr_secp_parse = (\<lambda>_. True), pr_secp_low_s = (\<lambda>_. True), pr_secp_verify = (\<lambda>k m s. s = k @ m)\<rparr>"

lemma batch_exact_toy: "batch_exact toy_prims"
  by (simp add: batch_exact_def toy_prims_def)

theorem secp256k1_privkey_valid_witness:
  "\<exists>k. GenPrivKeySecp256k1 toy_prims 7 [9, 9] = Ok k \<and> length k = 32 \<and> 1 \<le> SetBytes k \<and> SetBytes k < 7"
  using secp256k1_privkey_valid [of 7 toy_prims "[9, 9]" "[]"] by (simp add: key_sizes)

end
