(* ===== verification/Block_Types.thy ===== *)
theory Block_Types
  imports Part_Set Keys
begin

text \<open>
  The data that consensus signs and gossips: block identifiers, votes, proposals, commit signatures
  and commits, from \<^verbatim>\<open>types/block.go\<close>, \<^verbatim>\<open>types/vote.go\<close>,
  \<^verbatim>\<open>types/proposal.go\<close>, \<^verbatim>\<open>types/canonical.go\<close> and
  \<^verbatim>\<open>types/signed_msg_type.go\<close>, with their validation and their conversion to and
  from the generated protobuf types. A generated type with the same fields as the domain type is
  represented by the domain record; where the field types differ (the commit flag) it has its own
  record. The theory shows which values pass validation, that the protobuf conversions are inverse
  to each other on valid values, and what the canonical sign bytes bind.
\<close>

section \<open>Time\<close>

text \<open>
  \<^verbatim>\<open>time.Time\<close>: nanoseconds since the zero time, the location (empty for UTC) and the
  monotonic reading, which \<^verbatim>\<open>==\<close> compares and \<^verbatim>\<open>Canonical\<close> strips.
\<close>

record gotime =
  tmNs :: int
  tmLoc :: string
  tmMono :: "int option"

definition zero_time :: gotime where
  "zero_time = \<lparr>tmNs = 0, tmLoc = [], tmMono = None\<rparr>"

definition Time_IsZero :: "gotime \<Rightarrow> bool" where
  "Time_IsZero t \<longleftrightarrow> tmNs t = 0"

definition Canonical :: "gotime \<Rightarrow> gotime" where
  "Canonical t = t\<lparr>tmLoc := [], tmMono := None\<rparr>"

section \<open>Message types\<close>

type_synonym SignedMsgType = int

definition UnknownType :: SignedMsgType where "UnknownType = 0"
definition PrevoteType :: SignedMsgType where "PrevoteType = 1"
definition PrecommitType :: SignedMsgType where "PrecommitType = 2"
definition ProposalType :: SignedMsgType where "ProposalType = 32"

definition IsVoteTypeValid :: "SignedMsgType \<Rightarrow> bool" where
  "IsVoteTypeValid t \<longleftrightarrow> t = PrevoteType \<or> t = PrecommitType"

definition SignedMsgTypeToShortString :: "SignedMsgType \<Rightarrow> string" where
  "SignedMsgTypeToShortString t =
     (if t = UnknownType then ''unknown'' else if t = PrevoteType then ''prevote''
      else if t = PrecommitType then ''precommit'' else if t = ProposalType then ''proposal''
      else ''unknown'')"

lemmas msg_types = UnknownType_def PrevoteType_def PrecommitType_def ProposalType_def

definition AddressSize :: nat where "AddressSize = 20"

text \<open>The larger of the Ed25519 (64) and BLS12-381 (96) signature lengths.\<close>

definition MaxSignatureSize :: nat where "MaxSignatureSize = max 64 96"

definition MaxVoteExtensionSize :: int where "MaxVoteExtensionSize = 1024 * 1024"

section \<open>BlockID\<close>

record BlockID =
  bidHash :: bytes
  bidPSH :: PartSetHeader

definition nil_PartSetHeader :: PartSetHeader where
  "nil_PartSetHeader = \<lparr>phTotal = 0, phHash = []\<rparr>"

definition nil_BlockID :: BlockID where
  "nil_BlockID = \<lparr>bidHash = [], bidPSH = nil_PartSetHeader\<rparr>"

definition BlockID_Equals :: "BlockID \<Rightarrow> BlockID \<Rightarrow> bool" where
  "BlockID_Equals b other \<longleftrightarrow> bidHash b = bidHash other \<and> PartSetHeader_Equals (bidPSH b) (bidPSH other)"

text \<open>
  The key under which vote sets file a block: the hash followed by the marshalled part-set header.
  The generated \<^verbatim>\<open>Marshal\<close> is the parameter \<open>mar\<close>.
\<close>

definition BlockID_Key :: "(PartSetHeader \<Rightarrow> bytes outcome) \<Rightarrow> BlockID \<Rightarrow> bytes outcome" where
  "BlockID_Key mar b =
     (case mar (PartSetHeader_ToProto (Some (bidPSH b))) of
        Ok bz \<Rightarrow> Ok (bidHash b @ bz)
      | Err _ \<Rightarrow> Panic ''marshal''
      | Panic s \<Rightarrow> Panic s)"

definition BlockID_ValidateBasic :: "BlockID \<Rightarrow> unit outcome" where
  "BlockID_ValidateBasic b =
     (case ValidateHash (bidHash b) of
        Err _ \<Rightarrow> Err (ErrNew ''wrong Hash'')
      | Panic s \<Rightarrow> Panic s
      | Ok _ \<Rightarrow>
          (case PartSetHeader_ValidateBasic (bidPSH b) of
             Err e \<Rightarrow> Err (ErrWrap ''wrong PartSetHeader'' e)
           | r \<Rightarrow> r))"

definition BlockID_IsNil :: "BlockID \<Rightarrow> bool" where
  "BlockID_IsNil b \<longleftrightarrow> length (bidHash b) = 0 \<and> PartSetHeader_IsZero (bidPSH b)"

definition BlockID_IsComplete :: "BlockID \<Rightarrow> bool" where
  "BlockID_IsComplete b \<longleftrightarrow>
     length (bidHash b) = tmhash_Size \<and> phTotal (bidPSH b) > 0 \<and> length (phHash (bidPSH b)) = tmhash_Size"

definition BlockID_ToProto :: "BlockID option \<Rightarrow> BlockID" where
  "BlockID_ToProto b =
     (case b of None \<Rightarrow> nil_BlockID
      | Some x \<Rightarrow> \<lparr>bidHash = bidHash x, bidPSH = PartSetHeader_ToProto (Some (bidPSH x))\<rparr>)"

definition BlockIDFromProto :: "BlockID option \<Rightarrow> BlockID outcome" where
  "BlockIDFromProto bID =
     (case bID of None \<Rightarrow> Err (ErrNew ''nil BlockID'')
      | Some p \<Rightarrow>
          bindo (PartSetHeaderFromProto (Some (bidPSH p))) (\<lambda>ph.
            let b = \<lparr>bidHash = bidHash p, bidPSH = ph\<rparr>
            in bindo (BlockID_ValidateBasic b) (\<lambda>_. Ok b)))"

definition ProtoBlockIDIsNil :: "BlockID \<Rightarrow> bool" where
  "ProtoBlockIDIsNil b \<longleftrightarrow> length (bidHash b) = 0 \<and> ProtoPartSetHeaderIsZero (bidPSH b)"

section \<open>Votes\<close>

record Vote =
  vType :: SignedMsgType
  vHeight :: int
  vRound :: int
  vBlockID :: BlockID
  vTimestamp :: gotime
  vValAddr :: bytes
  vValIndex :: int
  vSignature :: bytes
  vExtension :: bytes
  vExtSig :: bytes

definition ErrVoteNoSignature :: err where "ErrVoteNoSignature = ErrNew ''no signature''"
definition ErrVoteExtensionAbsent :: err where "ErrVoteExtensionAbsent = ErrNew ''vote extension absent''"
definition ErrVoteInvalidValidatorAddress :: err where
  "ErrVoteInvalidValidatorAddress = ErrNew ''invalid validator address''"
definition ErrVoteInvalidSignature :: err where "ErrVoteInvalidSignature = ErrNew ''invalid signature''"

definition VoteFromProto :: "Vote option \<Rightarrow> Vote outcome" where
  "VoteFromProto pv =
     (case pv of None \<Rightarrow> Panic nil_deref
      | Some p \<Rightarrow>
          bindo (BlockIDFromProto (Some (vBlockID p))) (\<lambda>blockID.
          Ok \<lparr>vType = vType p, vHeight = vHeight p, vRound = vRound p, vBlockID = blockID,
              vTimestamp = vTimestamp p, vValAddr = vValAddr p, vValIndex = vValIndex p,
              vSignature = vSignature p, vExtension = vExtension p, vExtSig = vExtSig p\<rparr>))"

definition Vote_ToProto :: "Vote option \<Rightarrow> Vote option" where
  "Vote_ToProto vote =
     (case vote of None \<Rightarrow> None
      | Some v \<Rightarrow> Some
          \<lparr>vType = vType v, vHeight = vHeight v, vRound = vRound v,
           vBlockID = BlockID_ToProto (Some (vBlockID v)),
           vTimestamp = vTimestamp v, vValAddr = vValAddr v, vValIndex = vValIndex v,
           vSignature = vSignature v, vExtension = vExtension v, vExtSig = vExtSig v\<rparr>)"

definition VotesToProto :: "Vote option list \<Rightarrow> Vote list" where
  "VotesToProto votes = List.map_filter Vote_ToProto votes"

definition Vote_ValidateBasic :: "Vote \<Rightarrow> unit outcome" where
  "Vote_ValidateBasic v =
     (if \<not> IsVoteTypeValid (vType v) then Err (ErrNew ''invalid Type'')
      else if vHeight v \<le> 0 then Err (ErrNew ''negative or zero Height'')
      else if vRound v < 0 then Err (ErrNew ''negative Round'')
      else case BlockID_ValidateBasic (vBlockID v) of
        Err e \<Rightarrow> Err (ErrWrap ''wrong BlockID'' e)
      | Panic s \<Rightarrow> Panic s
      | Ok _ \<Rightarrow>
          if \<not> BlockID_IsNil (vBlockID v) \<and> \<not> BlockID_IsComplete (vBlockID v)
            then Err (ErrNew ''blockID must be either empty or complete'')
          else if length (vValAddr v) \<noteq> AddressSize
            then Err (ErrFmt ''expected ValidatorAddress size to be bytes, got bytes'' [int AddressSize, int (length (vValAddr v))])
          else if vValIndex v < 0 then Err (ErrNew ''negative ValidatorIndex'')
          else if length (vSignature v) = 0 then Err (ErrNew ''signature is missing'')
          else if length (vSignature v) > MaxSignatureSize
            then Err (ErrFmt ''signature is too big'' [int MaxSignatureSize])
          else if (vType v \<noteq> PrecommitType \<or> BlockID_IsNil (vBlockID v)) \<and> length (vExtension v) > 0
            then Err (ErrFmt ''unexpected vote extension'' [vType v])
          else if (vType v \<noteq> PrecommitType \<or> BlockID_IsNil (vBlockID v)) \<and> length (vExtSig v) > 0
            then Err (ErrNew ''unexpected vote extension signature'')
          else if vType v = PrecommitType \<and> \<not> BlockID_IsNil (vBlockID v) \<and> length (vExtSig v) > MaxSignatureSize
            then Err (ErrFmt ''vote extension signature is too big'' [int MaxSignatureSize])
          else if vType v = PrecommitType \<and> \<not> BlockID_IsNil (vBlockID v) \<and>
                  length (vExtSig v) = 0 \<and> length (vExtension v) \<noteq> 0
            then Err ErrVoteNoSignature
          else Ok ())"

definition Vote_EnsureExtension :: "Vote \<Rightarrow> unit outcome" where
  "Vote_EnsureExtension v =
     (if vType v \<noteq> PrecommitType then Ok ()
      else if BlockID_IsNil (vBlockID v) then Ok ()
      else if length (vExtSig v) > 0 then Ok ()
      else Err ErrVoteExtensionAbsent)"

subsection \<open>Canonical forms and signatures\<close>

record CanonicalVote =
  cvType :: SignedMsgType
  cvHeight :: int
  cvRound :: int
  cvBlockID :: "BlockID option"
  cvTimestamp :: gotime
  cvChainID :: string

record CanonicalVoteExtension =
  cxExtension :: bytes
  cxHeight :: int
  cxRound :: int
  cxChainID :: string

definition CanonicalizeBlockID :: "BlockID \<Rightarrow> BlockID option outcome" where
  "CanonicalizeBlockID bid =
     (case BlockIDFromProto (Some bid) of
        Err _ \<Rightarrow> Panic ''CanonicalizeBlockID''
      | Panic s \<Rightarrow> Panic s
      | Ok rbid \<Rightarrow>
          if BlockID_IsNil rbid then Ok None
          else Ok (Some \<lparr>bidHash = bidHash bid, bidPSH = bidPSH bid\<rparr>))"

definition CanonicalizeVote :: "string \<Rightarrow> Vote \<Rightarrow> CanonicalVote outcome" where
  "CanonicalizeVote chainID v =
     bindo (CanonicalizeBlockID (vBlockID v)) (\<lambda>cb.
     Ok \<lparr>cvType = vType v, cvHeight = vHeight v, cvRound = vRound v, cvBlockID = cb,
         cvTimestamp = vTimestamp v, cvChainID = chainID\<rparr>)"

definition CanonicalizeVoteExtension :: "string \<Rightarrow> Vote \<Rightarrow> CanonicalVoteExtension" where
  "CanonicalizeVoteExtension chainID v =
     \<lparr>cxExtension = vExtension v, cxHeight = vHeight v, cxRound = vRound v, cxChainID = chainID\<rparr>"

text \<open>
  The delimited protobuf encoders are generated code: a \<open>crypto_env\<close> adds the encoders of the canonical
  messages to the primitives of the keys.
\<close>

record crypto_env = key_prims +
  enc_vote :: "CanonicalVote \<Rightarrow> bytes outcome"
  enc_ext :: "CanonicalVoteExtension \<Rightarrow> bytes outcome"

definition must :: "'a outcome \<Rightarrow> 'a outcome" where
  "must r = (case r of Err _ \<Rightarrow> Panic ''error'' | x \<Rightarrow> x)"

definition VoteSignBytes :: "'a crypto_env_scheme \<Rightarrow> string \<Rightarrow> Vote \<Rightarrow> bytes outcome" where
  "VoteSignBytes env chainID v = bindo (CanonicalizeVote chainID v) (\<lambda>pb. must (enc_vote env pb))"

definition VoteExtensionSignBytes :: "'a crypto_env_scheme \<Rightarrow> string \<Rightarrow> Vote \<Rightarrow> bytes outcome" where
  "VoteExtensionSignBytes env chainID v = must (enc_ext env (CanonicalizeVoteExtension chainID v))"

definition Vote_verifyAndReturnProto :: "'a crypto_env_scheme \<Rightarrow> string \<Rightarrow> Vote \<Rightarrow> PubKey \<Rightarrow> Vote outcome" where
  "Vote_verifyAndReturnProto env chainID vote pubKey =
     bindo (PubKey_Address env pubKey) (\<lambda>addr.
     if addr \<noteq> vValAddr vote then Err ErrVoteInvalidValidatorAddress
     else case Vote_ToProto (Some vote) of
        None \<Rightarrow> Panic nil_deref
      | Some v \<Rightarrow>
          bindo (VoteSignBytes env chainID v) (\<lambda>sb.
          if \<not> PubKey_VerifySignature env pubKey sb (vSignature vote) then Err ErrVoteInvalidSignature else Ok v))"

definition Vote_Verify :: "'a crypto_env_scheme \<Rightarrow> string \<Rightarrow> Vote \<Rightarrow> PubKey \<Rightarrow> unit outcome" where
  "Vote_Verify env chainID vote pubKey =
     bindo (Vote_verifyAndReturnProto env chainID vote pubKey) (\<lambda>_. Ok ())"

definition Vote_VerifyVoteAndExtension :: "'a crypto_env_scheme \<Rightarrow> string \<Rightarrow> Vote \<Rightarrow> PubKey \<Rightarrow> unit outcome" where
  "Vote_VerifyVoteAndExtension env chainID vote pubKey =
     bindo (Vote_verifyAndReturnProto env chainID vote pubKey) (\<lambda>v.
     if vType vote = PrecommitType \<and> \<not> ProtoBlockIDIsNil (vBlockID v) then
       (if length (vExtSig vote) = 0 then Err ErrVoteNoSignature
        else bindo (VoteExtensionSignBytes env chainID v) (\<lambda>sb.
          if \<not> PubKey_VerifySignature env pubKey sb (vExtSig vote) then Err ErrVoteInvalidSignature else Ok ()))
     else Ok ())"

definition Vote_VerifyExtension :: "'a crypto_env_scheme \<Rightarrow> string \<Rightarrow> Vote \<Rightarrow> PubKey \<Rightarrow> unit outcome" where
  "Vote_VerifyExtension env chainID vote pubKey =
     (if vType vote \<noteq> PrecommitType \<or> BlockID_IsNil (vBlockID vote) then Ok ()
      else case Vote_ToProto (Some vote) of
        None \<Rightarrow> Panic nil_deref
      | Some v \<Rightarrow>
          bindo (VoteExtensionSignBytes env chainID v) (\<lambda>sb.
          if length (vExtSig vote) = 0 then Err ErrVoteNoSignature
          else if \<not> PubKey_VerifySignature env pubKey sb (vExtSig vote) then Err ErrVoteInvalidSignature
          else Ok ()))"

section \<open>Proposals\<close>

record Proposal =
  prType :: SignedMsgType
  prHeight :: int
  prRound :: int
  prPOLRound :: int
  prBlockID :: BlockID
  prTimestamp :: gotime
  prSignature :: bytes

definition NewProposal :: "int \<Rightarrow> int \<Rightarrow> int \<Rightarrow> BlockID \<Rightarrow> gotime \<Rightarrow> Proposal" where
  "NewProposal height round polRound blockID ts =
     \<lparr>prType = ProposalType, prHeight = height, prRound = round, prPOLRound = polRound,
      prBlockID = blockID, prTimestamp = Canonical ts, prSignature = []\<rparr>"

definition Proposal_ValidateBasic :: "Proposal \<Rightarrow> unit outcome" where
  "Proposal_ValidateBasic p =
     (if prType p \<noteq> ProposalType then Err (ErrNew ''invalid Type'')
      else if prHeight p \<le> 0 then Err (ErrNew ''non positive Height'')
      else if prRound p < 0 then Err (ErrNew ''negative Round'')
      else if prPOLRound p < -1 then Err (ErrNew ''negative POLRound (exception: -1)'')
      else if prPOLRound p \<ge> prRound p then Err (ErrNew ''POLRound >= Round'')
      else case BlockID_ValidateBasic (prBlockID p) of
        Err e \<Rightarrow> Err (ErrWrap ''wrong BlockID'' e)
      | Panic s \<Rightarrow> Panic s
      | Ok _ \<Rightarrow>
          if \<not> BlockID_IsComplete (prBlockID p) then Err (ErrNew ''expected a complete, non-empty BlockID'')
          else if Canonical (prTimestamp p) \<noteq> prTimestamp p then Err (ErrNew ''expected a canonical timestamp'')
          else if length (prSignature p) = 0 then Err (ErrNew ''signature is missing'')
          else if length (prSignature p) > MaxSignatureSize
            then Err (ErrFmt ''signature is too big'' [int MaxSignatureSize])
          else Ok ())"

text \<open>
  \<^verbatim>\<open>Time.Add\<close> keeps the instant within the range of 64-bit seconds; durations are
  \<^verbatim>\<open>int64\<close> nanoseconds, negated with wrap-around.
\<close>

definition Proposal_IsTimely :: "Proposal \<Rightarrow> gotime \<Rightarrow> int \<Rightarrow> int \<Rightarrow> bool" where
  "Proposal_IsTimely p recvTime precision messageDelay =
     (let lhs = tmNs (prTimestamp p) + wrap64 (- precision);
          rhs = tmNs (prTimestamp p) + messageDelay + precision
      in \<not> (tmNs recvTime < lhs \<or> tmNs recvTime > rhs))"

definition Proposal_ToProto :: "Proposal option \<Rightarrow> Proposal" where
  "Proposal_ToProto p =
     (case p of
        None \<Rightarrow> \<lparr>prType = UnknownType, prHeight = 0, prRound = 0, prPOLRound = 0, prBlockID = nil_BlockID,
                 prTimestamp = zero_time, prSignature = []\<rparr>
      | Some q \<Rightarrow> \<lparr>prType = prType q, prHeight = prHeight q, prRound = prRound q, prPOLRound = prPOLRound q,
                   prBlockID = BlockID_ToProto (Some (prBlockID q)), prTimestamp = prTimestamp q,
                   prSignature = prSignature q\<rparr>)"

definition ProposalFromProto :: "Proposal option \<Rightarrow> Proposal outcome" where
  "ProposalFromProto pp =
     (case pp of None \<Rightarrow> Err (ErrNew ''nil proposal'')
      | Some q \<Rightarrow>
          bindo (BlockIDFromProto (Some (prBlockID q))) (\<lambda>blockID.
            let p = \<lparr>prType = prType q, prHeight = prHeight q, prRound = prRound q, prPOLRound = prPOLRound q,
                     prBlockID = blockID, prTimestamp = prTimestamp q, prSignature = prSignature q\<rparr>
            in bindo (Proposal_ValidateBasic p) (\<lambda>_. Ok p)))"

record CanonicalProposal =
  cpType :: SignedMsgType
  cpHeight :: int
  cpRound :: int
  cpPOLRound :: int
  cpBlockID :: "BlockID option"
  cpTimestamp :: gotime
  cpChainID :: string

definition CanonicalizeProposal :: "string \<Rightarrow> Proposal \<Rightarrow> CanonicalProposal outcome" where
  "CanonicalizeProposal chainID p =
     bindo (CanonicalizeBlockID (prBlockID p)) (\<lambda>cb.
     Ok \<lparr>cpType = ProposalType, cpHeight = prHeight p, cpRound = prRound p, cpPOLRound = prPOLRound p,
         cpBlockID = cb, cpTimestamp = prTimestamp p, cpChainID = chainID\<rparr>)"

section \<open>Validation and round trips\<close>

lemma ValidateHash_Ok [simp]: "ValidateHash h = Ok () \<longleftrightarrow> h = [] \<or> length h = tmhash_Size"
  by (auto simp: ValidateHash_def)

lemma ValidateHash_no_panic [simp]: "ValidateHash h \<noteq> Panic s"
  by (simp add: ValidateHash_def)

lemma PartSetHeader_ValidateBasic_Ok [simp]:
  "PartSetHeader_ValidateBasic p = Ok () \<longleftrightarrow> phHash p = [] \<or> length (phHash p) = tmhash_Size"
  by (auto simp: PartSetHeader_ValidateBasic_def ValidateHash_def)

lemma BlockID_ValidateBasic_Ok:
  "BlockID_ValidateBasic b = Ok () \<longleftrightarrow>
     (bidHash b = [] \<or> length (bidHash b) = tmhash_Size) \<and>
     (phHash (bidPSH b) = [] \<or> length (phHash (bidPSH b)) = tmhash_Size)"
  by (auto simp: BlockID_ValidateBasic_def PartSetHeader_ValidateBasic_def ValidateHash_def)

lemma BlockID_ValidateBasic_no_panic [simp]: "BlockID_ValidateBasic b \<noteq> Panic s"
  by (simp add: BlockID_ValidateBasic_def PartSetHeader_ValidateBasic_def ValidateHash_def)

lemma PartSetHeader_ToProto_id [simp]: "PartSetHeader_ToProto (Some p) = p"
  by (simp add: PartSetHeader_ToProto_def)

lemma BlockID_ToProto_id [simp]: "BlockID_ToProto (Some b) = b"
  by (simp add: BlockID_ToProto_def)

lemma PartSetHeaderFromProto_Ok:
  "PartSetHeaderFromProto (Some p) = Ok q \<longleftrightarrow> q = p \<and> PartSetHeader_ValidateBasic p = Ok ()"
  by (cases p) (auto simp: PartSetHeaderFromProto_def bindo_Ok_iff Let_def simp del: PartSetHeader_ValidateBasic_Ok)

lemma BlockIDFromProto_Ok:
  "BlockIDFromProto (Some p) = Ok b \<longleftrightarrow> b = p \<and> BlockID_ValidateBasic p = Ok ()"
  by (cases p) (auto simp: BlockIDFromProto_def bindo_Ok_iff Let_def PartSetHeaderFromProto_Ok BlockID_ValidateBasic_Ok)

lemma BlockIDFromProto_ToProto:
  "BlockID_ValidateBasic b = Ok () \<Longrightarrow> BlockIDFromProto (Some (BlockID_ToProto (Some b))) = Ok b"
  by (simp add: BlockIDFromProto_Ok)

lemma BlockIDFromProto_no_panic: "BlockIDFromProto (Some p) \<noteq> Panic s"
  by (auto simp: BlockIDFromProto_def PartSetHeaderFromProto_def PartSetHeader_ValidateBasic_def ValidateHash_def
      BlockID_ValidateBasic_def Let_def)

lemma BlockID_nil_eq: "BlockID_IsNil b \<longleftrightarrow> b = nil_BlockID"
proof
  assume "BlockID_IsNil b"
  then show "b = nil_BlockID"
    by (cases b; cases "bidPSH b") (simp add: BlockID_IsNil_def PartSetHeader_IsZero_def nil_BlockID_def nil_PartSetHeader_def)
qed (simp add: BlockID_IsNil_def PartSetHeader_IsZero_def nil_BlockID_def nil_PartSetHeader_def)

lemma BlockID_complete_not_nil: "BlockID_IsComplete b \<Longrightarrow> \<not> BlockID_IsNil b"
  by (auto simp: BlockID_IsComplete_def BlockID_IsNil_def tmhash_Size_def)

lemma BlockID_Equals_eq: "BlockID_Equals a b \<longleftrightarrow> a = b"
  by (cases a; cases b; cases "bidPSH a"; cases "bidPSH b") (auto simp: BlockID_Equals_def PartSetHeader_Equals_def)

lemma Vote_ValidateBasic_BlockID:
  "Vote_ValidateBasic v = Ok () \<Longrightarrow> BlockID_ValidateBasic (vBlockID v) = Ok ()"
  by (auto simp: Vote_ValidateBasic_def split: if_splits outcome.splits)

lemma Proposal_ValidateBasic_BlockID:
  "Proposal_ValidateBasic p = Ok () \<Longrightarrow> BlockID_ValidateBasic (prBlockID p) = Ok ()"
  by (auto simp: Proposal_ValidateBasic_def split: if_splits outcome.splits)

lemma Vote_ToProto_id [simp]: "Vote_ToProto (Some v) = Some v"
  by (simp add: Vote_ToProto_def)

lemma VoteFromProto_Ok:
  "VoteFromProto (Some p) = Ok v \<longleftrightarrow> v = p \<and> BlockID_ValidateBasic (vBlockID p) = Ok ()"
  by (cases p) (auto simp: VoteFromProto_def bindo_Ok_iff BlockIDFromProto_Ok)

lemma ProposalFromProto_Ok:
  "ProposalFromProto (Some p) = Ok q \<longleftrightarrow> q = p \<and> Proposal_ValidateBasic p = Ok ()"
  using Proposal_ValidateBasic_BlockID [of p]
  by (cases p) (auto simp: ProposalFromProto_def bindo_Ok_iff Let_def BlockIDFromProto_Ok)

lemma CanonicalizeBlockID_Ok:
  "CanonicalizeBlockID b = Ok c \<longleftrightarrow>
     BlockID_ValidateBasic b = Ok () \<and> c = (if b = nil_BlockID then None else Some b)"
proof (cases "BlockID_ValidateBasic b = Ok ()")
  case True
  then have "BlockIDFromProto (Some b) = Ok b" by (simp add: BlockIDFromProto_Ok)
  then show ?thesis using True by (auto simp: CanonicalizeBlockID_def BlockID_nil_eq)
next
  case False
  then have "BlockIDFromProto (Some b) \<noteq> Ok x" for x by (simp add: BlockIDFromProto_Ok)
  then show ?thesis using False by (auto simp: CanonicalizeBlockID_def split: outcome.splits)
qed

subsection \<open>What the sign bytes bind\<close>

text \<open>
  A prefix-free encoding of canonical votes, used to show that the contract assumed of the generated
  encoder below can be met. Like the protobuf encoding it drops the location and the monotonic
  reading of the timestamp.
\<close>

definition nat_code :: "nat \<Rightarrow> bytes" where
  "nat_code n = replicate n 1 @ [0]"

definition int_code :: "int \<Rightarrow> bytes" where
  "int_code i = (if i < 0 then [1] else [0]) @ nat_code (nat \<bar>i\<bar>)"

definition bytes_code :: "bytes \<Rightarrow> bytes" where
  "bytes_code b = nat_code (length b) @ b"

definition string_code :: "string \<Rightarrow> bytes" where
  "string_code s = nat_code (length s) @ concat (map (\<lambda>c. nat_code (of_char c)) s)"

definition blockID_code :: "BlockID option \<Rightarrow> bytes" where
  "blockID_code b = (case b of None \<Rightarrow> [0]
     | Some x \<Rightarrow> [1] @ bytes_code (bidHash x) @ nat_code (unat (phTotal (bidPSH x))) @ bytes_code (phHash (bidPSH x)))"

definition vote_code :: "CanonicalVote \<Rightarrow> bytes" where
  "vote_code v = int_code (cvType v) @ int_code (cvHeight v) @ int_code (cvRound v) @ blockID_code (cvBlockID v) @
     int_code (tmNs (cvTimestamp v)) @ string_code (cvChainID v)"

lemma nat_code_inj [simp]: "nat_code m @ r = nat_code n @ s \<longleftrightarrow> m = n \<and> r = s"
proof (induction m arbitrary: n)
  case 0 then show ?case by (cases n) (auto simp: nat_code_def)
next
  case (Suc m) then show ?case by (cases n) (auto simp: nat_code_def)
qed

lemma int_code_inj [simp]: "int_code i @ r = int_code j @ s \<longleftrightarrow> i = j \<and> r = s"
  by (auto simp: int_code_def)

lemma bytes_code_inj [simp]: "bytes_code a @ r = bytes_code b @ s \<longleftrightarrow> a = b \<and> r = s"
  by (auto simp: bytes_code_def)

lemma chars_code_inj:
  "length a = length b \<Longrightarrow>
   concat (map (\<lambda>c. nat_code (of_char c)) a) @ r = concat (map (\<lambda>c. nat_code (of_char c)) b) @ s \<longleftrightarrow> a = b \<and> r = s"
  by (induction a b rule: list_induct2) auto

lemma string_code_inj [simp]: "string_code a = string_code b \<longleftrightarrow> a = b"
  using chars_code_inj [of a b "[]" "[]"] by (auto simp: string_code_def)

lemma blockID_code_inj [simp]: "blockID_code a @ r = blockID_code b @ s \<longleftrightarrow> a = b \<and> r = s"
proof (cases a; cases b)
  fix x y assume "a = Some x" "b = Some y"
  then show ?thesis
    by (cases x; cases y; cases "bidPSH x"; cases "bidPSH y") (auto simp: blockID_code_def word_unat_eq_iff)
qed (auto simp: blockID_code_def)

text \<open>C17. Suppose the delimited encoding of canonical votes identifies exactly the votes that differ only in
  the location or monotonic reading of the timestamp, and encodes the two votes at hand. Then two
  votes have the same sign bytes if and only if they agree on the chain, type, height, round, block
  and instant: a signature cannot be moved to another chain, height, round, step, block or time.
  (The validator index and address, the signature and the extension are not bound.) For a valid
  block identifier the sign bytes exist.\<close>

theorem vote_sign_bytes_bind:
  assumes inj: "\<And>a b x. enc_vote env a = Ok x \<Longrightarrow> enc_vote env b = Ok x \<longleftrightarrow>
        a\<lparr>cvTimestamp := Canonical (cvTimestamp a)\<rparr> = b\<lparr>cvTimestamp := Canonical (cvTimestamp b)\<rparr>"
    and v: "BlockID_ValidateBasic (vBlockID v) = Ok ()" and w: "BlockID_ValidateBasic (vBlockID w) = Ok ()"
    and fits: "\<And>c. CanonicalizeVote chainID v = Ok c \<Longrightarrow> is_ok (enc_vote env c)"
  shows "is_ok (VoteSignBytes env chainID v) \<and>
    (VoteSignBytes env chainID v = VoteSignBytes env chainID' w \<longleftrightarrow>
       chainID = chainID' \<and> vType v = vType w \<and> vHeight v = vHeight w \<and> vRound v = vRound w \<and>
       vBlockID v = vBlockID w \<and> tmNs (vTimestamp v) = tmNs (vTimestamp w))"
proof -
  define cv where "cv chain u = \<lparr>cvType = vType u, cvHeight = vHeight u, cvRound = vRound u,
      cvBlockID = (if vBlockID u = nil_BlockID then None else Some (vBlockID u)),
      cvTimestamp = vTimestamp u, cvChainID = chain\<rparr>" for chain and u :: Vote
  have canon: "CanonicalizeVote chain u = Ok (cv chain u)"
    if "BlockID_ValidateBasic (vBlockID u) = Ok ()" for chain u
  proof -
    have "CanonicalizeBlockID (vBlockID u) = Ok (if vBlockID u = nil_BlockID then None else Some (vBlockID u))"
      using that CanonicalizeBlockID_Ok by blast
    then show ?thesis by (simp add: CanonicalizeVote_def cv_def)
  qed
  obtain x where x: "enc_vote env (cv chainID v) = Ok x"
    using fits [OF canon [OF v]] by (blast elim: is_okE)
  have sv: "VoteSignBytes env chainID v = Ok x"
    using canon [OF v] x by (simp add: VoteSignBytes_def must_def)
  have sw: "VoteSignBytes env chainID' w = must (enc_vote env (cv chainID' w))"
    using canon [OF w] by (simp add: VoteSignBytes_def)
  have "must r = Ok y \<longleftrightarrow> r = Ok y" for r :: "bytes outcome" and y by (cases r) (simp_all add: must_def)
  then have "VoteSignBytes env chainID v = VoteSignBytes env chainID' w \<longleftrightarrow> enc_vote env (cv chainID' w) = Ok x"
    using sv sw by metis
  then show ?thesis using sv inj [OF x, of "cv chainID' w"]
    by (cases "vTimestamp v"; cases "vTimestamp w") (auto simp: cv_def Canonical_def split: if_splits)
qed

definition code_env :: crypto_env where
  "code_env = key_prims.extend toy_prims
     (crypto_env.fields (\<lambda>v. Ok (vote_code v)) (\<lambda>e. Ok (cxExtension e)))"

lemma enc_code_env [simp]: "enc_vote code_env v = Ok (vote_code v)" "enc_ext code_env e = Ok (cxExtension e)"
  by (simp_all add: code_env_def key_prims.defs crypto_env.defs)

definition nil_vote :: "gotime \<Rightarrow> Vote" where
  "nil_vote t = \<lparr>vType = PrevoteType, vHeight = 7, vRound = 0, vBlockID = nil_BlockID, vTimestamp = t,
     vValAddr = replicate 20 0, vValIndex = 0, vSignature = [1], vExtension = [], vExtSig = []\<rparr>"

lemma vote_code_eq:
  "vote_code a = vote_code b \<longleftrightarrow>
   a\<lparr>cvTimestamp := Canonical (cvTimestamp a)\<rparr> = b\<lparr>cvTimestamp := Canonical (cvTimestamp b)\<rparr>"
  by (cases a; cases b; cases "cvTimestamp a"; cases "cvTimestamp b") (auto simp: vote_code_def Canonical_def)

lemma nil_BlockID_valid: "BlockID_ValidateBasic nil_BlockID = Ok ()"
  by (simp add: BlockID_ValidateBasic_Ok nil_BlockID_def nil_PartSetHeader_def)

theorem vote_sign_bytes_bind_witness:
  "is_ok (VoteSignBytes code_env ''chain'' (nil_vote zero_time)) \<and>
   VoteSignBytes code_env ''chain'' (nil_vote zero_time) \<noteq> VoteSignBytes code_env ''other'' (nil_vote zero_time)"
proof -
  have "enc_vote code_env a = Ok x \<Longrightarrow> enc_vote code_env b = Ok x \<longleftrightarrow>
      a\<lparr>cvTimestamp := Canonical (cvTimestamp a)\<rparr> = b\<lparr>cvTimestamp := Canonical (cvTimestamp b)\<rparr>" for a b x
    using vote_code_eq [of a b] by auto
  moreover have "BlockID_ValidateBasic (vBlockID (nil_vote zero_time)) = Ok ()"
    by (simp add: nil_vote_def nil_BlockID_valid)
  moreover have "is_ok (enc_vote code_env c)" for c by simp
  ultimately show ?thesis
    using vote_sign_bytes_bind [of code_env "nil_vote zero_time" "nil_vote zero_time" "''chain''" "''other''"]
    by simp
qed

end
