(* ===== verification/Commits.thy ===== *)
theory Commits
  imports Block_Types
begin

text \<open>
  Commit signatures, commits and extended commits of \<^verbatim>\<open>types/block.go\<close>: construction
  from votes, validation, reconstruction of votes and conversion to and from protobuf. Vote sets, and
  with them the conversions of commits and extended commits into vote sets, are not modelled.
\<close>

section \<open>Commit signatures\<close>

type_synonym BlockIDFlag = byte

definition BlockIDFlagAbsent :: BlockIDFlag where "BlockIDFlagAbsent = 1"
definition BlockIDFlagCommit :: BlockIDFlag where "BlockIDFlagCommit = 2"
definition BlockIDFlagNil :: BlockIDFlag where "BlockIDFlagNil = 3"

lemmas flags = BlockIDFlagAbsent_def BlockIDFlagCommit_def BlockIDFlagNil_def

record CommitSig =
  csFlag :: BlockIDFlag
  csValAddr :: bytes
  csTimestamp :: gotime
  csSignature :: bytes

definition MaxCommitOverheadBytes :: int where "MaxCommitOverheadBytes = 94"

definition MaxCommitSigBytes :: int where "MaxCommitSigBytes = 131 + (4 + 1 + 1 + 1 + 3)"

definition MaxCommitBytes :: "int \<Rightarrow> int" where
  "MaxCommitBytes valCount = wrap64 (MaxCommitOverheadBytes + wrap64 ((MaxCommitSigBytes + 3) * valCount))"

definition NewCommitSigAbsent :: CommitSig where
  "NewCommitSigAbsent = \<lparr>csFlag = BlockIDFlagAbsent, csValAddr = [], csTimestamp = zero_time, csSignature = []\<rparr>"

definition CommitSig_BlockID :: "CommitSig \<Rightarrow> BlockID \<Rightarrow> BlockID outcome" where
  "CommitSig_BlockID cs commitBlockID =
     (if csFlag cs = BlockIDFlagAbsent then Ok nil_BlockID
      else if csFlag cs = BlockIDFlagCommit then Ok commitBlockID
      else if csFlag cs = BlockIDFlagNil then Ok nil_BlockID
      else Panic ''Unknown BlockIDFlag'')"

definition CommitSig_ValidateBasic :: "CommitSig \<Rightarrow> unit outcome" where
  "CommitSig_ValidateBasic cs =
     (if csFlag cs \<noteq> BlockIDFlagAbsent \<and> csFlag cs \<noteq> BlockIDFlagCommit \<and> csFlag cs \<noteq> BlockIDFlagNil
        then Err (ErrFmt ''unknown BlockIDFlag'' [uint (csFlag cs)])
      else if csFlag cs = BlockIDFlagAbsent then
        (if length (csValAddr cs) \<noteq> 0 then Err (ErrNew ''validator address is present'')
         else if \<not> Time_IsZero (csTimestamp cs) then Err (ErrNew ''time is present'')
         else if length (csSignature cs) \<noteq> 0 then Err (ErrNew ''signature is present'')
         else Ok ())
      else
        (if length (csValAddr cs) \<noteq> AddressSize
           then Err (ErrFmt ''expected ValidatorAddress size to be bytes, got bytes'' [int AddressSize, int (length (csValAddr cs))])
         else if length (csSignature cs) = 0 then Err (ErrNew ''signature is missing'')
         else if length (csSignature cs) > MaxSignatureSize
           then Err (ErrFmt ''signature is too big'' [int MaxSignatureSize])
         else Ok ()))"

text \<open>The generated type keeps the flag as a 32-bit enum; the conversion back truncates it to a byte.\<close>

record CommitSigProto =
  pcsFlag :: int
  pcsValAddr :: bytes
  pcsTimestamp :: gotime
  pcsSignature :: bytes

definition CommitSig_ToProto :: "CommitSig \<Rightarrow> CommitSigProto" where
  "CommitSig_ToProto cs =
     \<lparr>pcsFlag = uint (csFlag cs), pcsValAddr = csValAddr cs, pcsTimestamp = csTimestamp cs,
      pcsSignature = csSignature cs\<rparr>"

definition CommitSig_FromProto :: "CommitSigProto \<Rightarrow> CommitSig outcome" where
  "CommitSig_FromProto csp =
     (let cs = \<lparr>csFlag = of_int (pcsFlag csp), csValAddr = pcsValAddr csp, csTimestamp = pcsTimestamp csp,
                csSignature = pcsSignature csp\<rparr>
      in bindo (CommitSig_ValidateBasic cs) (\<lambda>_. Ok cs))"

definition Vote_CommitSig :: "Vote option \<Rightarrow> CommitSig outcome" where
  "Vote_CommitSig vote =
     (case vote of
        None \<Rightarrow> Ok NewCommitSigAbsent
      | Some v \<Rightarrow>
          bindo (if BlockID_IsComplete (vBlockID v) then Ok BlockIDFlagCommit
                 else if BlockID_IsNil (vBlockID v) then Ok BlockIDFlagNil
                 else Panic ''Invalid vote - expected BlockID to be either empty or complete'') (\<lambda>flag.
          Ok \<lparr>csFlag = flag, csValAddr = vValAddr v, csTimestamp = vTimestamp v, csSignature = vSignature v\<rparr>))"

section \<open>Extended commit signatures\<close>

record ExtendedCommitSig =
  ecsSig :: CommitSig
  ecsExtension :: bytes
  ecsExtSig :: bytes

definition NewExtendedCommitSigAbsent :: ExtendedCommitSig where
  "NewExtendedCommitSigAbsent = \<lparr>ecsSig = NewCommitSigAbsent, ecsExtension = [], ecsExtSig = []\<rparr>"

definition Vote_ExtendedCommitSig :: "Vote option \<Rightarrow> ExtendedCommitSig outcome" where
  "Vote_ExtendedCommitSig vote =
     (case vote of
        None \<Rightarrow> Ok NewExtendedCommitSigAbsent
      | Some v \<Rightarrow> bindo (Vote_CommitSig vote) (\<lambda>cs.
          Ok \<lparr>ecsSig = cs, ecsExtension = vExtension v, ecsExtSig = vExtSig v\<rparr>))"

definition ExtendedCommitSig_ValidateBasic :: "ExtendedCommitSig \<Rightarrow> unit outcome" where
  "ExtendedCommitSig_ValidateBasic ecs =
     bindo (CommitSig_ValidateBasic (ecsSig ecs)) (\<lambda>_.
     if csFlag (ecsSig ecs) = BlockIDFlagCommit then
       (if int (length (ecsExtension ecs)) > MaxVoteExtensionSize
          then Err (ErrFmt ''vote extension is too big'' [MaxVoteExtensionSize])
        else if length (ecsExtSig ecs) > MaxSignatureSize
          then Err (ErrFmt ''vote extension signature is too big'' [int MaxSignatureSize])
        else Ok ())
     else if length (ecsExtSig ecs) = 0 \<and> length (ecsExtension ecs) \<noteq> 0
       then Err (ErrNew ''vote extension signature absent on vote with extension'')
     else Ok ())"

definition ExtendedCommitSig_EnsureExtension :: "ExtendedCommitSig \<Rightarrow> bool \<Rightarrow> unit outcome" where
  "ExtendedCommitSig_EnsureExtension ecs extEnabled =
     (if extEnabled then
        (if csFlag (ecsSig ecs) = BlockIDFlagCommit \<and> length (ecsExtSig ecs) = 0
           then Err (ErrNew ''vote extension signature is missing'')
         else if csFlag (ecsSig ecs) \<noteq> BlockIDFlagCommit \<and> length (ecsExtension ecs) \<noteq> 0
           then Err (ErrNew ''non-commit vote extension present'')
         else if csFlag (ecsSig ecs) \<noteq> BlockIDFlagCommit \<and> length (ecsExtSig ecs) \<noteq> 0
           then Err (ErrNew ''non-commit vote extension signature present'')
         else Ok ())
      else
        (if length (ecsExtension ecs) \<noteq> 0
           then Err (ErrNew ''vote extension present but extensions disabled'')
         else if length (ecsExtSig ecs) \<noteq> 0
           then Err (ErrNew ''vote extension signature present but extensions disabled'')
         else Ok ()))"

record ExtendedCommitSigProto =
  pecSig :: CommitSigProto
  pecExtension :: bytes
  pecExtSig :: bytes

definition ExtendedCommitSig_ToProto :: "ExtendedCommitSig \<Rightarrow> ExtendedCommitSigProto" where
  "ExtendedCommitSig_ToProto ecs =
     \<lparr>pecSig = \<lparr>pcsFlag = uint (csFlag (ecsSig ecs)), pcsValAddr = csValAddr (ecsSig ecs),
                pcsTimestamp = csTimestamp (ecsSig ecs), pcsSignature = csSignature (ecsSig ecs)\<rparr>,
      pecExtension = ecsExtension ecs, pecExtSig = ecsExtSig ecs\<rparr>"

definition ExtendedCommitSig_FromProto :: "ExtendedCommitSigProto \<Rightarrow> ExtendedCommitSig outcome" where
  "ExtendedCommitSig_FromProto p =
     (let ecs = \<lparr>ecsSig = \<lparr>csFlag = of_int (pcsFlag (pecSig p)), csValAddr = pcsValAddr (pecSig p),
                           csTimestamp = pcsTimestamp (pecSig p), csSignature = pcsSignature (pecSig p)\<rparr>,
                 ecsExtension = pecExtension p, ecsExtSig = pecExtSig p\<rparr>
      in bindo (ExtendedCommitSig_ValidateBasic ecs) (\<lambda>_. Ok ecs))"

section \<open>Commits\<close>

text \<open>\<open>cmHash\<close> memoises the hash; \<open>None\<close> is the nil slice.\<close>

record Commit =
  cmHeight :: int
  cmRound :: int
  cmBlockID :: BlockID
  cmSignatures :: "CommitSig list"
  cmHash :: "bytes option"

definition Commit_Clone :: "Commit \<Rightarrow> Commit" where
  "Commit_Clone commit =
     commit\<lparr>cmSignatures := copy_into (replicate (length (cmSignatures commit)) NewCommitSigAbsent) (cmSignatures commit)\<rparr>"

definition Commit_GetVote :: "Commit \<Rightarrow> int \<Rightarrow> Vote outcome" where
  "Commit_GetVote commit valIdx =
     bindo (index_at (cmSignatures commit) valIdx) (\<lambda>cs.
     bindo (CommitSig_BlockID cs (cmBlockID commit)) (\<lambda>bid.
     Ok \<lparr>vType = PrecommitType, vHeight = cmHeight commit, vRound = cmRound commit, vBlockID = bid,
         vTimestamp = csTimestamp cs, vValAddr = csValAddr cs, vValIndex = valIdx,
         vSignature = csSignature cs, vExtension = [], vExtSig = []\<rparr>))"

definition Commit_VoteSignBytes :: "'a crypto_env_scheme \<Rightarrow> Commit \<Rightarrow> string \<Rightarrow> int \<Rightarrow> bytes outcome" where
  "Commit_VoteSignBytes env commit chainID valIdx =
     bindo (Commit_GetVote commit valIdx) (\<lambda>v.
     case Vote_ToProto (Some v) of None \<Rightarrow> Panic nil_deref | Some pv \<Rightarrow> VoteSignBytes env chainID pv)"

definition Commit_Size :: "Commit option \<Rightarrow> int" where
  "Commit_Size commit = (case commit of None \<Rightarrow> 0 | Some c \<Rightarrow> int (length (cmSignatures c)))"

fun check_sigs :: "string \<Rightarrow> ('s \<Rightarrow> unit outcome) \<Rightarrow> 's list \<Rightarrow> unit outcome" where
  "check_sigs what f [] = Ok ()"
| "check_sigs what f (s # rest) =
     (case f s of
        Err e \<Rightarrow> Err (ErrWrap what e)
      | Panic p \<Rightarrow> Panic p
      | Ok _ \<Rightarrow> check_sigs what f rest)"

definition Commit_ValidateBasic :: "Commit \<Rightarrow> unit outcome" where
  "Commit_ValidateBasic commit =
     (if cmHeight commit < 0 then Err (ErrNew ''negative Height'')
      else if cmRound commit < 0 then Err (ErrNew ''negative Round'')
      else if cmHeight commit \<ge> 1 then
        (if BlockID_IsNil (cmBlockID commit) then Err (ErrNew ''commit cannot be for nil block'')
         else if length (cmSignatures commit) = 0 then Err (ErrNew ''no signatures in commit'')
         else check_sigs ''wrong CommitSig'' CommitSig_ValidateBasic (cmSignatures commit))
      else Ok ())"

text \<open>The generated marshalling of a commit signature is the parameter \<open>mar\<close>.\<close>

definition Commit_Hash ::
  "(bytes \<Rightarrow> bytes) \<Rightarrow> (CommitSigProto \<Rightarrow> bytes outcome) \<Rightarrow> Commit \<Rightarrow> (bytes \<times> Commit) outcome" where
  "Commit_Hash sha mar commit =
     (case cmHash commit of
        Some h \<Rightarrow> Ok (h, commit)
      | None \<Rightarrow>
          bindo (mapo (\<lambda>cs. must (mar (CommitSig_ToProto cs))) (cmSignatures commit)) (\<lambda>bs.
            let h = HashFromByteSlices sha bs in Ok (h, commit\<lparr>cmHash := Some h\<rparr>)))"

record CommitProto =
  pcHeight :: int
  pcRound :: int
  pcBlockID :: BlockID
  pcSignatures :: "CommitSigProto list"

definition Commit_ToProto :: "Commit option \<Rightarrow> CommitProto option" where
  "Commit_ToProto commit =
     (case commit of None \<Rightarrow> None
      | Some c \<Rightarrow> Some \<lparr>pcHeight = cmHeight c, pcRound = cmRound c, pcBlockID = BlockID_ToProto (Some (cmBlockID c)),
                       pcSignatures = map CommitSig_ToProto (cmSignatures c)\<rparr>)"

definition CommitFromProto :: "CommitProto option \<Rightarrow> Commit outcome" where
  "CommitFromProto cp =
     (case cp of None \<Rightarrow> Err (ErrNew ''nil Commit'')
      | Some p \<Rightarrow>
          bindo (BlockIDFromProto (Some (pcBlockID p))) (\<lambda>bi.
          bindo (mapo CommitSig_FromProto (pcSignatures p)) (\<lambda>sigs.
            let commit = \<lparr>cmHeight = pcHeight p, cmRound = pcRound p, cmBlockID = bi, cmSignatures = sigs, cmHash = None\<rparr>
            in bindo (Commit_ValidateBasic commit) (\<lambda>_. Ok commit))))"

section \<open>Extended commits\<close>

record ExtendedCommit =
  xcHeight :: int
  xcRound :: int
  xcBlockID :: BlockID
  xcSignatures :: "ExtendedCommitSig list"
  xcBits :: "bit_array option"

definition Commit_WrappedExtendedCommit :: "Commit \<Rightarrow> ExtendedCommit" where
  "Commit_WrappedExtendedCommit commit =
     \<lparr>xcHeight = cmHeight commit, xcRound = cmRound commit, xcBlockID = cmBlockID commit,
      xcSignatures = map (\<lambda>s. \<lparr>ecsSig = s, ecsExtension = [], ecsExtSig = []\<rparr>) (cmSignatures commit),
      xcBits = None\<rparr>"

definition ExtendedCommit_Clone :: "ExtendedCommit \<Rightarrow> ExtendedCommit" where
  "ExtendedCommit_Clone ec =
     ec\<lparr>xcSignatures := copy_into (replicate (length (xcSignatures ec)) NewExtendedCommitSigAbsent) (xcSignatures ec)\<rparr>"

definition ExtendedCommit_EnsureExtensions :: "ExtendedCommit \<Rightarrow> bool \<Rightarrow> unit outcome" where
  "ExtendedCommit_EnsureExtensions ec extEnabled =
     each (\<lambda>ecs. ExtendedCommitSig_EnsureExtension ecs extEnabled) (xcSignatures ec)"

definition ExtendedCommit_ToCommit :: "ExtendedCommit \<Rightarrow> Commit" where
  "ExtendedCommit_ToCommit ec =
     \<lparr>cmHeight = xcHeight ec, cmRound = xcRound ec, cmBlockID = xcBlockID ec,
      cmSignatures = map ecsSig (xcSignatures ec), cmHash = None\<rparr>"

definition ExtendedCommit_GetExtendedVote :: "ExtendedCommit \<Rightarrow> int \<Rightarrow> Vote outcome" where
  "ExtendedCommit_GetExtendedVote ec valIndex =
     bindo (index_at (xcSignatures ec) valIndex) (\<lambda>ecs.
     bindo (CommitSig_BlockID (ecsSig ecs) (xcBlockID ec)) (\<lambda>bid.
     Ok \<lparr>vType = PrecommitType, vHeight = xcHeight ec, vRound = xcRound ec, vBlockID = bid,
         vTimestamp = csTimestamp (ecsSig ecs), vValAddr = csValAddr (ecsSig ecs), vValIndex = valIndex,
         vSignature = csSignature (ecsSig ecs), vExtension = ecsExtension ecs, vExtSig = ecsExtSig ecs\<rparr>))"

definition ExtendedCommit_Size :: "ExtendedCommit option \<Rightarrow> int" where
  "ExtendedCommit_Size ec = (case ec of None \<Rightarrow> 0 | Some c \<Rightarrow> int (length (xcSignatures c)))"

definition ExtendedCommit_BitArray :: "ExtendedCommit \<Rightarrow> (bit_array option \<times> ExtendedCommit) outcome" where
  "ExtendedCommit_BitArray ec =
     (if xcBits ec = None
      then bindo (NewBitArrayFromFn (int (length (xcSignatures ec)))
                    (\<lambda>i. csFlag (ecsSig (xcSignatures ec ! nat i)) \<noteq> BlockIDFlagAbsent)) (\<lambda>bA.
           Ok (bA, ec\<lparr>xcBits := bA\<rparr>))
      else Ok (xcBits ec, ec))"

definition ExtendedCommit_IsCommit :: "ExtendedCommit \<Rightarrow> bool" where
  "ExtendedCommit_IsCommit ec \<longleftrightarrow> length (xcSignatures ec) \<noteq> 0"

definition ExtendedCommit_ValidateBasic :: "ExtendedCommit \<Rightarrow> unit outcome" where
  "ExtendedCommit_ValidateBasic ec =
     (if xcHeight ec < 0 then Err (ErrNew ''negative Height'')
      else if xcRound ec < 0 then Err (ErrNew ''negative Round'')
      else if xcHeight ec \<ge> 1 then
        (if BlockID_IsNil (xcBlockID ec) then Err (ErrNew ''extended commit cannot be for nil block'')
         else if length (xcSignatures ec) = 0 then Err (ErrNew ''no signatures in commit'')
         else check_sigs ''wrong ExtendedCommitSig'' ExtendedCommitSig_ValidateBasic (xcSignatures ec))
      else Ok ())"

record ExtendedCommitProto =
  pxHeight :: int
  pxRound :: int
  pxBlockID :: BlockID
  pxSignatures :: "ExtendedCommitSigProto list"

definition ExtendedCommit_ToProto :: "ExtendedCommit option \<Rightarrow> ExtendedCommitProto option" where
  "ExtendedCommit_ToProto ec =
     (case ec of None \<Rightarrow> None
      | Some c \<Rightarrow> Some \<lparr>pxHeight = xcHeight c, pxRound = xcRound c, pxBlockID = BlockID_ToProto (Some (xcBlockID c)),
                       pxSignatures = map ExtendedCommitSig_ToProto (xcSignatures c)\<rparr>)"

definition ExtendedCommitFromProto :: "ExtendedCommitProto option \<Rightarrow> ExtendedCommit outcome" where
  "ExtendedCommitFromProto ecp =
     (case ecp of None \<Rightarrow> Err (ErrNew ''nil ExtendedCommit'')
      | Some p \<Rightarrow>
          bindo (BlockIDFromProto (Some (pxBlockID p))) (\<lambda>bi.
          bindo (mapo ExtendedCommitSig_FromProto (pxSignatures p)) (\<lambda>sigs.
            let ec = \<lparr>xcHeight = pxHeight p, xcRound = pxRound p, xcBlockID = bi, xcSignatures = sigs, xcBits = None\<rparr>
            in bindo (ExtendedCommit_ValidateBasic ec) (\<lambda>_. Ok ec))))"

section \<open>Round trips\<close>

lemma check_sigs_Ok: "check_sigs what f xs = Ok () \<longleftrightarrow> (\<forall>x\<in>set xs. f x = Ok ())"
  by (induction xs) (auto split: outcome.splits)

lemma CommitSig_FromProto_ToProto:
  "CommitSig_ValidateBasic cs = Ok () \<Longrightarrow> CommitSig_FromProto (CommitSig_ToProto cs) = Ok cs"
  by (cases cs) (simp add: CommitSig_FromProto_def CommitSig_ToProto_def Let_def)

lemma ExtendedCommitSig_FromProto_ToProto:
  "ExtendedCommitSig_ValidateBasic ecs = Ok () \<Longrightarrow>
   ExtendedCommitSig_FromProto (ExtendedCommitSig_ToProto ecs) = Ok ecs"
  by (cases ecs; cases "ecsSig ecs") (simp add: ExtendedCommitSig_FromProto_def ExtendedCommitSig_ToProto_def Let_def)

lemma mapo_inverse: "(\<And>x. x \<in> set xs \<Longrightarrow> f (g x) = Ok x) \<Longrightarrow> mapo f (map g xs) = Ok xs"
  by (induction xs) auto

lemma Commit_sigs_valid:
  "Commit_ValidateBasic c = Ok () \<Longrightarrow> 1 \<le> cmHeight c \<Longrightarrow> x \<in> set (cmSignatures c) \<Longrightarrow>
   CommitSig_ValidateBasic x = Ok ()"
  by (auto simp: Commit_ValidateBasic_def check_sigs_Ok split: if_splits)

lemma ExtendedCommit_sigs_valid:
  "ExtendedCommit_ValidateBasic c = Ok () \<Longrightarrow> 1 \<le> xcHeight c \<Longrightarrow> x \<in> set (xcSignatures c) \<Longrightarrow>
   ExtendedCommitSig_ValidateBasic x = Ok ()"
  by (auto simp: ExtendedCommit_ValidateBasic_def check_sigs_Ok split: if_splits)

text \<open>C19. A valid commit or extended commit of height at least one whose block identifier is valid
  survives the conversion to protobuf and back; only the memoised hash and bit array are reset.\<close>

theorem commit_proto_roundtrip:
  assumes "BlockID_ValidateBasic (cmBlockID c) = Ok ()" "1 \<le> cmHeight c" "Commit_ValidateBasic c = Ok ()"
    and "BlockID_ValidateBasic (xcBlockID x) = Ok ()" "1 \<le> xcHeight x" "ExtendedCommit_ValidateBasic x = Ok ()"
  shows "CommitFromProto (Commit_ToProto (Some c)) = Ok (c\<lparr>cmHash := None\<rparr>) \<and>
         ExtendedCommitFromProto (ExtendedCommit_ToProto (Some x)) = Ok (x\<lparr>xcBits := None\<rparr>)"
proof
  have "Commit_ValidateBasic (c\<lparr>cmHash := None\<rparr>) = Commit_ValidateBasic c" by (simp add: Commit_ValidateBasic_def)
  then have v: "Commit_ValidateBasic (c\<lparr>cmHash := None\<rparr>) = Ok ()" using assms(3) by simp
  have "mapo CommitSig_FromProto (map CommitSig_ToProto (cmSignatures c)) = Ok (cmSignatures c)"
    using Commit_sigs_valid [OF assms(3,2)] by (intro mapo_inverse) (simp add: CommitSig_FromProto_ToProto)
  then show "CommitFromProto (Commit_ToProto (Some c)) = Ok (c\<lparr>cmHash := None\<rparr>)"
    using BlockIDFromProto_ToProto [OF assms(1)] v
    by (cases c) (simp add: CommitFromProto_def Commit_ToProto_def Let_def)
  have "ExtendedCommit_ValidateBasic (x\<lparr>xcBits := None\<rparr>) = ExtendedCommit_ValidateBasic x"
    by (simp add: ExtendedCommit_ValidateBasic_def)
  then have w: "ExtendedCommit_ValidateBasic (x\<lparr>xcBits := None\<rparr>) = Ok ()" using assms(6) by simp
  have "mapo ExtendedCommitSig_FromProto (map ExtendedCommitSig_ToProto (xcSignatures x)) = Ok (xcSignatures x)"
    using ExtendedCommit_sigs_valid [OF assms(6,5)]
    by (intro mapo_inverse) (simp add: ExtendedCommitSig_FromProto_ToProto)
  then show "ExtendedCommitFromProto (ExtendedCommit_ToProto (Some x)) = Ok (x\<lparr>xcBits := None\<rparr>)"
    using BlockIDFromProto_ToProto [OF assms(4)] w
    by (cases x) (simp add: ExtendedCommitFromProto_def ExtendedCommit_ToProto_def Let_def)
qed

definition sample_commit :: Commit where
  "sample_commit = \<lparr>cmHeight = 1, cmRound = 0,
     cmBlockID = \<lparr>bidHash = replicate 32 7, bidPSH = \<lparr>phTotal = 1, phHash = replicate 32 9\<rparr>\<rparr>,
     cmSignatures = [NewCommitSigAbsent,
       \<lparr>csFlag = BlockIDFlagCommit, csValAddr = replicate 20 3, csTimestamp = zero_time, csSignature = [1]\<rparr>],
     cmHash = Some [5]\<rparr>"

theorem commit_proto_roundtrip_witness:
  "CommitFromProto (Commit_ToProto (Some sample_commit)) = Ok (sample_commit\<lparr>cmHash := None\<rparr>) \<and>
   ExtendedCommitFromProto (ExtendedCommit_ToProto (Some (Commit_WrappedExtendedCommit sample_commit)))
     = Ok ((Commit_WrappedExtendedCommit sample_commit)\<lparr>xcBits := None\<rparr>)"
  by (rule commit_proto_roundtrip; code_simp)

text \<open>C18. A precommit that passes ValidateBasic, turned into a commit signature and placed at its
  validator index in a commit for its height and round whose block is the one voted for (or any
  block, for a nil vote), is read back by GetVote unchanged except for the vote extension, and its
  signature passes the commit's validation. With extensions kept, GetExtendedVote returns the vote
  itself.\<close>

theorem commit_vote_roundtrip:
  assumes "Vote_ValidateBasic v = Ok ()" "vType v = PrecommitType"
    and "BlockID_IsNil (vBlockID v) \<or> vBlockID v = cmBlockID c"
    and "cmHeight c = vHeight v" "cmRound c = vRound v" "vValIndex v < int (length (cmSignatures c))"
    and "Vote_CommitSig (Some v) = Ok (cmSignatures c ! nat (vValIndex v))"
    and "xcHeight x = vHeight v" "xcRound x = vRound v" "vValIndex v < int (length (xcSignatures x))"
    and "xcBlockID x = cmBlockID c"
    and "Vote_ExtendedCommitSig (Some v) = Ok (xcSignatures x ! nat (vValIndex v))"
  shows "Commit_GetVote c (vValIndex v) = Ok (v\<lparr>vExtension := [], vExtSig := []\<rparr>) \<and>
         CommitSig_ValidateBasic (cmSignatures c ! nat (vValIndex v)) = Ok () \<and>
         ExtendedCommit_GetExtendedVote x (vValIndex v) = Ok v"
proof -
  have i: "0 \<le> vValIndex v" and a: "length (vValAddr v) = AddressSize" "vSignature v \<noteq> []"
    "length (vSignature v) \<le> MaxSignatureSize" and b: "BlockID_IsNil (vBlockID v) \<or> BlockID_IsComplete (vBlockID v)"
    using assms(1) by (auto simp: Vote_ValidateBasic_def split: if_splits outcome.splits)
  define flag where "flag = (if BlockID_IsComplete (vBlockID v) then BlockIDFlagCommit else BlockIDFlagNil)"
  have "Vote_CommitSig (Some v) =
      Ok \<lparr>csFlag = flag, csValAddr = vValAddr v, csTimestamp = vTimestamp v, csSignature = vSignature v\<rparr>"
    using b by (auto simp: Vote_CommitSig_def flag_def)
  then have cs: "cmSignatures c ! nat (vValIndex v) =
      \<lparr>csFlag = flag, csValAddr = vValAddr v, csTimestamp = vTimestamp v, csSignature = vSignature v\<rparr>"
    using assms(7) by simp
  have f: "flag = BlockIDFlagCommit \<and> BlockID_IsComplete (vBlockID v) \<or>
      flag = BlockIDFlagNil \<and> BlockID_IsNil (vBlockID v)"
    using b by (auto simp: flag_def)
  have xs: "xcSignatures x ! nat (vValIndex v) =
      \<lparr>ecsSig = cmSignatures c ! nat (vValIndex v), ecsExtension = vExtension v, ecsExtSig = vExtSig v\<rparr>"
    using assms(7,12) by (auto simp: Vote_ExtendedCommitSig_def)
  have bid: "CommitSig_BlockID (cmSignatures c ! nat (vValIndex v)) (cmBlockID c) = Ok (vBlockID v)"
    using f
  proof (elim disjE conjE)
    assume "flag = BlockIDFlagCommit" "BlockID_IsComplete (vBlockID v)"
    then show ?thesis using assms(3) BlockID_complete_not_nil by (simp add: CommitSig_BlockID_def cs flags)
  next
    assume "flag = BlockIDFlagNil" "BlockID_IsNil (vBlockID v)"
    then show ?thesis by (simp add: CommitSig_BlockID_def cs flags BlockID_nil_eq)
  qed
  have "Commit_GetVote c (vValIndex v) = Ok (v\<lparr>vExtension := [], vExtSig := []\<rparr>)"
    using assms(2,4,5,6) i bid by (simp add: Commit_GetVote_def cs)
  moreover have "CommitSig_ValidateBasic (cmSignatures c ! nat (vValIndex v)) = Ok ()"
    using a f by (auto simp: CommitSig_ValidateBasic_def cs flags)
  moreover have "ExtendedCommit_GetExtendedVote x (vValIndex v) = Ok v"
    using assms(2,8-11) i bid by (simp add: ExtendedCommit_GetExtendedVote_def xs cs)
  ultimately show ?thesis by blast
qed

definition sample_vote :: Vote where
  "sample_vote = \<lparr>vType = PrecommitType, vHeight = 1, vRound = 0, vBlockID = cmBlockID sample_commit,
     vTimestamp = zero_time, vValAddr = replicate 20 3, vValIndex = 1, vSignature = [1],
     vExtension = [], vExtSig = []\<rparr>"

theorem commit_vote_roundtrip_witness:
  "Commit_GetVote sample_commit 1 = Ok sample_vote \<and>
   ExtendedCommit_GetExtendedVote (Commit_WrappedExtendedCommit sample_commit) 1 = Ok sample_vote"
proof -
  have "Vote_ValidateBasic sample_vote = Ok ()" "vType sample_vote = PrecommitType"
    "BlockID_IsNil (vBlockID sample_vote) \<or> vBlockID sample_vote = cmBlockID sample_commit"
    "cmHeight sample_commit = vHeight sample_vote" "cmRound sample_commit = vRound sample_vote"
    "vValIndex sample_vote < int (length (cmSignatures sample_commit))"
    "Vote_CommitSig (Some sample_vote) = Ok (cmSignatures sample_commit ! nat (vValIndex sample_vote))"
    "xcHeight (Commit_WrappedExtendedCommit sample_commit) = vHeight sample_vote"
    "xcRound (Commit_WrappedExtendedCommit sample_commit) = vRound sample_vote"
    "vValIndex sample_vote < int (length (xcSignatures (Commit_WrappedExtendedCommit sample_commit)))"
    "xcBlockID (Commit_WrappedExtendedCommit sample_commit) = cmBlockID sample_commit"
    "Vote_ExtendedCommitSig (Some sample_vote)
       = Ok (xcSignatures (Commit_WrappedExtendedCommit sample_commit) ! nat (vValIndex sample_vote))"
    by code_simp+
  from commit_vote_roundtrip [OF this] show ?thesis by (simp add: sample_vote_def)
qed

end
