(* ===== verification/Safe_Math.thy ===== *)
theory Safe_Math
  imports Prelude
begin

text \<open>
  Overflow-checked arithmetic: \<^verbatim>\<open>libs/math/safemath.go\<close> and the int64 helpers at the
  end of \<^verbatim>\<open>types/validator_set.go\<close>. Arguments are integers in the range of their Go
  type. The theory shows that the checks are exact, the clipping operations are saturation, and
  names the one argument for which the multiplication check is not exact.
\<close>

section \<open>libs/math\<close>

definition ErrOverflowInt32 :: err where "ErrOverflowInt32 = ErrNew ''int32 overflow''"
definition ErrOverflowUint8 :: err where "ErrOverflowUint8 = ErrNew ''uint8 overflow''"
definition ErrOverflowInt8 :: err where "ErrOverflowInt8 = ErrNew ''int8 overflow''"

definition SafeAddInt32 :: "int \<Rightarrow> int \<Rightarrow> int outcome" where
  "SafeAddInt32 a b =
     (if b > 0 \<and> a > wrap32 (MaxInt32 - b) then Panic ''int32 overflow''
      else if b < 0 \<and> a < wrap32 (MinInt32 - b) then Panic ''int32 overflow''
      else Ok (wrap32 (a + b)))"

definition SafeSubInt32 :: "int \<Rightarrow> int \<Rightarrow> int outcome" where
  "SafeSubInt32 a b =
     (if b > 0 \<and> a < wrap32 (MinInt32 + b) then Panic ''int32 overflow''
      else if b < 0 \<and> a > wrap32 (MaxInt32 + b) then Panic ''int32 overflow''
      else Ok (wrap32 (a - b)))"

definition SafeConvertInt32 :: "int \<Rightarrow> int outcome" where
  "SafeConvertInt32 a =
     (if a > MaxInt32 then Panic ''int32 overflow''
      else if a < MinInt32 then Panic ''int32 overflow''
      else Ok (wrap32 a))"

definition SafeConvertUint8 :: "int \<Rightarrow> byte outcome" where
  "SafeConvertUint8 a =
     (if a > 255 then Err ErrOverflowUint8 else if a < 0 then Err ErrOverflowUint8 else Ok (of_int a))"

definition SafeConvertInt8 :: "int \<Rightarrow> int outcome" where
  "SafeConvertInt8 a =
     (if a > 127 then Err ErrOverflowInt8 else if a < -128 then Err ErrOverflowInt8
      else Ok ((a + 128) mod 256 - 128))"

section \<open>The int64 helpers of the validator set\<close>

definition safeAdd :: "int \<Rightarrow> int \<Rightarrow> int \<times> bool" where
  "safeAdd a b =
     (if b > 0 \<and> a > wrap64 (MaxInt64 - b) then (-1, True)
      else if b < 0 \<and> a < wrap64 (MinInt64 - b) then (-1, True)
      else (wrap64 (a + b), False))"

definition safeSub :: "int \<Rightarrow> int \<Rightarrow> int \<times> bool" where
  "safeSub a b =
     (if b > 0 \<and> a < wrap64 (MinInt64 + b) then (-1, True)
      else if b < 0 \<and> a > wrap64 (MaxInt64 + b) then (-1, True)
      else (wrap64 (a - b), False))"

definition safeAddClip :: "int \<Rightarrow> int \<Rightarrow> int" where
  "safeAddClip a b =
     (let (c, overflow) = safeAdd a b in
      if overflow then (if b < 0 then MinInt64 else MaxInt64) else c)"

definition safeSubClip :: "int \<Rightarrow> int \<Rightarrow> int" where
  "safeSubClip a b =
     (let (c, overflow) = safeSub a b in
      if overflow then (if b > 0 then MinInt64 else MaxInt64) else c)"

definition safeMul :: "int \<Rightarrow> int \<Rightarrow> int \<times> bool" where
  "safeMul a b =
     (if a = 0 \<or> b = 0 then (0, False)
      else
        let absOfB = (if b < 0 then wrap64 (- b) else b);
            absOfA = (if a < 0 then wrap64 (- a) else a)
        in if absOfA > quot MaxInt64 absOfB then (0, True) else (wrap64 (a * b), False))"

section \<open>Exactness\<close>

definition clamp64 :: "int \<Rightarrow> int" where
  "clamp64 x = max MinInt64 (min MaxInt64 x)"

lemma safeAdd_eq: "in64 a \<Longrightarrow> in64 b \<Longrightarrow> safeAdd a b = (if in64 (a + b) then (a + b, False) else (-1, True))"
  by (auto simp: safeAdd_def in64_def wrap64_idI)

lemma safeSub_eq: "in64 a \<Longrightarrow> in64 b \<Longrightarrow> safeSub a b = (if in64 (a - b) then (a - b, False) else (-1, True))"
  by (auto simp: safeSub_def in64_def wrap64_idI)

lemma safeAddClip_eq: "in64 a \<Longrightarrow> in64 b \<Longrightarrow> safeAddClip a b = clamp64 (a + b)"
  by (auto simp: safeAddClip_def safeAdd_eq clamp64_def in64_def)

lemma safeSubClip_eq: "in64 a \<Longrightarrow> in64 b \<Longrightarrow> safeSubClip a b = clamp64 (a - b)"
  by (auto simp: safeSubClip_def safeSub_eq clamp64_def in64_def)

lemma clamp64_id [simp]: "in64 x \<Longrightarrow> clamp64 x = x"
  by (simp add: clamp64_def in64_def)

lemma in64_clamp64 [simp]: "in64 (clamp64 x)"
  by (simp add: clamp64_def in64_def)

lemma le_div_iff_mult_le: "0 < (b :: int) \<Longrightarrow> a \<le> m div b \<longleftrightarrow> a * b \<le> m"
proof
  assume b: "0 < b" and "a \<le> m div b"
  then have "a * b \<le> m div b * b" by (simp add: mult_right_mono)
  also have "\<dots> \<le> m" using b by (simp add: minus_mod_eq_div_mult [symmetric])
  finally show "a * b \<le> m" .
next
  assume b: "0 < b" and "a * b \<le> m"
  then have "a * b div b \<le> m div b" by (intro zdiv_mono1)
  then show "a \<le> m div b" using b by simp
qed

text \<open>
  The multiplication check is exact on magnitudes, except that the negation of the smallest int64 is
  itself: as a first factor that value is never found to overflow.
\<close>

lemma safeMul_eq:
  assumes a: "in64 a" and b: "in64 b" and na: "a \<noteq> MinInt64"
  shows "safeMul a b = (if \<bar>a * b\<bar> \<le> MaxInt64 then (a * b, False) else (0, True))"
proof (cases "a = 0 \<or> b = 0")
  case True then show ?thesis by (auto simp: safeMul_def)
next
  case False
  have absA: "(if a < 0 then wrap64 (- a) else a) = \<bar>a\<bar>" using a na by (simp add: in64_def wrap64_idI)
  show ?thesis
  proof (cases "b = MinInt64")
    case True
    have "MaxInt64 < \<bar>a\<bar> * 9223372036854775808" using False by linarith
    then show ?thesis using False True absA
      by (simp add: safeMul_def wrap64_def quot_def abs_mult Let_def split: if_splits)
  next
    case nb: False
    have absB: "(if b < 0 then wrap64 (- b) else b) = \<bar>b\<bar>" using b nb by (simp add: in64_def wrap64_idI)
    have "\<bar>a\<bar> \<le> MaxInt64 div \<bar>b\<bar> \<longleftrightarrow> \<bar>a\<bar> * \<bar>b\<bar> \<le> MaxInt64"
      using False by (intro le_div_iff_mult_le) simp
    then have "\<bar>a\<bar> > quot MaxInt64 \<bar>b\<bar> \<longleftrightarrow> \<not> \<bar>a * b\<bar> \<le> MaxInt64"
      using False by (simp add: quot_nonneg abs_mult not_le [symmetric])
    moreover have "wrap64 (a * b) = a * b" if "\<bar>a * b\<bar> \<le> MaxInt64"
      using that by (intro wrap64_idI) linarith+
    ultimately show ?thesis using False unfolding safeMul_def absA absB by auto
  qed
qed

lemma safeMul_MinInt64:
  assumes b: "in64 b"
  shows "safeMul MinInt64 b = (wrap64 (MinInt64 * b), False)"
proof (cases "b = 0 \<or> b = MinInt64")
  case True then show ?thesis by (auto simp: safeMul_def wrap64_def quot_def)
next
  case False
  have "(if b < 0 then wrap64 (- b) else b) = \<bar>b\<bar>" using b False by (simp add: in64_def wrap64_idI)
  moreover have "quot MaxInt64 \<bar>b\<bar> \<ge> 0" using False by (simp add: quot_nonneg pos_imp_zdiv_nonneg_iff)
  ultimately show ?thesis using False by (simp add: safeMul_def wrap64_def Let_def)
qed

text \<open>C20. On int64 arguments the addition and subtraction checks report overflow exactly when the exact result
  is out of range and otherwise return it, and the clipping forms saturate. The multiplication is not exact: unless
  its first factor is the smallest int64 it reports overflow exactly when the magnitude of the product exceeds the largest int64,
  so also for the product that is the smallest int64 and could be represented; and when its first factor is the smallest
  int64 it never reports overflow and the product wraps around.\<close>

theorem safe_arithmetic:
  assumes a: "in64 a" and b: "in64 b"
  shows "safeAdd a b = (if in64 (a + b) then (a + b, False) else (-1, True)) \<and>
    safeSub a b = (if in64 (a - b) then (a - b, False) else (-1, True)) \<and>
    safeAddClip a b = max MinInt64 (min MaxInt64 (a + b)) \<and>
    safeSubClip a b = max MinInt64 (min MaxInt64 (a - b)) \<and>
    safeMul a b =
      (if a = MinInt64 then (wrap64 (a * b), False)
       else if \<bar>a * b\<bar> \<le> MaxInt64 then (a * b, False) else (0, True))"
  using assms
  by (simp add: safeAdd_eq safeSub_eq safeAddClip_eq safeSubClip_eq clamp64_def safeMul_eq safeMul_MinInt64)

theorem safe_arithmetic_witness:
  "in64 MinInt64 \<and> in64 2 \<and> safeMul MinInt64 2 = (0, False) \<and> safeMul 1 MinInt64 = (0, True) \<and>
   safeAdd MaxInt64 2 = (-1, True) \<and> safeSubClip MinInt64 2 = MinInt64"
  using safe_arithmetic [of MinInt64 2] safe_arithmetic [of MaxInt64 2] safe_arithmetic [of 1 MinInt64]
  by (simp add: in64_def wrap64_def)

lemma SafeConvertInt32_eq: "SafeConvertInt32 a = (if in32 a then Ok a else Panic ''int32 overflow'')"
  by (auto simp: SafeConvertInt32_def in32_def wrap32_def)

lemma SafeAddInt32_eq:
  "in32 a \<Longrightarrow> in32 b \<Longrightarrow> SafeAddInt32 a b = (if in32 (a + b) then Ok (a + b) else Panic ''int32 overflow'')"
  by (auto simp: SafeAddInt32_def in32_def wrap32_def)

lemma SafeSubInt32_eq:
  "in32 a \<Longrightarrow> in32 b \<Longrightarrow> SafeSubInt32 a b = (if in32 (a - b) then Ok (a - b) else Panic ''int32 overflow'')"
  by (auto simp: SafeSubInt32_def in32_def wrap32_def)

end
