(* ===== verification/Rotation.thy ===== *)
theory Rotation
  imports Complex_Main
begin

text \<open>
  The arithmetic behind proposer rotation, independent of the code: every index gains its weight, then
  the largest value pays the sum of all weights. The values stay bounded below because the payer is
  positive, and above by a potential argument over the sets of the \<open>k\<close> largest values, whose averages
  grow by at most a harmonic sum. Counting the payments of an index then gives proportional fairness.
\<close>

definition rotate_step :: "('i \<Rightarrow> int) \<Rightarrow> int \<Rightarrow> 'i \<Rightarrow> ('i \<Rightarrow> int) \<Rightarrow> 'i \<Rightarrow> int" where
  "rotate_step w T m a = (\<lambda>i. a i + w i - (if i = m then T else 0))"

definition is_greedy :: "'i set \<Rightarrow> ('i \<Rightarrow> int) \<Rightarrow> ('i \<Rightarrow> int) \<Rightarrow> 'i \<Rightarrow> bool" where
  "is_greedy I w a m \<longleftrightarrow> m \<in> I \<and> (\<forall>i\<in>I. a i + w i \<le> a m + w m)"

lemma rotate_step_sum:
  "finite I \<Longrightarrow> m \<in> I \<Longrightarrow> T = sum w I \<Longrightarrow> sum (rotate_step w T m a) I = sum a I"
  by (simp add: rotate_step_def sum.distrib sum_subtractf)

lemma greedy_gain_pos:
  assumes "finite I" "is_greedy I w a m" "0 \<le> sum a I" "0 < sum w I"
  shows "0 < a m + w m"
proof (rule ccontr)
  assume "\<not> 0 < a m + w m"
  then have "\<forall>i\<in>I. a i + w i \<le> 0" using assms(2) by (force simp: is_greedy_def)
  then have "sum (\<lambda>i. a i + w i) I \<le> 0" by (intro sum_nonpos) auto
  then show False using assms(3,4) by (simp add: sum.distrib)
qed

lemma rotate_step_lower:
  assumes "finite I" "is_greedy I w a m" "0 \<le> sum a I" "T = sum w I" "0 < T"
    and "\<forall>i\<in>I. 0 \<le> w i" "\<forall>i\<in>I. L \<le> a i" "L \<le> 1 - T"
  shows "\<forall>i\<in>I. L \<le> rotate_step w T m a i"
  using assms greedy_gain_pos [of I w a m] by (fastforce simp: rotate_step_def)

section \<open>Harmonic sums\<close>

definition hsum :: "nat \<Rightarrow> nat \<Rightarrow> real" where
  "hsum k n = (\<Sum>j\<in>{k<..n}. 1 / real j)"

lemma hsum_nonneg: "0 \<le> hsum k n"
  by (simp add: hsum_def sum_nonneg)

lemma hsum_rec: "k < n \<Longrightarrow> hsum k n = 1 / real (Suc k) + hsum (Suc k) n"
proof -
  assume "k < n"
  then have "{k<..n} = insert (Suc k) {Suc k<..n}" by auto
  then show ?thesis by (simp add: hsum_def)
qed

lemma hsum_doubling: "hsum (2 ^ k) (2 ^ Suc k) \<le> 1"
proof -
  have "hsum (2 ^ k) (2 ^ Suc k) \<le> of_nat (card {2 ^ k<..(2 ^ Suc k :: nat)}) * (1 / 2 ^ k)"
    unfolding hsum_def
  proof (rule sum_bounded_above)
    fix j :: nat assume "j \<in> {2 ^ k<..2 ^ Suc k}"
    then have j: "2 ^ k \<le> j" by simp
    then have "real (2 ^ k) \<le> real j" by (simp only: of_nat_le_iff)
    moreover have "0 < j" using j by (cases j) simp_all
    ultimately show "1 / real j \<le> 1 / 2 ^ k" by (intro divide_left_mono) simp_all
  qed
  also have "\<dots> = 1" by simp
  finally show ?thesis .
qed

lemma hsum_split: "a \<le> b \<Longrightarrow> b \<le> c \<Longrightarrow> hsum a c = hsum a b + hsum b c"
proof -
  assume "a \<le> b" "b \<le> c"
  then have "{a<..c} = {a<..b} \<union> {b<..c}" by auto
  then show ?thesis unfolding hsum_def by (simp add: sum.union_disjoint)
qed

lemma hsum_log: "hsum 1 (2 ^ k) \<le> real k"
proof (induction k)
  case (Suc k)
  have "hsum 1 (2 ^ Suc k) = hsum 1 (2 ^ k) + hsum (2 ^ k) (2 ^ Suc k)"
    by (intro hsum_split) simp_all
  then show ?case using Suc hsum_doubling [of k] by simp
qed (simp add: hsum_def)

lemma hsum_mono: "n \<le> n' \<Longrightarrow> hsum k n \<le> hsum k n'"
  unfolding hsum_def by (intro sum_mono2) auto

section \<open>The upper bound\<close>

text \<open>Every set of \<open>k\<close> indices has average at most \<open>D + T * (1/(k+1) + ... + 1/n)\<close>.\<close>

definition avg_bounded :: "'i set \<Rightarrow> int \<Rightarrow> real \<Rightarrow> ('i \<Rightarrow> int) \<Rightarrow> bool" where
  "avg_bounded I T D a \<longleftrightarrow>
     (\<forall>A. A \<subseteq> I \<longrightarrow> A \<noteq> {} \<longrightarrow>
        real_of_int (sum a A) \<le> real (card A) * (D + real_of_int T * hsum (card A) (card I)))"

lemma avg_bounded_init:
  assumes "finite I" "0 \<le> T" "\<forall>i\<in>I. real_of_int (a i) \<le> D"
  shows "avg_bounded I T D a"
  unfolding avg_bounded_def
proof (intro allI impI)
  fix A assume A: "A \<subseteq> I" "A \<noteq> {}"
  have "real_of_int (sum a A) \<le> real (card A) * D"
    unfolding of_int_sum by (rule sum_bounded_above) (use assms(3) A(1) in blast)
  also have "\<dots> \<le> real (card A) * (D + real_of_int T * hsum (card A) (card I))"
    by (intro mult_left_mono) (simp_all add: assms(2) hsum_nonneg)
  finally show "real_of_int (sum a A) \<le> real (card A) * (D + real_of_int T * hsum (card A) (card I))" .
qed

lemma rotate_step_payer:
  assumes fin: "finite I" and A: "A \<subseteq> I" "m \<in> A" and w: "\<forall>i\<in>I. 0 \<le> w i" and T: "T = sum w I"
  shows "sum (rotate_step w T m a) A \<le> sum a A"
proof -
  have fA: "finite A" using A(1) fin by (rule finite_subset)
  have "sum w A \<le> T" unfolding T using A w fin by (intro sum_mono2) auto
  then show ?thesis using fA A(2) by (simp add: rotate_step_def sum.distrib sum_subtractf)
qed

lemma rotate_step_others:
  assumes fin: "finite I" and A: "A \<subseteq> I" "A \<noteq> {}" "m \<notin> A" and gr: "is_greedy I w a m"
  shows "real (Suc (card A)) * real_of_int (sum (rotate_step w T m a) A)
           \<le> real (card A) * (real_of_int (sum (rotate_step w T m a) (insert m A)) + real_of_int T)"
proof -
  let ?a = "rotate_step w T m a"
  have fA: "finite A" using A(1) fin by (rule finite_subset)
  have "sum ?a A \<le> of_nat (card A) * (?a m + T)"
  proof (rule sum_bounded_above)
    fix i assume "i \<in> A"
    then have "i \<in> I" "i \<noteq> m" using A by auto
    then show "?a i \<le> ?a m + T" using gr by (simp add: rotate_step_def is_greedy_def)
  qed
  then have "real_of_int (sum ?a A) \<le> real (card A) * (real_of_int (?a m) + real_of_int T)"
    by (metis of_int_add of_int_le_iff of_int_mult of_int_of_nat_eq)
  then show ?thesis using fA A(3) by (simp add: algebra_simps)
qed

lemma rotate_step_avg_bounded:
  assumes fin: "finite I" and gr: "is_greedy I w a m" and w: "\<forall>i\<in>I. 0 \<le> w i" and T: "T = sum w I"
    and inv: "avg_bounded I T D a"
  shows "avg_bounded I T D (rotate_step w T m a)"
  unfolding avg_bounded_def
proof (intro allI impI)
  fix A assume A: "A \<subseteq> I" "A \<noteq> {}"
  let ?a = "rotate_step w T m a" and ?B = "\<lambda>k. D + real_of_int T * hsum k (card I)"
  have fA: "finite A" using A(1) fin by (rule finite_subset)
  have mI: "m \<in> I" using gr by (simp add: is_greedy_def)
  have payer: "real_of_int (sum ?a C) \<le> real (card C) * ?B (card C)" if "C \<subseteq> I" "m \<in> C" for C
  proof -
    have "sum ?a C \<le> sum a C" by (rule rotate_step_payer [OF fin that w T])
    moreover have "real_of_int (sum a C) \<le> real (card C) * ?B (card C)"
      using inv that unfolding avg_bounded_def by blast
    ultimately show ?thesis by linarith
  qed
  show "real_of_int (sum ?a A) \<le> real (card A) * ?B (card A)"
  proof (cases "m \<in> A")
    case True then show ?thesis using payer A by blast
  next
    case False
    let ?k = "card A"
    have "card (insert m A) \<le> card I" using A(1) mI fin by (intro card_mono) auto
    then have lt: "?k < card I" using False fA by simp
    have "real (Suc ?k) * real_of_int (sum ?a A) \<le> real ?k * (real_of_int (sum ?a (insert m A)) + real_of_int T)"
      by (rule rotate_step_others [OF fin A(1) A(2) False gr])
    also have "\<dots> \<le> real ?k * (real (Suc ?k) * ?B (Suc ?k) + real_of_int T)"
      using payer [of "insert m A"] A(1) mI False fA by (intro mult_left_mono add_right_mono) auto
    also have "\<dots> = real (Suc ?k) * (real ?k * ?B ?k)"
      by (simp add: hsum_rec [OF lt] field_simps)
    finally show ?thesis by (simp only: mult_le_cancel_left_pos of_nat_0_less_iff zero_less_Suc)
  qed
qed

lemma avg_bounded_single:
  assumes "avg_bounded I T D a" "i \<in> I" "card I \<le> 2 ^ k" "0 \<le> T"
  shows "real_of_int (a i) \<le> D + real_of_int T * real k"
proof -
  have "real_of_int (sum a {i}) \<le> real (card {i}) * (D + real_of_int T * hsum (card {i}) (card I))"
    using assms(1,2) unfolding avg_bounded_def by blast
  then have "real_of_int (a i) \<le> D + real_of_int T * hsum 1 (card I)" by simp
  moreover have "real_of_int T * hsum 1 (card I) \<le> real_of_int T * real k"
    using assms(4) hsum_mono [OF assms(3), of 1] hsum_log [of k] by (intro mult_left_mono) linarith+
  ultimately show ?thesis by linarith
qed

section \<open>Runs\<close>

text \<open>A run of greedy steps: the payers in order, from a first to a last valuation.\<close>

inductive greedy_run :: "'i set \<Rightarrow> ('i \<Rightarrow> int) \<Rightarrow> int \<Rightarrow> ('i \<Rightarrow> int) \<Rightarrow> 'i list \<Rightarrow> ('i \<Rightarrow> int) \<Rightarrow> bool" for I w T where
  run_nil: "greedy_run I w T a [] a"
| run_step: "greedy_run I w T a ms b \<Longrightarrow> is_greedy I w b m \<Longrightarrow> greedy_run I w T a (ms @ [m]) (rotate_step w T m b)"

lemma greedy_run_count:
  "greedy_run I w T a ms b \<Longrightarrow> b i = a i + int (length ms) * w i - int (count_list ms i) * T"
  by (induction rule: greedy_run.induct) (auto simp: rotate_step_def algebra_simps)

lemma greedy_run_sum:
  "greedy_run I w T a ms b \<Longrightarrow> finite I \<Longrightarrow> T = sum w I \<Longrightarrow> sum b I = sum a I"
  by (induction rule: greedy_run.induct) (auto simp: rotate_step_sum is_greedy_def)

lemma greedy_run_lower:
  "greedy_run I w T a ms b \<Longrightarrow> finite I \<Longrightarrow> T = sum w I \<Longrightarrow> 0 < T \<Longrightarrow> 0 \<le> sum a I \<Longrightarrow> \<forall>i\<in>I. 0 \<le> w i \<Longrightarrow>
   \<forall>i\<in>I. L \<le> a i \<Longrightarrow> L \<le> 1 - T \<Longrightarrow> \<forall>i\<in>I. L \<le> b i"
proof (induction rule: greedy_run.induct)
  case (run_step a ms b m)
  then have "0 \<le> sum b I" using greedy_run_sum by metis
  then show ?case using run_step by (intro rotate_step_lower) auto
qed simp

lemma greedy_run_avg:
  "greedy_run I w T a ms b \<Longrightarrow> finite I \<Longrightarrow> T = sum w I \<Longrightarrow> \<forall>i\<in>I. 0 \<le> w i \<Longrightarrow>
   avg_bounded I T D a \<Longrightarrow> avg_bounded I T D b"
  by (induction rule: greedy_run.induct) (auto intro: rotate_step_avg_bounded)

lemma greedy_run_upper:
  assumes "greedy_run I w T a ms b" "finite I" "T = sum w I" "0 < T" "\<forall>i\<in>I. 0 \<le> w i"
    and "\<forall>i\<in>I. a i \<le> D" "card I \<le> 2 ^ k" "i \<in> I"
  shows "b i \<le> D + T * int k"
proof -
  have "avg_bounded I T (real_of_int D) a" using assms by (intro avg_bounded_init) auto
  then have "avg_bounded I T (real_of_int D) b" using assms greedy_run_avg by blast
  then have "real_of_int (b i) \<le> real_of_int D + real_of_int T * real k"
    using assms by (intro avg_bounded_single) auto
  then have "real_of_int (b i) \<le> real_of_int (D + T * int k)" by simp
  then show ?thesis by linarith
qed

text \<open>How often an index pays in a run is its share of the steps, up to a constant.\<close>

lemma greedy_run_fair:
  assumes "greedy_run I w T a ms b" "finite I" "T = sum w I" "0 < T" "0 \<le> sum a I" "\<forall>i\<in>I. 0 \<le> w i"
    and "\<forall>i\<in>I. - D \<le> a i \<and> a i \<le> D" "T \<le> D" "card I \<le> 2 ^ k" "i \<in> I"
  shows "\<bar>int (count_list ms i) * T - int (length ms) * w i\<bar> \<le> 2 * D + T * int k"
proof -
  have "b i \<le> D + T * int k" using assms by (intro greedy_run_upper [where ms = ms and a = a and w = w]) auto
  moreover have "- D \<le> b i" using greedy_run_lower [OF assms(1), of "- D"] assms by auto
  moreover have "- D \<le> a i" "a i \<le> D" using assms by auto
  moreover have "0 \<le> T * int k" using assms(4) by simp
  ultimately show ?thesis using greedy_run_count [OF assms(1), of i] by linarith
qed

end
