(* ===== verification/Validators.thy ===== *)
theory Validators
  imports Keys Merkle Safe_Math
begin

text \<open>
  Validators and validator sets: \<^verbatim>\<open>types/validator.go\<close> and \<^verbatim>\<open>types/validator_set.go\<close>
  up to the change-set algorithm, which is in the theory of validator updates. A set is a record of
  the validators in order, the proposer, the cached total power and the key-type flag; methods that
  write through the receiver return the changed set.

  \<^verbatim>\<open>Proposer\<close> is a pointer. It points at an element of the set after the priorities were
  incremented, and then sees later changes of that element, or at a validator that is no longer in
  the set or was decoded separately. \<open>proposer_ref\<close> keeps the two cases apart. A copied set shares
  the pointer with the original; the copy's proposer is recorded with the value it has at the copy.
\<close>

section \<open>Validator\<close>

record Validator =
  vaAddress :: bytes
  vaPubKey :: "PubKey option"
  vaPower :: int
  vaPriority :: int

definition nil_pointer :: string where
  "nil_pointer = ''invalid memory address or nil pointer dereference''"

definition NewValidator :: "'a key_prims_scheme \<Rightarrow> PubKey option \<Rightarrow> int \<Rightarrow> Validator outcome" where
  "NewValidator env pubKey votingPower =
     (case pubKey of None \<Rightarrow> Panic nil_pointer
      | Some k \<Rightarrow> bindo (PubKey_Address env k) (\<lambda>addr.
          Ok \<lparr>vaAddress = addr, vaPubKey = pubKey, vaPower = votingPower, vaPriority = 0\<rparr>))"

definition ErrUnsupportedPubKeyType :: err where "ErrUnsupportedPubKeyType = ErrNew ''unsupported pubkey type''"

definition Validator_ValidateBasic :: "'a key_prims_scheme \<Rightarrow> Validator option \<Rightarrow> unit outcome" where
  "Validator_ValidateBasic env v =
     (case v of None \<Rightarrow> Err (ErrNew ''nil validator'')
      | Some val \<Rightarrow>
          (case vaPubKey val of None \<Rightarrow> Err (ErrNew ''validator does not have a public key'')
           | Some k \<Rightarrow>
               if vaPower val < 0 then Err (ErrNew ''validator has negative voting power'')
               else bindo (PubKey_Address env k) (\<lambda>addr.
                 if vaAddress val \<noteq> addr
                   then Err (ErrNew ''validator address is incorrectly derived from pubkey'')
                 else if \<not> IsSupported (PubKey_Type k) then Err ErrUnsupportedPubKeyType
                 else Ok ())))"

text \<open>
  \<^verbatim>\<open>CompareProposerPriority\<close> returns one of its two pointers: \<open>True\<close> stands for the
  receiver, \<open>False\<close> for the argument.
\<close>

definition CompareProposerPriority :: "Validator option \<Rightarrow> Validator \<Rightarrow> bool outcome" where
  "CompareProposerPriority v other =
     (case v of None \<Rightarrow> Ok False
      | Some w \<Rightarrow>
          if vaPriority w > vaPriority other then Ok True
          else if vaPriority w < vaPriority other then Ok False
          else
            let result = bytes_compare (vaAddress w) (vaAddress other) in
            if result < 0 then Ok True
            else if result > 0 then Ok False
            else Panic ''Cannot compare identical validators'')"

text \<open>The bytes that are hashed; the generated encoder of the pair of key and power is \<open>mar\<close>.\<close>

definition Validator_Bytes :: "(PublicKeyProto \<Rightarrow> int \<Rightarrow> bytes outcome) \<Rightarrow> Validator \<Rightarrow> bytes outcome" where
  "Validator_Bytes mar v =
     (case PubKeyToProto (vaPubKey v) of
        Err _ \<Rightarrow> Panic ''unsupported key''
      | Panic s \<Rightarrow> Panic s
      | Ok pk \<Rightarrow> (case mar pk (vaPower v) of Err _ \<Rightarrow> Panic ''marshal'' | r \<Rightarrow> r))"

record ValidatorProto =
  pvAddress :: bytes
  pvPubKey :: "PublicKeyProto option"
  pvPower :: int
  pvPriority :: int
  pvKeyBytes :: bytes
  pvKeyType :: string

definition Validator_ToProto :: "Validator option \<Rightarrow> ValidatorProto outcome" where
  "Validator_ToProto v =
     (case v of None \<Rightarrow> Err (ErrNew ''nil validator'')
      | Some val \<Rightarrow>
          (case vaPubKey val of None \<Rightarrow> Err (ErrNew ''nil pubkey'')
           | Some k \<Rightarrow> Ok \<lparr>pvAddress = vaAddress val, pvPubKey = None, pvPower = vaPower val,
                         pvPriority = vaPriority val, pvKeyBytes = PubKey_Bytes k, pvKeyType = PubKey_Type k\<rparr>))"

definition ValidatorFromProto :: "ValidatorProto option \<Rightarrow> Validator outcome" where
  "ValidatorFromProto vp =
     (case vp of None \<Rightarrow> Err (ErrNew ''nil validator'')
      | Some p \<Rightarrow>
          bindo (case PubKeyFromTypeAndBytes (pvKeyType p) (pvKeyBytes p) of
                   Err _ \<Rightarrow> (case pvPubKey p of None \<Rightarrow> Panic nil_pointer | Some pk \<Rightarrow> PubKeyFromProto pk)
                 | r \<Rightarrow> r) (\<lambda>pk.
          Ok \<lparr>vaAddress = pvAddress p, vaPubKey = Some pk, vaPower = pvPower p, vaPriority = pvPriority p\<rparr>))"

section \<open>Validator sets\<close>

datatype proposer_ref = NoProposer | InSet bytes | Detached Validator

record ValidatorSet =
  vsValidators :: "Validator list"
  vsProposer :: proposer_ref
  vsTotal :: int
  vsSameType :: bool

definition MaxTotalVotingPower :: int where "MaxTotalVotingPower = quot MaxInt64 8"
definition PriorityWindowSizeFactor :: int where "PriorityWindowSizeFactor = 2"

definition ErrTotalVotingPowerOverflow :: err where
  "ErrTotalVotingPowerOverflow = ErrFmt ''total voting power of resulting valset exceeds max'' [MaxTotalVotingPower]"

definition ErrProposerNotInVals :: err where "ErrProposerNotInVals = ErrNew ''proposer not in validator set''"

lemma MaxTotalVotingPower_val [simp]: "MaxTotalVotingPower = 1152921504606846975"
  by (simp add: MaxTotalVotingPower_def quot_nonneg)

definition addr_is :: "bytes \<Rightarrow> Validator \<Rightarrow> bool" where
  "addr_is a v \<longleftrightarrow> vaAddress v = a"

text \<open>What the proposer pointer points at.\<close>

definition Proposer :: "ValidatorSet \<Rightarrow> Validator option" where
  "Proposer vals =
     (case vsProposer vals of
        NoProposer \<Rightarrow> None
      | InSet a \<Rightarrow> find (addr_is a) (vsValidators vals)
      | Detached v \<Rightarrow> Some v)"

definition ValidatorSet_IsNilOrEmpty :: "ValidatorSet option \<Rightarrow> bool" where
  "ValidatorSet_IsNilOrEmpty vals =
     (case vals of None \<Rightarrow> True | Some v \<Rightarrow> length (vsValidators v) = 0)"

fun validate_each :: "'a key_prims_scheme \<Rightarrow> int \<Rightarrow> Validator list \<Rightarrow> unit outcome" where
  "validate_each env idx [] = Ok ()"
| "validate_each env idx (v # vs) =
     (case Validator_ValidateBasic env (Some v) of
        Err e \<Rightarrow> Err (ErrWrap ''invalid validator #'' e)
      | Panic s \<Rightarrow> Panic s
      | Ok _ \<Rightarrow> validate_each env (idx + 1) vs)"

definition ValidatorSet_ValidateBasic :: "'a key_prims_scheme \<Rightarrow> ValidatorSet option \<Rightarrow> unit outcome" where
  "ValidatorSet_ValidateBasic env vals =
     (case vals of None \<Rightarrow> Err (ErrNew ''validator set is nil or empty'')
      | Some vs \<Rightarrow>
          if ValidatorSet_IsNilOrEmpty (Some vs) then Err (ErrNew ''validator set is nil or empty'')
          else bindo (validate_each env 0 (vsValidators vs)) (\<lambda>_.
            case Validator_ValidateBasic env (Proposer vs) of
              Err e \<Rightarrow> Err (ErrWrap ''proposer failed validate basic'' e)
            | Panic s \<Rightarrow> Panic s
            | Ok _ \<Rightarrow>
                (case Proposer vs of None \<Rightarrow> Panic nil_pointer
                 | Some p \<Rightarrow> if list_ex (addr_is (vaAddress p)) (vsValidators vs) then Ok () else Err ErrProposerNotInVals)))"

definition ValidatorSet_Copy :: "ValidatorSet \<Rightarrow> ValidatorSet" where
  "ValidatorSet_Copy vals =
     vals\<lparr>vsProposer := (case Proposer vals of None \<Rightarrow> NoProposer | Some p \<Rightarrow> Detached p)\<rparr>"

definition ValidatorSet_HasAddress :: "ValidatorSet \<Rightarrow> bytes \<Rightarrow> bool" where
  "ValidatorSet_HasAddress vals a = list_ex (addr_is a) (vsValidators vals)"

fun find_address :: "int \<Rightarrow> bytes \<Rightarrow> Validator list \<Rightarrow> int \<times> Validator option" where
  "find_address idx a [] = (-1, None)"
| "find_address idx a (v # vs) = (if vaAddress v = a then (wrap32 idx, Some v) else find_address (idx + 1) a vs)"

definition ValidatorSet_GetByAddressMut :: "ValidatorSet \<Rightarrow> bytes \<Rightarrow> int \<times> Validator option" where
  "ValidatorSet_GetByAddressMut vals a = find_address 0 a (vsValidators vals)"

definition ValidatorSet_GetByAddress :: "ValidatorSet \<Rightarrow> bytes \<Rightarrow> int \<times> Validator option" where
  "ValidatorSet_GetByAddress vals a =
     (let (i, val) = ValidatorSet_GetByAddressMut vals a in if i = -1 then (-1, None) else (i, val))"

definition ValidatorSet_GetByIndex :: "ValidatorSet \<Rightarrow> int \<Rightarrow> (bytes \<times> Validator) option" where
  "ValidatorSet_GetByIndex vals index =
     (if index < 0 \<or> index \<ge> int (length (vsValidators vals)) then None
      else let val = vsValidators vals ! nat index in Some (vaAddress val, val))"

definition ValidatorSet_Size :: "ValidatorSet \<Rightarrow> int" where
  "ValidatorSet_Size vals = int (length (vsValidators vals))"

subsection \<open>Total voting power\<close>

fun power_loop :: "int \<Rightarrow> Validator list \<Rightarrow> int outcome" where
  "power_loop sm [] = Ok sm"
| "power_loop sm (v # vs) =
     (let sm' = safeAddClip sm (vaPower v) in
      if sm' > MaxTotalVotingPower then Panic ''Total voting power should be guarded to not exceed''
      else power_loop sm' vs)"

definition ValidatorSet_updateTotalVotingPower :: "ValidatorSet \<Rightarrow> ValidatorSet outcome" where
  "ValidatorSet_updateTotalVotingPower vals =
     bindo (power_loop 0 (vsValidators vals)) (\<lambda>sm. Ok (vals\<lparr>vsTotal := sm\<rparr>))"

definition ValidatorSet_TotalVotingPower :: "ValidatorSet \<Rightarrow> (ValidatorSet \<times> int) outcome" where
  "ValidatorSet_TotalVotingPower vals =
     bindo (if vsTotal vals = 0 then ValidatorSet_updateTotalVotingPower vals else Ok vals) (\<lambda>vals'.
     Ok (vals', vsTotal vals'))"

subsection \<open>Proposer priorities\<close>

definition set_priority :: "int \<Rightarrow> Validator \<Rightarrow> Validator" where
  "set_priority p v = v\<lparr>vaPriority := p\<rparr>"

fun max_min_loop :: "int \<Rightarrow> int \<Rightarrow> Validator list \<Rightarrow> int \<times> int" where
  "max_min_loop mx mn [] = (mx, mn)"
| "max_min_loop mx mn (v # vs) =
     max_min_loop (if vaPriority v > mx then vaPriority v else mx)
                  (if vaPriority v < mn then vaPriority v else mn) vs"

definition computeMaxMinPriorityDiff :: "ValidatorSet \<Rightarrow> int outcome" where
  "computeMaxMinPriorityDiff vals =
     (if ValidatorSet_IsNilOrEmpty (Some vals) then Panic ''empty validator set''
      else
        let (mx, mn) = max_min_loop MinInt64 MaxInt64 (vsValidators vals);
            diff = wrap64 (mx - mn)
        in Ok (if diff < 0 then wrap64 (-1 * diff) else diff))"

definition ValidatorSet_RescalePriorities :: "ValidatorSet \<Rightarrow> int \<Rightarrow> ValidatorSet outcome" where
  "ValidatorSet_RescalePriorities vals diffMax =
     (if ValidatorSet_IsNilOrEmpty (Some vals) then Panic ''empty validator set''
      else if diffMax \<le> 0 then Ok vals
      else
        bindo (computeMaxMinPriorityDiff vals) (\<lambda>diff.
        let ratio = quot (wrap64 (wrap64 (diff + diffMax) - 1)) diffMax in
        if diff > diffMax then
          (if ratio = 0 then Panic ''integer divide by zero''
           else Ok (vals\<lparr>vsValidators :=
             map (\<lambda>v. set_priority (wrap64 (quot (vaPriority v) ratio)) v) (vsValidators vals)\<rparr>))
        else Ok vals))"

text \<open>\<^verbatim>\<open>big.Int.Div\<close> is Euclidean division, which for a positive divisor is \<open>div\<close>.\<close>

definition ValidatorSet_computeAvgProposerPriority :: "ValidatorSet \<Rightarrow> int outcome" where
  "ValidatorSet_computeAvgProposerPriority vals =
     (let n = int (length (vsValidators vals));
          sm = sum_list (map vaPriority (vsValidators vals))
      in if n = 0 then Panic ''division by zero''
         else let avg = sm div n in
           if in64 avg then Ok avg else Panic ''Cannot represent avg ProposerPriority as an int64'')"

definition ValidatorSet_shiftByAvgProposerPriority :: "ValidatorSet \<Rightarrow> ValidatorSet outcome" where
  "ValidatorSet_shiftByAvgProposerPriority vals =
     (if ValidatorSet_IsNilOrEmpty (Some vals) then Panic ''empty validator set''
      else bindo (ValidatorSet_computeAvgProposerPriority vals) (\<lambda>avg.
        Ok (vals\<lparr>vsValidators := map (\<lambda>v. set_priority (safeSubClip (vaPriority v) avg) v) (vsValidators vals)\<rparr>)))"

text \<open>The result is the position of the validator found, \<open>None\<close> for the nil pointer of an empty set.\<close>

fun most_loop :: "nat \<Rightarrow> (nat \<times> Validator) option \<Rightarrow> Validator list \<Rightarrow> (nat \<times> Validator) option outcome" where
  "most_loop i res [] = Ok res"
| "most_loop i res (val # vs) =
     bindo (CompareProposerPriority (map_option snd res) val) (\<lambda>keep.
     most_loop (Suc i) (if keep then res else Some (i, val)) vs)"

definition ValidatorSet_getValWithMostPriority :: "ValidatorSet \<Rightarrow> (nat \<times> Validator) option outcome" where
  "ValidatorSet_getValWithMostPriority vals = most_loop 0 None (vsValidators vals)"

text \<open>The set after one increment and the address of the validator that was decremented.\<close>

definition ValidatorSet_incrementProposerPriority :: "ValidatorSet \<Rightarrow> (ValidatorSet \<times> bytes) outcome" where
  "ValidatorSet_incrementProposerPriority vals =
     (let vals1 = vals\<lparr>vsValidators :=
            map (\<lambda>v. set_priority (safeAddClip (vaPriority v) (vaPower v)) v) (vsValidators vals)\<rparr>
      in bindo (ValidatorSet_getValWithMostPriority vals1) (\<lambda>mostest.
         case mostest of None \<Rightarrow> Panic nil_pointer
         | Some (i, m) \<Rightarrow>
             bindo (ValidatorSet_TotalVotingPower vals1) (\<lambda>(vals2, tot).
             Ok (vals2\<lparr>vsValidators := (vsValidators vals2)[i := set_priority (safeSubClip (vaPriority m) tot) m]\<rparr>,
                 vaAddress m))))"

fun increment_loop :: "nat \<Rightarrow> ValidatorSet \<Rightarrow> proposer_ref \<Rightarrow> (ValidatorSet \<times> proposer_ref) outcome" where
  "increment_loop 0 vals pr = Ok (vals, pr)"
| "increment_loop (Suc n) vals pr =
     bindo (ValidatorSet_incrementProposerPriority vals) (\<lambda>(vals', a). increment_loop n vals' (InSet a))"

definition ValidatorSet_IncrementProposerPriority :: "ValidatorSet \<Rightarrow> int \<Rightarrow> ValidatorSet outcome" where
  "ValidatorSet_IncrementProposerPriority vals n =
     (if ValidatorSet_IsNilOrEmpty (Some vals) then Panic ''empty validator set''
      else if n \<le> 0 then Panic ''Cannot call IncrementProposerPriority with non-positive times''
      else
        bindo (ValidatorSet_TotalVotingPower vals) (\<lambda>(vals1, tot).
        bindo (ValidatorSet_RescalePriorities vals1 (wrap64 (PriorityWindowSizeFactor * tot))) (\<lambda>vals2.
        bindo (ValidatorSet_shiftByAvgProposerPriority vals2) (\<lambda>vals3.
        bindo (increment_loop (nat n) vals3 NoProposer) (\<lambda>(vals4, proposer).
        Ok (vals4\<lparr>vsProposer := proposer\<rparr>))))))"

definition ValidatorSet_CopyIncrementProposerPriority :: "ValidatorSet \<Rightarrow> int \<Rightarrow> ValidatorSet outcome" where
  "ValidatorSet_CopyIncrementProposerPriority vals n =
     ValidatorSet_IncrementProposerPriority (ValidatorSet_Copy vals) n"

subsection \<open>Finding the proposer\<close>

fun find_proposer_loop :: "Validator option \<Rightarrow> Validator list \<Rightarrow> Validator option outcome" where
  "find_proposer_loop pr [] = Ok pr"
| "find_proposer_loop pr (val # vs) =
     (case pr of
        Some p \<Rightarrow>
          if vaAddress val \<noteq> vaAddress p then
            bindo (CompareProposerPriority pr val) (\<lambda>keep. find_proposer_loop (if keep then pr else Some val) vs)
          else find_proposer_loop pr vs
      | None \<Rightarrow>
          bindo (CompareProposerPriority None val) (\<lambda>keep. find_proposer_loop (if keep then pr else Some val) vs))"

definition ValidatorSet_findProposer :: "ValidatorSet \<Rightarrow> Validator option outcome" where
  "ValidatorSet_findProposer vals = find_proposer_loop None (vsValidators vals)"

definition ValidatorSet_GetProposer :: "ValidatorSet \<Rightarrow> (ValidatorSet \<times> Validator option) outcome" where
  "ValidatorSet_GetProposer vals =
     (if length (vsValidators vals) = 0 then Ok (vals, None)
      else
        bindo (case vsProposer vals of
                 NoProposer \<Rightarrow> bindo (ValidatorSet_findProposer vals) (\<lambda>p.
                   Ok (vals\<lparr>vsProposer := (case p of None \<Rightarrow> NoProposer | Some v \<Rightarrow> InSet (vaAddress v))\<rparr>))
               | _ \<Rightarrow> Ok vals) (\<lambda>vals'.
        case Proposer vals' of None \<Rightarrow> Panic nil_pointer | Some p \<Rightarrow> Ok (vals', Some p)))"

fun previous_proposer_loop :: "Validator option \<Rightarrow> Validator list \<Rightarrow> Validator option outcome" where
  "previous_proposer_loop prev [] = Ok prev"
| "previous_proposer_loop prev (val # vs) =
     (case prev of
        None \<Rightarrow> previous_proposer_loop (Some val) vs
      | Some _ \<Rightarrow> bindo (CompareProposerPriority prev val) (\<lambda>keep.
          previous_proposer_loop (if keep then Some val else prev) vs))"

definition ValidatorSet_findPreviousProposer :: "ValidatorSet \<Rightarrow> Validator option outcome" where
  "ValidatorSet_findPreviousProposer vals = previous_proposer_loop None (vsValidators vals)"

subsection \<open>Hashes\<close>

fun bytes_of_all :: "(PublicKeyProto \<Rightarrow> int \<Rightarrow> bytes outcome) \<Rightarrow> Validator list \<Rightarrow> bytes list outcome" where
  "bytes_of_all mar [] = Ok []"
| "bytes_of_all mar (v # vs) =
     bindo (Validator_Bytes mar v) (\<lambda>bz. bindo (bytes_of_all mar vs) (\<lambda>bzs. Ok (bz # bzs)))"

definition ValidatorSet_Hash ::
  "(bytes \<Rightarrow> bytes) \<Rightarrow> (PublicKeyProto \<Rightarrow> int \<Rightarrow> bytes outcome) \<Rightarrow> ValidatorSet \<Rightarrow> bytes outcome" where
  "ValidatorSet_Hash sha mar vals =
     bindo (bytes_of_all mar (vsValidators vals)) (\<lambda>bzs. Ok (HashFromByteSlices sha bzs))"

text \<open>\<^verbatim>\<open>binary.PutVarint\<close>: zig-zag, then seven bits per byte, least significant first.\<close>

function uvarint :: "nat \<Rightarrow> bytes" where
  "uvarint x = (if x < 128 then [of_nat x] else of_nat (x mod 128 + 128) # uvarint (x div 128))"
  by pat_completeness auto
termination
  by (relation "measure id") auto

declare uvarint.simps [simp del]

definition zigzag :: "int \<Rightarrow> nat" where
  "zigzag x = (if x < 0 then nat (- 2 * x - 1) else nat (2 * x))"

definition PutVarint :: "int \<Rightarrow> bytes" where
  "PutVarint x = uvarint (zigzag x)"

definition put_front :: "bytes \<Rightarrow> bytes \<Rightarrow> bytes" where
  "put_front buf bz = bz @ drop (length bz) buf"

definition MaxVarintLen64 :: nat where "MaxVarintLen64 = 10"

text \<open>Every priority is written at the front of the buffer; only the running total advances.\<close>

definition ValidatorSet_ProposerPriorityHash :: "(bytes \<Rightarrow> bytes) \<Rightarrow> ValidatorSet \<Rightarrow> bytes" where
  "ValidatorSet_ProposerPriorityHash sha vals =
     (if length (vsValidators vals) = 0 then []
      else
        let buf = replicate (MaxVarintLen64 * length (vsValidators vals)) 0;
            (buf', tot) = foldl (\<lambda>(b, n) v. (put_front b (PutVarint (vaPriority v)), n + length (PutVarint (vaPriority v))))
                            (buf, 0) (vsValidators vals)
        in sha (take tot buf'))"

subsection \<open>Key types\<close>

fun same_type_loop :: "string \<Rightarrow> Validator list \<Rightarrow> bool outcome" where
  "same_type_loop first [] = Ok True"
| "same_type_loop first (val # vs) =
     (if first = [] then
        (case vaPubKey val of
           None \<Rightarrow> same_type_loop first vs
         | Some k \<Rightarrow> same_type_loop (PubKey_Type k) vs)
      else
        (case vaPubKey val of
           None \<Rightarrow> Panic nil_pointer
         | Some k \<Rightarrow> if PubKey_Type k \<noteq> first then Ok False else same_type_loop first vs))"

definition ValidatorSet_checkAllKeysHaveSameType :: "ValidatorSet \<Rightarrow> ValidatorSet outcome" where
  "ValidatorSet_checkAllKeysHaveSameType vals =
     (if ValidatorSet_Size vals = 0 then Ok (vals\<lparr>vsSameType := True\<rparr>)
      else bindo (same_type_loop [] (vsValidators vals)) (\<lambda>b. Ok (vals\<lparr>vsSameType := b\<rparr>)))"

section \<open>Sorting\<close>

text \<open>
  \<^verbatim>\<open>sort.Sort\<close> with the two orders of the sources, as insertion with the order's
  \<^verbatim>\<open>Less\<close>. Elements with distinct addresses are never equivalent under either order, so the
  sorted sequence of such elements is unique and does not depend on the algorithm.
\<close>

definition less_by_address :: "Validator \<Rightarrow> Validator \<Rightarrow> bool" where
  "less_by_address a b \<longleftrightarrow> bytes_compare (vaAddress a) (vaAddress b) = -1"

definition less_by_power :: "Validator \<Rightarrow> Validator \<Rightarrow> bool" where
  "less_by_power a b \<longleftrightarrow>
     (if vaPower a = vaPower b then bytes_compare (vaAddress a) (vaAddress b) = -1 else vaPower a > vaPower b)"

fun insert_by :: "('x \<Rightarrow> 'x \<Rightarrow> bool) \<Rightarrow> 'x \<Rightarrow> 'x list \<Rightarrow> 'x list" where
  "insert_by lt x [] = [x]"
| "insert_by lt x (y # ys) = (if lt y x then y # insert_by lt x ys else x # y # ys)"

definition sort_by :: "('x \<Rightarrow> 'x \<Rightarrow> bool) \<Rightarrow> 'x list \<Rightarrow> 'x list" where
  "sort_by lt xs = foldr (insert_by lt) xs []"

section \<open>Protobuf conversion\<close>

record ValidatorSetProto =
  pvsValidators :: "ValidatorProto option list"
  pvsProposer :: "ValidatorProto option"
  pvsTotal :: int

fun to_proto_all :: "Validator list \<Rightarrow> ValidatorProto option list outcome" where
  "to_proto_all [] = Ok []"
| "to_proto_all (v # vs) =
     bindo (Validator_ToProto (Some v)) (\<lambda>p. bindo (to_proto_all vs) (\<lambda>ps. Ok (Some p # ps)))"

fun from_proto_all :: "ValidatorProto option list \<Rightarrow> Validator list outcome" where
  "from_proto_all [] = Ok []"
| "from_proto_all (p # ps) =
     bindo (ValidatorFromProto p) (\<lambda>v. bindo (from_proto_all ps) (\<lambda>vs. Ok (v # vs)))"

definition ValidatorSet_ToProto :: "ValidatorSet option \<Rightarrow> ValidatorSetProto outcome" where
  "ValidatorSet_ToProto vals =
     (case vals of
        None \<Rightarrow> Ok \<lparr>pvsValidators = [], pvsProposer = None, pvsTotal = 0\<rparr>
      | Some vs \<Rightarrow>
          if ValidatorSet_IsNilOrEmpty vals then Ok \<lparr>pvsValidators = [], pvsProposer = None, pvsTotal = 0\<rparr>
          else bindo (to_proto_all (vsValidators vs)) (\<lambda>ps.
            case Validator_ToProto (Proposer vs) of
              Err e \<Rightarrow> Err (ErrWrap ''toProto: validatorSet proposer error'' e)
            | Panic s \<Rightarrow> Panic s
            | Ok pp \<Rightarrow> Ok \<lparr>pvsValidators = ps, pvsProposer = Some pp, pvsTotal = 0\<rparr>))"

definition ValidatorSetFromProto :: "'a key_prims_scheme \<Rightarrow> ValidatorSetProto option \<Rightarrow> ValidatorSet outcome" where
  "ValidatorSetFromProto env vp =
     (case vp of None \<Rightarrow> Err (ErrNew ''nil validator set'')
      | Some p \<Rightarrow>
          bindo (from_proto_all (pvsValidators p)) (\<lambda>vs.
          bindo (ValidatorSet_checkAllKeysHaveSameType
                   \<lparr>vsValidators = vs, vsProposer = NoProposer, vsTotal = 0, vsSameType = False\<rparr>) (\<lambda>vals.
          case ValidatorFromProto (pvsProposer p) of
            Err e \<Rightarrow> Err (ErrWrap ''fromProto: validatorSet proposer error'' e)
          | Panic s \<Rightarrow> Panic s
          | Ok pr \<Rightarrow>
              bindo (ValidatorSet_TotalVotingPower (vals\<lparr>vsProposer := Detached pr\<rparr>)) (\<lambda>(vals', _).
              bindo (ValidatorSet_ValidateBasic env (Some vals')) (\<lambda>_. Ok vals')))))"

definition ValidatorSetFromExistingValidators :: "'a key_prims_scheme \<Rightarrow> Validator list \<Rightarrow> ValidatorSet outcome" where
  "ValidatorSetFromExistingValidators env valz =
     (if length valz = 0 then Err (ErrNew ''validator set is empty'')
      else
        bindo (each (\<lambda>v. case Validator_ValidateBasic env (Some v) of
                 Err e \<Rightarrow> Err (ErrWrap ''can't create validator set'' e) | r \<Rightarrow> r) valz) (\<lambda>_.
        bindo (ValidatorSet_checkAllKeysHaveSameType
                 \<lparr>vsValidators = valz, vsProposer = NoProposer, vsTotal = 0, vsSameType = False\<rparr>) (\<lambda>vals.
        bindo (ValidatorSet_findPreviousProposer vals) (\<lambda>pp.
        bindo (ValidatorSet_updateTotalVotingPower
                 (vals\<lparr>vsProposer := (case pp of None \<Rightarrow> NoProposer | Some v \<Rightarrow> InSet (vaAddress v))\<rparr>)) (\<lambda>vals'.
        Ok (vals'\<lparr>vsValidators := sort_by less_by_power (vsValidators vals')\<rparr>))))))"

section \<open>What the priority hash covers\<close>

lemma PutVarint_small: "-64 \<le> x \<Longrightarrow> x \<le> 63 \<Longrightarrow> PutVarint x = [of_nat (zigzag x)]"
proof -
  assume "-64 \<le> x" "x \<le> 63"
  then have "zigzag x < 128" by (simp add: zigzag_def nat_less_iff)
  then show ?thesis by (simp add: PutVarint_def uvarint.simps [of "zigzag x"])
qed

definition put_priority :: "bytes \<times> nat \<Rightarrow> Validator \<Rightarrow> bytes \<times> nat" where
  "put_priority = (\<lambda>(b, n) v. (put_front b (PutVarint (vaPriority v)), n + length (PutVarint (vaPriority v))))"

lemma foldl_put_priority:
  assumes "\<forall>v\<in>set vs. -64 \<le> vaPriority v \<and> vaPriority v \<le> 63"
  shows "foldl put_priority (buf, k) vs =
    (if vs = [] then buf else PutVarint (vaPriority (last vs)) @ drop 1 buf, k + length vs)"
  using assms
proof (induction vs rule: rev_induct)
  case (snoc v vs)
  then have "PutVarint (vaPriority v) = [of_nat (zigzag (vaPriority v))]" by (intro PutVarint_small) auto
  then show ?case using snoc by (auto simp: put_priority_def put_front_def PutVarint_small split: if_splits)
qed simp

lemma ProposerPriorityHash_small:
  assumes "vsValidators vals \<noteq> []" "\<forall>v\<in>set (vsValidators vals). -64 \<le> vaPriority v \<and> vaPriority v \<le> 63"
  shows "ValidatorSet_ProposerPriorityHash sha vals =
    sha (take (length (vsValidators vals))
          (PutVarint (vaPriority (last (vsValidators vals))) @ replicate (10 * length (vsValidators vals) - 1) 0))"
proof -
  have "ValidatorSet_ProposerPriorityHash sha vals =
      (let (b, n) = foldl put_priority (replicate (10 * length (vsValidators vals)) 0, 0) (vsValidators vals) in sha (take n b))"
    using assms(1) by (simp add: ValidatorSet_ProposerPriorityHash_def put_priority_def MaxVarintLen64_def Let_def)
  then show ?thesis using assms by (simp add: foldl_put_priority)
qed

text \<open>C24. The hash of the proposer priorities covers only the last one and the number of validators, when every
  priority fits in one byte of the variable-length encoding: two sets of the same size whose last
  validators agree have the same hash, whatever the other priorities are and whatever the digest is.\<close>

theorem priority_hash_covers_last:
  assumes "length (vsValidators a) = length (vsValidators b)" and "vsValidators a \<noteq> []"
    and "\<forall>v\<in>set (vsValidators a) \<union> set (vsValidators b). -64 \<le> vaPriority v \<and> vaPriority v \<le> 63"
    and "vaPriority (last (vsValidators a)) = vaPriority (last (vsValidators b))"
  shows "ValidatorSet_ProposerPriorityHash sha a = ValidatorSet_ProposerPriorityHash sha b"
proof -
  have "vsValidators b \<noteq> []" using assms(1,2) by auto
  then show ?thesis using assms by (simp add: ProposerPriorityHash_small)
qed

definition prio_pair :: "int \<Rightarrow> int \<Rightarrow> ValidatorSet" where
  "prio_pair p q = \<lparr>vsValidators = [\<lparr>vaAddress = [1], vaPubKey = None, vaPower = 1, vaPriority = p\<rparr>,
       \<lparr>vaAddress = [2], vaPubKey = None, vaPower = 1, vaPriority = q\<rparr>],
     vsProposer = NoProposer, vsTotal = 2, vsSameType = True\<rparr>"

theorem priority_hash_covers_last_witness:
  "prio_pair 5 (-5) \<noteq> prio_pair 9 (-5) \<and>
   ValidatorSet_ProposerPriorityHash id (prio_pair 5 (-5)) = ValidatorSet_ProposerPriorityHash id (prio_pair 9 (-5))"
  using priority_hash_covers_last [of "prio_pair 5 (-5)" "prio_pair 9 (-5)" id] by (simp add: prio_pair_def)

end
