(* ===== verification/Proposer_Rotation.thy ===== *)
theory Proposer_Rotation
  imports Validators Rotation
begin

text \<open>
  Correctness of the proposer rotation of \<^verbatim>\<open>types/validator_set.go\<close>: on a well-formed set the
  cached total is the sum of the powers, rescaling and centering put the priorities within twice the
  total, an increment is a greedy rotation step computed without clipping, and therefore the choice
  of proposers is proportional to the powers.
\<close>

section \<open>Well-formed sets\<close>

definition total_power :: "Validator list \<Rightarrow> int" where
  "total_power vs = sum_list (map vaPower vs)"

definition valid_vals :: "Validator list \<Rightarrow> bool" where
  "valid_vals vs \<longleftrightarrow>
     vs \<noteq> [] \<and> distinct (map vaAddress vs) \<and> (\<forall>v\<in>set vs. 0 < vaPower v \<and> in64 (vaPriority v)) \<and>
     total_power vs \<le> MaxTotalVotingPower"

definition valid_set :: "ValidatorSet \<Rightarrow> bool" where
  "valid_set vals \<longleftrightarrow>
     valid_vals (vsValidators vals) \<and> (vsTotal vals = 0 \<or> vsTotal vals = total_power (vsValidators vals))"

lemma total_power_nonneg: "\<forall>v\<in>set vs. 0 < vaPower v \<Longrightarrow> 0 \<le> total_power vs"
  by (induction vs) (auto simp: total_power_def)

lemma total_power_member: "\<forall>v\<in>set vs. 0 < vaPower v \<Longrightarrow> v \<in> set vs \<Longrightarrow> vaPower v \<le> total_power vs"
  by (induction vs) (auto simp: total_power_def dest: total_power_nonneg [unfolded total_power_def])

lemma total_power_pos: "valid_vals vs \<Longrightarrow> 0 < total_power vs"
  using total_power_member [of vs "hd vs"] hd_in_set [of vs] unfolding valid_vals_def by (meson less_le_trans)

lemma power_loop_eq:
  "\<forall>v\<in>set vs. 0 < vaPower v \<Longrightarrow> 0 \<le> sm \<Longrightarrow> sm + total_power vs \<le> MaxTotalVotingPower \<Longrightarrow>
   power_loop sm vs = Ok (sm + total_power vs)"
proof (induction vs arbitrary: sm)
  case (Cons v vs)
  have "0 \<le> total_power vs" using Cons.prems by (intro total_power_nonneg) auto
  then have "safeAddClip sm (vaPower v) = sm + vaPower v"
    using Cons.prems by (auto simp: safeAddClip_eq in64_def total_power_def)
  then show ?case using Cons.prems Cons.IH [of "sm + vaPower v"] \<open>0 \<le> total_power vs\<close>
    by (auto simp: total_power_def Let_def)
qed (simp add: total_power_def)

lemma TotalVotingPower_eq:
  "valid_set vals \<Longrightarrow>
   ValidatorSet_TotalVotingPower vals =
     Ok (vals\<lparr>vsTotal := total_power (vsValidators vals)\<rparr>, total_power (vsValidators vals))"
  using power_loop_eq [of "vsValidators vals" 0]
  by (cases vals)
     (auto simp: valid_set_def valid_vals_def ValidatorSet_TotalVotingPower_def ValidatorSet_updateTotalVotingPower_def)

lemma set_priority_fields [simp]:
  "vaAddress (set_priority p v) = vaAddress v" "vaPubKey (set_priority p v) = vaPubKey v"
  "vaPower (set_priority p v) = vaPower v" "vaPriority (set_priority p v) = p"
  by (simp_all add: set_priority_def)

text \<open>Two lists that differ only in the priorities.\<close>

definition same_vals :: "Validator list \<Rightarrow> Validator list \<Rightarrow> bool" where
  "same_vals vs vs' \<longleftrightarrow> map (set_priority 0) vs' = map (set_priority 0) vs"

lemma same_vals_refl [simp]: "same_vals vs vs"
  by (simp add: same_vals_def)

lemma same_vals_trans: "same_vals a b \<Longrightarrow> same_vals b c \<Longrightarrow> same_vals a c"
  by (simp add: same_vals_def)

lemma same_vals_length: "same_vals vs vs' \<Longrightarrow> length vs' = length vs"
  unfolding same_vals_def by (metis length_map)

lemma set_priority_0_eq:
  "set_priority 0 v = set_priority 0 w \<longleftrightarrow> vaAddress v = vaAddress w \<and> vaPubKey v = vaPubKey w \<and> vaPower v = vaPower w"
  by (cases v; cases w) (auto simp: set_priority_def)

lemma same_vals_nth:
  assumes "same_vals vs vs'" "i < length vs"
  shows "vaAddress (vs' ! i) = vaAddress (vs ! i)" "vaPower (vs' ! i) = vaPower (vs ! i)"
    "vaPubKey (vs' ! i) = vaPubKey (vs ! i)"
proof -
  have "set_priority 0 (vs' ! i) = set_priority 0 (vs ! i)"
    using assms same_vals_length [OF assms(1)] unfolding same_vals_def by (metis nth_map)
  then show "vaAddress (vs' ! i) = vaAddress (vs ! i)" "vaPower (vs' ! i) = vaPower (vs ! i)"
    "vaPubKey (vs' ! i) = vaPubKey (vs ! i)" by (simp_all add: set_priority_0_eq)
qed

lemma same_vals_maps:
  assumes "same_vals vs vs'"
  shows "map vaAddress vs' = map vaAddress vs" "map vaPower vs' = map vaPower vs" "total_power vs' = total_power vs"
proof -
  have A: "map f vs' = map f vs" if f: "\<And>v. f (set_priority 0 v) = f v" for f :: "Validator \<Rightarrow> 'b"
  proof -
    have "map f (map (set_priority 0) vs') = map f (map (set_priority 0) vs)"
      using assms by (simp add: same_vals_def)
    then show ?thesis by (simp add: f comp_def)
  qed
  show "map vaAddress vs' = map vaAddress vs" "map vaPower vs' = map vaPower vs" "total_power vs' = total_power vs"
    unfolding total_power_def by (rule A, simp)+ (subst A; simp)
qed

lemma valid_vals_same:
  assumes "same_vals vs vs'" "valid_vals vs" "\<forall>v\<in>set vs'. in64 (vaPriority v)"
  shows "valid_vals vs'"
proof -
  note m = same_vals_maps [OF assms(1)]
  have "vaPower ` set vs' = vaPower ` set vs" using m(2) by (metis list.set_map)
  then have "\<forall>v\<in>set vs'. 0 < vaPower v" using assms(2) unfolding valid_vals_def by (metis imageE imageI)
  moreover have "vs' \<noteq> []" using assms same_vals_length by (fastforce simp: valid_vals_def)
  ultimately show ?thesis using assms(2,3) m by (simp add: valid_vals_def)
qed

lemma same_vals_map: "same_vals vs (map (\<lambda>v. set_priority (f v) v) vs)"
  by (simp add: same_vals_def comp_def set_priority_def)

section \<open>Rescaling and centering\<close>

lemma quot_le:
  assumes "0 < r" "x \<le> r * q" shows "quot x r \<le> q"
proof (cases "0 \<le> x")
  case True
  have "x div r \<le> (r * q) div r" using assms by (intro zdiv_mono1)
  then show ?thesis using True assms by (simp add: quot_nonneg)
next
  case False
  have "(- (q * r)) div r \<le> (- x) div r" using assms by (intro zdiv_mono1) (simp_all add: mult.commute)
  moreover have "(- (q * r)) div r = - q" using assms(1) by (simp flip: mult_minus_left)
  ultimately show ?thesis using False assms by (simp add: quot_neg)
qed

lemma quot_le_nonneg:
  assumes "0 < r" "0 \<le> q" "x < r * (q + 1)" shows "quot x r \<le> q"
proof (cases "0 \<le> x")
  case True
  have "\<not> q + 1 \<le> x div r" using assms by (simp add: le_div_iff_mult_le mult.commute)
  then show ?thesis using True assms by (simp add: quot_nonneg)
next
  case False
  then have "quot x r \<le> 0" using assms by (simp add: quot_neg pos_imp_zdiv_nonneg_iff)
  then show ?thesis using assms by linarith
qed

lemma quot_lower: "0 < r \<Longrightarrow> y < r * (quot y r + 1)"
proof (cases "0 \<le> y")
  case True
  assume r: "0 < r"
  have "y < r * (y div r) + r" using mult_div_mod_eq [of r y] pos_mod_bound [OF r, of y] by linarith
  then show ?thesis using True r by (simp add: quot_nonneg distrib_left)
next
  case False
  assume r: "0 < r"
  have "r * ((- y) div r) < - y + r" using mult_div_mod_eq [of r "- y"] pos_mod_sign [OF r, of "- y"] r by linarith
  then show ?thesis using False r by (simp add: quot_neg distrib_left right_diff_distrib)
qed

lemma quot_lower_neg: "0 < r \<Longrightarrow> y < 0 \<Longrightarrow> y \<le> r * quot y r"
proof -
  assume r: "0 < r" and y: "y < 0"
  have "r * ((- y) div r) \<le> - y" using mult_div_mod_eq [of r "- y"] pos_mod_sign [OF r, of "- y"] by linarith
  then show ?thesis using y r by (simp add: quot_neg)
qed

text \<open>Truncated division by \<open>r\<close> brings a distance of at most \<open>r * d\<close> down to at most \<open>d\<close>.\<close>

lemma quot_distance:
  assumes r: "0 < r" and d: "0 \<le> d" and xy: "x - y \<le> r * d"
  shows "quot x r - quot y r \<le> d"
proof (cases "0 \<le> quot y r + d")
  case True
  have "x < r * (quot y r + d + 1)" using quot_lower [OF r, of y] xy by (simp add: algebra_simps)
  then have "quot x r \<le> quot y r + d" by (rule quot_le_nonneg [OF r True])
  then show ?thesis by simp
next
  case False
  then have "quot y r < 0" using d by simp
  then have "y < 0" using r by (metis linorder_not_less pos_imp_zdiv_nonneg_iff quot_nonneg)
  then have "x \<le> r * (quot y r + d)" using quot_lower_neg [OF r, of y] xy by (simp add: algebra_simps)
  then have "quot x r \<le> quot y r + d" by (rule quot_le [OF r])
  then show ?thesis by simp
qed

definition spread_le :: "Validator list \<Rightarrow> int \<Rightarrow> bool" where
  "spread_le vs d \<longleftrightarrow> (\<forall>u\<in>set vs. \<forall>v\<in>set vs. vaPriority u - vaPriority v \<le> d)"

lemma max_min_loop_spec:
  "max_min_loop mx mn vs = (mx', mn') \<Longrightarrow>
   mx \<le> mx' \<and> mn' \<le> mn \<and> (\<forall>v\<in>set vs. mn' \<le> vaPriority v \<and> vaPriority v \<le> mx') \<and>
   (mx' = mx \<or> mx' \<in> vaPriority ` set vs) \<and> (mn' = mn \<or> mn' \<in> vaPriority ` set vs)"
proof (induction vs arbitrary: mx mn)
  case (Cons v vs)
  have "max_min_loop (if vaPriority v > mx then vaPriority v else mx) (if vaPriority v < mn then vaPriority v else mn) vs
      = (mx', mn')" using Cons.prems by simp
  from Cons.IH [OF this] show ?case by (auto split: if_splits)
qed simp

lemma computeMaxMinPriorityDiff_eq:
  assumes vs: "vsValidators vals \<noteq> []" and i: "\<forall>v\<in>set (vsValidators vals). in64 (vaPriority v)"
    and d: "spread_le (vsValidators vals) d" "d \<le> MaxInt64"
  shows "\<exists>diff. computeMaxMinPriorityDiff vals = Ok diff \<and> 0 \<le> diff \<and> diff \<le> d \<and> spread_le (vsValidators vals) diff"
proof -
  let ?vs = "vsValidators vals"
  obtain mx mn where mm: "max_min_loop MinInt64 MaxInt64 ?vs = (mx, mn)" by fastforce
  note sp = max_min_loop_spec [OF mm]
  obtain v where v: "v \<in> set ?vs" using vs by (cases ?vs) auto
  then have iv: "in64 (vaPriority v)" "mn \<le> vaPriority v" "vaPriority v \<le> mx" using i sp by blast+
  have "mx \<in> vaPriority ` set ?vs" using sp iv v by (metis antisym image_eqI in64_def)
  moreover have "mn \<in> vaPriority ` set ?vs" using sp iv v by (metis antisym image_eqI in64_def)
  ultimately have le: "mx - mn \<le> d" using d(1) unfolding spread_le_def by blast
  have "wrap64 (mx - mn) = mx - mn" using le d(2) iv by (intro wrap64_idI) simp_all
  moreover have "spread_le ?vs (mx - mn)" using sp unfolding spread_le_def by (smt (verit))
  ultimately show ?thesis using vs mm iv le
    by (simp add: computeMaxMinPriorityDiff_def ValidatorSet_IsNilOrEmpty_def)
qed

text \<open>
  Rescaling keeps everything but the priorities, never increases a magnitude and leaves a distance
  between priorities of at most \<open>diffMax\<close>, if the distance before leaves room for the rounding term.
\<close>

lemma RescalePriorities_spec:
  assumes vs: "vsValidators vals \<noteq> []" and i: "\<forall>v\<in>set (vsValidators vals). in64 (vaPriority v)"
    and d: "spread_le (vsValidators vals) (MaxInt64 - diffMax)" and dm: "0 < diffMax"
  shows "\<exists>vs'. ValidatorSet_RescalePriorities vals diffMax = Ok (vals\<lparr>vsValidators := vs'\<rparr>) \<and>
    same_vals (vsValidators vals) vs' \<and> spread_le vs' diffMax \<and> (\<forall>v\<in>set vs'. in64 (vaPriority v))"
proof -
  let ?vs = "vsValidators vals"
  obtain diff where df: "computeMaxMinPriorityDiff vals = Ok diff" "0 \<le> diff" "diff \<le> MaxInt64 - diffMax" "spread_le ?vs diff"
    using computeMaxMinPriorityDiff_eq [OF vs i d] dm by auto
  show ?thesis
  proof (cases "diff > diffMax")
    case False
    then have "ValidatorSet_RescalePriorities vals diffMax = Ok (vals\<lparr>vsValidators := ?vs\<rparr>)"
      using vs df dm by (simp add: ValidatorSet_RescalePriorities_def ValidatorSet_IsNilOrEmpty_def Let_def)
    moreover have "spread_le ?vs diffMax" using df(4) False unfolding spread_le_def by force
    ultimately show ?thesis using i by (intro exI [of _ ?vs]) simp
  next
    case True
    define ratio where "ratio = (diff + diffMax - 1) div diffMax"
    have w: "wrap64 (wrap64 (diff + diffMax) - 1) = diff + diffMax - 1"
      using df dm by (simp add: wrap64_idI)
    have r1: "1 \<le> ratio" using True dm unfolding ratio_def by (simp add: le_div_iff_mult_le)
    have "diff + diffMax - 1 < diffMax * (ratio + 1)"
      using quot_lower [OF dm, of "diff + diffMax - 1"] df dm by (simp add: ratio_def quot_nonneg)
    then have r2: "diff \<le> ratio * diffMax" by (simp add: algebra_simps)
    define vs' where "vs' = map (\<lambda>v. set_priority (wrap64 (quot (vaPriority v) ratio)) v) ?vs"
    have q64: "wrap64 (quot (vaPriority v) ratio) = quot (vaPriority v) ratio" if "v \<in> set ?vs" for v
      using i that r1 by (simp add: wrap64_id in64_quot)
    have "ValidatorSet_RescalePriorities vals diffMax = Ok (vals\<lparr>vsValidators := vs'\<rparr>)"
      using vs df dm True r1 w
      by (simp add: ValidatorSet_RescalePriorities_def ValidatorSet_IsNilOrEmpty_def Let_def quot_nonneg ratio_def [symmetric] vs'_def)
    moreover have "spread_le vs' diffMax"
      unfolding spread_le_def vs'_def
    proof (simp add: q64, intro ballI)
      fix u v assume "u \<in> set ?vs" "v \<in> set ?vs"
      then have "vaPriority u - vaPriority v \<le> ratio * diffMax" using df(4) r2 unfolding spread_le_def by fastforce
      then show "quot (vaPriority u) ratio - quot (vaPriority v) ratio \<le> diffMax"
        using r1 dm by (intro quot_distance) simp_all
    qed
    moreover have "\<forall>v\<in>set vs'. in64 (vaPriority v)" by (simp add: vs'_def)
    moreover have "same_vals ?vs vs'" unfolding vs'_def by (rule same_vals_map)
    ultimately show ?thesis by blast
  qed
qed

lemma sum_list_between:
  assumes "\<forall>x\<in>set xs. lo \<le> x \<and> x \<le> (hi :: int)"
  shows "int (length xs) * lo \<le> sum_list xs \<and> sum_list xs \<le> int (length xs) * hi"
  using assms by (induction xs) (auto simp: algebra_simps)

lemma avg_between:
  assumes "xs \<noteq> []" "\<forall>x\<in>set xs. lo \<le> x \<and> x \<le> (hi :: int)"
  shows "lo \<le> sum_list xs div int (length xs)" "sum_list xs div int (length xs) \<le> hi"
proof -
  have n: "0 < int (length xs)" using assms(1) by simp
  note b = sum_list_between [OF assms(2)]
  show "lo \<le> sum_list xs div int (length xs)"
    using b n by (simp add: le_div_iff_mult_le mult.commute)
  have "sum_list xs div int (length xs) \<le> (hi * int (length xs)) div int (length xs)"
    using b n by (intro zdiv_mono1) (simp_all add: mult.commute)
  then show "sum_list xs div int (length xs) \<le> hi" using n by simp
qed

lemma sum_list_map_diff: "sum_list (map (\<lambda>x. f x - c) xs) = sum_list (map f xs) - int (length xs) * c"
  by (induction xs) (simp_all add: algebra_simps)

definition centered :: "Validator list \<Rightarrow> int \<Rightarrow> bool" where
  "centered vs d \<longleftrightarrow>
     (\<forall>v\<in>set vs. - d \<le> vaPriority v \<and> vaPriority v \<le> d) \<and>
     0 \<le> sum_list (map vaPriority vs) \<and> sum_list (map vaPriority vs) < int (length vs)"

lemma shiftByAvg_spec:
  assumes vs: "vsValidators vals \<noteq> []" and i: "\<forall>v\<in>set (vsValidators vals). in64 (vaPriority v)"
    and d: "spread_le (vsValidators vals) d" "d \<le> MaxInt64"
  shows "\<exists>vs'. ValidatorSet_shiftByAvgProposerPriority vals = Ok (vals\<lparr>vsValidators := vs'\<rparr>) \<and>
    same_vals (vsValidators vals) vs' \<and> centered vs' d"
proof -
  let ?vs = "vsValidators vals" and ?n = "int (length (vsValidators vals))"
  define avg where "avg = sum_list (map vaPriority ?vs) div ?n"
  have n: "0 < ?n" using vs by simp
  have bnd: "- d \<le> vaPriority v - avg \<and> vaPriority v - avg \<le> d" if v: "v \<in> set ?vs" for v
  proof -
    have "\<forall>x\<in>set (map vaPriority ?vs). vaPriority v - d \<le> x \<and> x \<le> vaPriority v + d"
      using d(1) v unfolding spread_le_def by fastforce
    then show ?thesis using avg_between [of "map vaPriority ?vs" "vaPriority v - d" "vaPriority v + d"] vs
      by (simp add: avg_def)
  qed
  have a64: "in64 avg"
    using avg_between [of "map vaPriority ?vs" MinInt64 MaxInt64] i vs by (simp add: avg_def in64_def)
  define vs' where "vs' = map (\<lambda>v. set_priority (safeSubClip (vaPriority v) avg) v) ?vs"
  have clip: "safeSubClip (vaPriority v) avg = vaPriority v - avg" if "v \<in> set ?vs" for v
    using i that bnd [OF that] a64 d(2) by (simp add: safeSubClip_eq in64_def)
  have pr: "map vaPriority vs' = map (\<lambda>v. vaPriority v - avg) ?vs" by (simp add: vs'_def clip)
  have "sum_list (map vaPriority vs') = sum_list (map vaPriority ?vs) - ?n * avg"
    unfolding pr by (rule sum_list_map_diff)
  also have "\<dots> = sum_list (map vaPriority ?vs) mod ?n"
    by (simp add: avg_def minus_mult_div_eq_mod)
  finally have "0 \<le> sum_list (map vaPriority vs') \<and> sum_list (map vaPriority vs') < int (length vs')"
    using n by (simp add: vs'_def)
  then have "centered vs' d" unfolding centered_def using bnd by (simp add: vs'_def clip)
  moreover have "ValidatorSet_shiftByAvgProposerPriority vals = Ok (vals\<lparr>vsValidators := vs'\<rparr>)"
    using vs a64
    by (simp add: ValidatorSet_shiftByAvgProposerPriority_def ValidatorSet_IsNilOrEmpty_def
        ValidatorSet_computeAvgProposerPriority_def Let_def avg_def [symmetric] vs'_def)
  moreover have "same_vals ?vs vs'" unfolding vs'_def by (rule same_vals_map)
  ultimately show ?thesis by blast
qed

section \<open>The validator with most priority\<close>

definition beats :: "Validator \<Rightarrow> Validator \<Rightarrow> bool" where
  "beats v w \<longleftrightarrow> vaPriority w < vaPriority v \<or> vaPriority v = vaPriority w \<and> vaAddress v < vaAddress w"

lemma beats_trans: "beats u v \<Longrightarrow> beats v w \<Longrightarrow> beats u w"
  by (auto simp: beats_def)

lemma CompareProposerPriority_distinct:
  "vaAddress v \<noteq> vaAddress w \<Longrightarrow> CompareProposerPriority (Some v) w = Ok (beats v w)"
  by (auto simp: CompareProposerPriority_def beats_def Let_def)

lemma not_beats: "vaAddress v \<noteq> vaAddress w \<Longrightarrow> \<not> beats v w \<Longrightarrow> beats w v"
  by (auto simp: beats_def)

lemma most_loop_spec:
  "distinct (map vaAddress (w # vs)) \<Longrightarrow>
   \<exists>j v. most_loop i (Some (k, w)) vs = Ok (Some (j, v)) \<and>
     (j = k \<and> v = w \<or> (\<exists>x<length vs. j = i + x \<and> v = vs ! x)) \<and> (\<forall>u\<in>set (w # vs). u = v \<or> beats v u)"
proof (induction vs arbitrary: i k w)
  case (Cons y vs)
  show ?case
  proof (cases "beats w y")
    case True
    obtain j v where "most_loop (Suc i) (Some (k, w)) vs = Ok (Some (j, v))"
      and at: "j = k \<and> v = w \<or> (\<exists>x<length vs. j = Suc i + x \<and> v = vs ! x)"
      and top: "\<forall>u\<in>set (w # vs). u = v \<or> beats v u" using Cons.IH [of w "Suc i" k] Cons.prems by auto
    moreover have "j = k \<and> v = w \<or> (\<exists>x<length (y # vs). j = i + x \<and> v = (y # vs) ! x)"
      using at by (force intro: exI [of _ "Suc x" for x])
    moreover have "\<forall>u\<in>set (w # y # vs). u = v \<or> beats v u" using top True beats_trans by fastforce
    ultimately show ?thesis using Cons.prems True by (simp add: CompareProposerPriority_distinct)
  next
    case False
    then have yw: "beats y w" using Cons.prems by (intro not_beats) auto
    obtain j v where "most_loop (Suc i) (Some (i, y)) vs = Ok (Some (j, v))"
      and at: "j = i \<and> v = y \<or> (\<exists>x<length vs. j = Suc i + x \<and> v = vs ! x)"
      and top: "\<forall>u\<in>set (y # vs). u = v \<or> beats v u" using Cons.IH [of y "Suc i" i] Cons.prems by auto
    moreover have "\<exists>x<length (y # vs). j = i + x \<and> v = (y # vs) ! x"
      using at by (force intro: exI [of _ "Suc x" for x] exI [of _ 0])
    moreover have "\<forall>u\<in>set (w # y # vs). u = v \<or> beats v u" using top yw beats_trans by fastforce
    ultimately show ?thesis using Cons.prems False by (simp add: CompareProposerPriority_distinct)
  qed
qed simp

lemma getValWithMostPriority_spec:
  assumes "vsValidators vals \<noteq> []" "distinct (map vaAddress (vsValidators vals))"
  shows "\<exists>i<length (vsValidators vals).
    ValidatorSet_getValWithMostPriority vals = Ok (Some (i, vsValidators vals ! i)) \<and>
    (\<forall>u\<in>set (vsValidators vals). u = vsValidators vals ! i \<or> beats (vsValidators vals ! i) u)"
proof -
  obtain w vs where vs: "vsValidators vals = w # vs" using assms(1) by (cases "vsValidators vals") auto
  obtain j v where "most_loop (Suc 0) (Some (0, w)) vs = Ok (Some (j, v))"
    and at: "j = 0 \<and> v = w \<or> (\<exists>x<length vs. j = Suc 0 + x \<and> v = vs ! x)"
    and top: "\<forall>u\<in>set (w # vs). u = v \<or> beats v u"
    using most_loop_spec [of w vs "Suc 0" 0] assms(2) vs by auto
  moreover have "j < length (w # vs) \<and> v = (w # vs) ! j" using at by auto
  ultimately show ?thesis using vs
    by (auto simp: ValidatorSet_getValWithMostPriority_def CompareProposerPriority_def)
qed

section \<open>One increment is a greedy rotation step\<close>

definition prio_of :: "Validator list \<Rightarrow> nat \<Rightarrow> int" where
  "prio_of vs i = (if i < length vs then vaPriority (vs ! i) else 0)"

definition power_of :: "Validator list \<Rightarrow> nat \<Rightarrow> int" where
  "power_of vs i = (if i < length vs then vaPower (vs ! i) else 0)"

lemma sum_power_of: "sum (power_of vs) {..<length vs} = total_power vs"
  by (simp add: total_power_def power_of_def sum_list_sum_nth atLeast0LessThan)

lemma sum_prio_of: "sum (prio_of vs) {..<length vs} = sum_list (map vaPriority vs)"
  by (simp add: prio_of_def sum_list_sum_nth atLeast0LessThan)

lemma power_of_same: "same_vals vs vs' \<Longrightarrow> power_of vs' = power_of vs"
  by (auto simp: power_of_def same_vals_length same_vals_nth)

definition rotated :: "Validator list \<Rightarrow> nat \<Rightarrow> Validator list" where
  "rotated vs m =
     (map (\<lambda>v. set_priority (vaPriority v + vaPower v) v) vs)
       [m := set_priority (vaPriority (vs ! m) + vaPower (vs ! m) - total_power vs) (vs ! m)]"

lemma same_vals_rotated: "m < length vs \<Longrightarrow> same_vals vs (rotated vs m)"
  by (auto simp: same_vals_def rotated_def list_eq_iff_nth_eq nth_list_update set_priority_def)

lemma prio_of_rotated:
  "m < length vs \<Longrightarrow> prio_of (rotated vs m) = rotate_step (power_of vs) (total_power vs) m (prio_of vs)"
  by (rule ext) (auto simp: prio_of_def power_of_def rotated_def rotate_step_def nth_list_update)

text \<open>No addition clips: every priority, and every priority plus its power, is an int64.\<close>

definition no_clip :: "Validator list \<Rightarrow> bool" where
  "no_clip vs \<longleftrightarrow>
     (\<forall>v\<in>set vs. in64 (vaPriority v) \<and> in64 (vaPriority v + vaPower v) \<and>
        in64 (vaPriority v + vaPower v - total_power vs))"

lemma incrementProposerPriority_spec:
  assumes val: "valid_set vals" and nc: "no_clip (vsValidators vals)"
  shows "\<exists>m<length (vsValidators vals).
    ValidatorSet_incrementProposerPriority vals =
      Ok (vals\<lparr>vsValidators := rotated (vsValidators vals) m, vsTotal := total_power (vsValidators vals)\<rparr>,
          vaAddress (vsValidators vals ! m)) \<and>
    is_greedy {..<length (vsValidators vals)} (power_of (vsValidators vals)) (prio_of (vsValidators vals)) m"
proof -
  let ?vs = "vsValidators vals"
  define vs1 where "vs1 = map (\<lambda>v. set_priority (vaPriority v + vaPower v) v) ?vs"
  define vals1 where "vals1 = vals\<lparr>vsValidators := vs1\<rparr>"
  have vv: "valid_vals ?vs" using val by (simp add: valid_set_def)
  have pw: "in64 (vaPower v)" if "v \<in> set ?vs" for v
    using vv that total_power_member [of ?vs v] unfolding valid_vals_def by (fastforce simp: in64_def)
  have add: "safeAddClip (vaPriority v) (vaPower v) = vaPriority v + vaPower v" if "v \<in> set ?vs" for v
    using nc that pw [OF that] by (simp add: no_clip_def safeAddClip_eq)
  then have bump: "vals\<lparr>vsValidators := map (\<lambda>v. set_priority (safeAddClip (vaPriority v) (vaPower v)) v) ?vs\<rparr> = vals1"
    by (simp add: vals1_def vs1_def)
  have s1: "same_vals ?vs vs1" unfolding vs1_def by (rule same_vals_map)
  have "valid_vals vs1"
    by (rule valid_vals_same [OF s1 vv]) (use nc in \<open>auto simp: vs1_def no_clip_def\<close>)
  then have v1: "valid_set vals1" "vsValidators vals1 = vs1"
    using val same_vals_maps(3) [OF s1] by (auto simp: valid_set_def vals1_def)
  obtain m where m: "m < length vs1" "ValidatorSet_getValWithMostPriority vals1 = Ok (Some (m, vs1 ! m))"
    "\<forall>u\<in>set vs1. u = vs1 ! m \<or> beats (vs1 ! m) u"
    using getValWithMostPriority_spec [of vals1] v1 by (auto simp: valid_set_def valid_vals_def)
  have mv: "m < length ?vs" using m(1) by (simp add: vs1_def)
  have tot: "total_power vs1 = total_power ?vs" by (rule same_vals_maps(3) [OF s1])
  have "in64 (total_power ?vs)" using vv total_power_pos [OF vv] by (simp add: valid_vals_def in64_def)
  then have sub: "safeSubClip (vaPriority (vs1 ! m)) (total_power ?vs) = vaPriority (?vs ! m) + vaPower (?vs ! m) - total_power ?vs"
    using nc mv by (simp add: vs1_def no_clip_def safeSubClip_eq)
  have "set_priority p (vs1 ! m) = set_priority p (?vs ! m)" for p
    using mv by (simp add: vs1_def set_priority_def)
  then have "ValidatorSet_incrementProposerPriority vals =
      Ok (vals\<lparr>vsValidators := rotated ?vs m, vsTotal := total_power ?vs\<rparr>, vaAddress (?vs ! m))"
    using m(2) TotalVotingPower_eq [OF v1(1)] v1(2) tot sub mv bump
    unfolding ValidatorSet_incrementProposerPriority_def Let_def
    by (simp add: vals1_def rotated_def vs1_def [symmetric]) (simp add: vs1_def)
  moreover have "is_greedy {..<length ?vs} (power_of ?vs) (prio_of ?vs) m"
    unfolding is_greedy_def
  proof (intro conjI ballI)
    fix i assume "i \<in> {..<length ?vs}"
    then have i: "i < length ?vs" by simp
    then have "vs1 ! i = vs1 ! m \<or> beats (vs1 ! m) (vs1 ! i)" using m(3) by (simp add: vs1_def)
    then have "vaPriority (vs1 ! i) \<le> vaPriority (vs1 ! m)" by (auto simp: beats_def)
    then show "prio_of ?vs i + power_of ?vs i \<le> prio_of ?vs m + power_of ?vs m"
      using i mv by (simp add: prio_of_def power_of_def vs1_def)
  qed (use mv in simp)
  ultimately show ?thesis using mv by blast
qed

section \<open>Sequences of increments\<close>

text \<open>\<open>n\<close> successive increments, with the addresses of the validators chosen.\<close>

fun increments :: "nat \<Rightarrow> ValidatorSet \<Rightarrow> (ValidatorSet \<times> bytes list) outcome" where
  "increments 0 vals = Ok (vals, [])"
| "increments (Suc n) vals =
     bindo (increments n vals) (\<lambda>(vals', as).
     bindo (ValidatorSet_incrementProposerPriority vals') (\<lambda>(vals'', a). Ok (vals'', as @ [a])))"

lemma bindo_cong_Ok: "(\<And>x. r = Ok x \<Longrightarrow> f x = g x) \<Longrightarrow> bindo r f = bindo r g"
  by (cases r) auto

lemma increment_loop_snoc:
  "increment_loop (Suc n) vals pr =
     bindo (increment_loop n vals pr) (\<lambda>(vals', _).
     bindo (ValidatorSet_incrementProposerPriority vals') (\<lambda>(vals'', a). Ok (vals'', InSet a)))"
proof (induction n arbitrary: vals pr)
  case 0
  show ?case by (cases "ValidatorSet_incrementProposerPriority vals") auto
next
  case (Suc n)
  show ?case
    unfolding increment_loop.simps(2) [of "Suc n" vals pr] increment_loop.simps(2) [of n vals pr]
    by (cases "ValidatorSet_incrementProposerPriority vals") (auto simp: Suc.IH split: prod.split simp del: increment_loop.simps(2))
qed

lemma increment_loop_increments:
  "increment_loop n vals pr =
     bindo (increments n vals) (\<lambda>(vals', as). Ok (vals', if as = [] then pr else InSet (last as)))"
proof (induction n)
  case (Suc n)
  show ?case unfolding increment_loop_snoc Suc.IH increments.simps
    by (auto simp: bindo_assoc split: prod.split intro!: bindo_cong_Ok)
qed simp

lemma prio_of_bounds:
  "(\<forall>i\<in>{..<length vs}. lo \<le> prio_of vs i \<and> prio_of vs i \<le> hi) \<longleftrightarrow>
   (\<forall>v\<in>set vs. lo \<le> vaPriority v \<and> vaPriority v \<le> hi)"
  unfolding all_set_conv_all_nth by (auto simp: prio_of_def)

lemma greedy_run_bounds:
  assumes run: "greedy_run {..<length vs} (power_of vs) (total_power vs) (prio_of vs) ms (prio_of vs')"
    and len: "length vs' = length vs" and val: "valid_vals vs" and c: "centered vs (2 * total_power vs)"
    and k: "length vs \<le> 2 ^ k"
  shows "\<forall>v\<in>set vs'. - 2 * total_power vs \<le> vaPriority v \<and> vaPriority v \<le> (2 + int k) * total_power vs"
proof -
  let ?T = "total_power vs" and ?I = "{..<length vs}"
  have T: "?T = sum (power_of vs) ?I" "0 < ?T" using sum_power_of total_power_pos [OF val] by simp_all
  have w: "\<forall>i\<in>?I. 0 \<le> power_of vs i" using val by (auto simp: valid_vals_def power_of_def intro: less_imp_le)
  have b: "\<forall>i\<in>?I. - 2 * ?T \<le> prio_of vs i \<and> prio_of vs i \<le> 2 * ?T"
    unfolding prio_of_bounds using c by (simp add: centered_def)
  have "0 \<le> sum (prio_of vs) ?I" using c by (simp add: sum_prio_of centered_def)
  then have "\<forall>i\<in>?I. - 2 * ?T \<le> prio_of vs' i"
    using greedy_run_lower [OF run, of "- 2 * ?T"] T w b by auto
  moreover have "\<forall>i\<in>?I. prio_of vs' i \<le> 2 * ?T + ?T * int k"
    using greedy_run_upper [OF run _ T(1) T(2) w, of "2 * ?T" k] b k by auto
  ultimately have "\<forall>i\<in>{..<length vs'}. - 2 * ?T \<le> prio_of vs' i \<and> prio_of vs' i \<le> (2 + int k) * ?T"
    using len by (simp add: algebra_simps)
  then show ?thesis unfolding prio_of_bounds .
qed

lemma bounds_no_clip:
  assumes val: "valid_vals vs" and b: "\<forall>v\<in>set vs. - 2 * total_power vs \<le> vaPriority v \<and> vaPriority v \<le> (2 + int k) * total_power vs"
    and k: "(3 + int k) * total_power vs \<le> MaxInt64"
  shows "no_clip vs"
  unfolding no_clip_def
proof
  fix v assume v: "v \<in> set vs"
  have T: "total_power vs \<le> MaxTotalVotingPower" using val by (simp add: valid_vals_def)
  have p: "0 < vaPower v" "vaPower v \<le> total_power vs"
    using val v total_power_member [of vs v] by (auto simp: valid_vals_def)
  have "(3 + int k) * total_power vs = (2 + int k) * total_power vs + total_power vs" by (simp add: algebra_simps)
  then show "in64 (vaPriority v) \<and> in64 (vaPriority v + vaPower v) \<and> in64 (vaPriority v + vaPower v - total_power vs)"
    using b v p T k unfolding in64_def by fastforce
qed

lemma increments_run:
  assumes val: "valid_set vals" and vs: "vsValidators vals = vs" and tot: "vsTotal vals = total_power vs"
    and c: "centered vs (2 * total_power vs)" and k: "length vs \<le> 2 ^ k" "(3 + int k) * total_power vs \<le> MaxInt64"
  shows "\<exists>vs' ms. increments n vals = Ok (vals\<lparr>vsValidators := vs'\<rparr>, map (\<lambda>m. vaAddress (vs ! m)) ms) \<and>
    length ms = n \<and> set ms \<subseteq> {..<length vs} \<and> same_vals vs vs' \<and>
    greedy_run {..<length vs} (power_of vs) (total_power vs) (prio_of vs) ms (prio_of vs')"
proof (induction n)
  case 0
  have "vals = vals\<lparr>vsValidators := vs\<rparr>" using vs by simp
  then show ?case by (intro exI [of _ vs] exI [of _ "[]"]) (simp add: run_nil)
next
  case (Suc n)
  then obtain vs' ms where it: "increments n vals = Ok (vals\<lparr>vsValidators := vs'\<rparr>, map (\<lambda>m. vaAddress (vs ! m)) ms)"
    and ms: "length ms = n" "set ms \<subseteq> {..<length vs}" and same: "same_vals vs vs'"
    and run: "greedy_run {..<length vs} (power_of vs) (total_power vs) (prio_of vs) ms (prio_of vs')" by blast
  have vv: "valid_vals vs" using val vs by (simp add: valid_set_def)
  note len = same_vals_length [OF same] and tp = same_vals_maps(3) [OF same] and pw = power_of_same [OF same]
  have b: "\<forall>v\<in>set vs'. - 2 * total_power vs' \<le> vaPriority v \<and> vaPriority v \<le> (2 + int k) * total_power vs'"
    unfolding tp by (rule greedy_run_bounds [OF run len vv c k(1)])
  have "valid_vals vs'"
  proof (rule valid_vals_same [OF same vv])
    have "0 < total_power vs" "(3 + int k) * total_power vs = (2 + int k) * total_power vs + total_power vs"
      using total_power_pos [OF vv] by (simp_all add: algebra_simps)
    moreover have "total_power vs \<le> MaxTotalVotingPower" using vv by (simp add: valid_vals_def)
    ultimately show "\<forall>v\<in>set vs'. in64 (vaPriority v)" using b k(2) unfolding tp in64_def by fastforce
  qed
  then have v': "valid_set (vals\<lparr>vsValidators := vs'\<rparr>)" "valid_vals vs'" using tot tp by (simp_all add: valid_set_def)
  have "no_clip vs'" using v'(2) b k(2) by (intro bounds_no_clip [where k = k]) (simp_all add: tp)
  then obtain m where m: "m < length vs'"
    "ValidatorSet_incrementProposerPriority (vals\<lparr>vsValidators := vs'\<rparr>) =
       Ok (vals\<lparr>vsValidators := rotated vs' m, vsTotal := total_power vs'\<rparr>, vaAddress (vs' ! m))"
    "is_greedy {..<length vs'} (power_of vs') (prio_of vs') m"
    using incrementProposerPriority_spec [OF v'(1)] by auto
  have "vals\<lparr>vsValidators := rotated vs' m, vsTotal := total_power vs'\<rparr> = vals\<lparr>vsValidators := rotated vs' m\<rparr>"
    using tot tp by (cases vals) simp
  then have "increments (Suc n) vals = Ok (vals\<lparr>vsValidators := rotated vs' m\<rparr>, map (\<lambda>m. vaAddress (vs ! m)) (ms @ [m]))"
    using it m same_vals_nth(1) [OF same] len by simp
  moreover have "greedy_run {..<length vs} (power_of vs) (total_power vs) (prio_of vs) (ms @ [m]) (prio_of (rotated vs' m))"
    unfolding prio_of_rotated [OF m(1)] tp pw using run_step [OF run, of m] m(3) len pw by simp
  moreover have "same_vals vs (rotated vs' m)"
    using same_vals_trans [OF same same_vals_rotated [OF m(1)]] .
  ultimately show ?case using ms m(1) len by (intro exI [of _ "rotated vs' m"] exI [of _ "ms @ [m]"]) simp
qed

section \<open>IncrementProposerPriority\<close>

lemma center_spec:
  assumes vs: "vsValidators vals = vs" "valid_vals vs" and d: "spread_le vs (MaxInt64 - 2 * total_power vs)"
  shows "\<exists>vs'. bindo (ValidatorSet_RescalePriorities vals (wrap64 (PriorityWindowSizeFactor * total_power vs)))
      ValidatorSet_shiftByAvgProposerPriority = Ok (vals\<lparr>vsValidators := vs'\<rparr>) \<and>
    same_vals vs vs' \<and> centered vs' (2 * total_power vs)"
proof -
  have T: "0 < total_power vs" "total_power vs \<le> MaxTotalVotingPower"
    using total_power_pos [OF vs(2)] vs(2) by (simp_all add: valid_vals_def)
  then have w: "wrap64 (PriorityWindowSizeFactor * total_power vs) = 2 * total_power vs"
    by (simp add: PriorityWindowSizeFactor_def wrap64_idI)
  obtain vs1 where r: "ValidatorSet_RescalePriorities vals (2 * total_power vs) = Ok (vals\<lparr>vsValidators := vs1\<rparr>)"
    and vs1: "same_vals vs vs1" "spread_le vs1 (2 * total_power vs)" "\<forall>v\<in>set vs1. in64 (vaPriority v)"
    using RescalePriorities_spec [of vals "2 * total_power vs"] vs d T by (auto simp: valid_vals_def)
  have "vs1 \<noteq> []" using same_vals_length [OF vs1(1)] vs(2) by (auto simp: valid_vals_def)
  then obtain vs' where "ValidatorSet_shiftByAvgProposerPriority (vals\<lparr>vsValidators := vs1\<rparr>) = Ok (vals\<lparr>vsValidators := vs'\<rparr>)"
    and "same_vals vs1 vs'" "centered vs' (2 * total_power vs)"
    using shiftByAvg_spec [of "vals\<lparr>vsValidators := vs1\<rparr>" "2 * total_power vs"] vs1 T by auto
  then show ?thesis using r vs1(1) w same_vals_trans by auto
qed

lemma centered_valid:
  assumes "valid_vals vs" "same_vals vs vs'" "centered vs' (2 * total_power vs)"
  shows "valid_vals vs'"
  using assms total_power_pos [OF assms(1)]
  by (intro valid_vals_same [OF assms(2,1)]) (fastforce simp: centered_def in64_def valid_vals_def)

text \<open>
  The range in which every sequence of calls stays: at most \<open>2^k\<close> validators and priorities between
  \<open>-2 T\<close> and \<open>(2 + k) T\<close> for a total power \<open>T\<close> with \<open>(6 + k) T\<close> an int64.
\<close>

definition rotation_inv :: "nat \<Rightarrow> ValidatorSet \<Rightarrow> bool" where
  "rotation_inv k vals \<longleftrightarrow>
     valid_set vals \<and> length (vsValidators vals) \<le> 2 ^ k \<and>
     (6 + int k) * total_power (vsValidators vals) \<le> MaxInt64 \<and>
     (\<forall>v\<in>set (vsValidators vals). - 2 * total_power (vsValidators vals) \<le> vaPriority v \<and>
        vaPriority v \<le> (2 + int k) * total_power (vsValidators vals))"

lemma find_InSet:
  "distinct (map vaAddress vs) \<Longrightarrow> m < length vs \<Longrightarrow> find (addr_is (vaAddress (vs ! m))) vs = Some (vs ! m)"
  by (auto simp: find_Some_iff addr_is_def distinct_conv_nth intro!: exI [of _ m])

lemma IncrementProposerPriority_spec:
  assumes inv: "rotation_inv k vals" and vs: "vsValidators vals = vs" and n: "0 < n"
  shows "\<exists>vs1 vs' ms. ValidatorSet_IncrementProposerPriority vals (int n) =
      Ok (vals\<lparr>vsValidators := vs', vsTotal := total_power vs, vsProposer := InSet (vaAddress (vs ! last ms))\<rparr>) \<and>
    same_vals vs vs1 \<and> centered vs1 (2 * total_power vs) \<and> same_vals vs vs' \<and> length ms = n \<and> set ms \<subseteq> {..<length vs} \<and>
    greedy_run {..<length vs} (power_of vs) (total_power vs) (prio_of vs1) ms (prio_of vs')"
proof -
  let ?T = "total_power vs"
  have val: "valid_set vals" "valid_vals vs" using inv vs by (auto simp: rotation_inv_def valid_set_def)
  have k: "length vs \<le> 2 ^ k" "(6 + int k) * ?T \<le> MaxInt64" "0 < ?T"
    using inv vs total_power_pos [OF val(2)] by (auto simp: rotation_inv_def)
  have k3: "(3 + int k) * ?T \<le> MaxInt64" using k(2,3) by (simp add: algebra_simps)
  define vals1 where "vals1 = vals\<lparr>vsTotal := ?T\<rparr>"
  have t: "ValidatorSet_TotalVotingPower vals = Ok (vals1, ?T)" using TotalVotingPower_eq [OF val(1)] vs by (simp add: vals1_def)
  have "spread_le vs (MaxInt64 - 2 * ?T)"
    unfolding spread_le_def
  proof (intro ballI)
    fix u v assume "u \<in> set vs" "v \<in> set vs"
    then have "vaPriority u \<le> (2 + int k) * ?T" "- 2 * ?T \<le> vaPriority v" using inv vs by (auto simp: rotation_inv_def)
    then show "vaPriority u - vaPriority v \<le> MaxInt64 - 2 * ?T" using k(2) by (simp add: algebra_simps)
  qed
  then obtain vs1 where c: "bindo (ValidatorSet_RescalePriorities vals1 (wrap64 (PriorityWindowSizeFactor * ?T)))
      ValidatorSet_shiftByAvgProposerPriority = Ok (vals1\<lparr>vsValidators := vs1\<rparr>)"
    and vs1: "same_vals vs vs1" "centered vs1 (2 * ?T)"
    using center_spec [of vals1 vs] val vs by (auto simp: vals1_def)
  have tp: "total_power vs1 = ?T" by (rule same_vals_maps(3) [OF vs1(1)])
  have "valid_set (vals1\<lparr>vsValidators := vs1\<rparr>)"
    using centered_valid [OF val(2) vs1] tp by (simp add: valid_set_def vals1_def)
  then obtain vs' ms where r: "increments n (vals1\<lparr>vsValidators := vs1\<rparr>) =
      Ok (vals1\<lparr>vsValidators := vs'\<rparr>, map (\<lambda>m. vaAddress (vs1 ! m)) ms)"
    and ms: "length ms = n" "set ms \<subseteq> {..<length vs1}" and s': "same_vals vs1 vs'"
    and run: "greedy_run {..<length vs1} (power_of vs1) ?T (prio_of vs1) ms (prio_of vs')"
    using increments_run [of "vals1\<lparr>vsValidators := vs1\<rparr>" vs1 k n] vs1 k k3 tp same_vals_length [OF vs1(1)]
    by (auto simp: vals1_def)
  have ne: "ms \<noteq> []" using ms(1) n by auto
  then have "vaAddress (vs1 ! last ms) = vaAddress (vs ! last ms)"
    using ms(2) same_vals_nth(1) [OF vs1(1)] same_vals_length [OF vs1(1)] by (metis last_in_set lessThan_iff subsetD)
  then have lp: "increment_loop n (vals1\<lparr>vsValidators := vs1\<rparr>) NoProposer =
      Ok (vals1\<lparr>vsValidators := vs'\<rparr>, InSet (vaAddress (vs ! last ms)))"
    using r ne by (simp add: increment_loop_increments last_map)
  obtain y where y: "ValidatorSet_RescalePriorities vals1 (wrap64 (PriorityWindowSizeFactor * ?T)) = Ok y"
    "ValidatorSet_shiftByAvgProposerPriority y = Ok (vals1\<lparr>vsValidators := vs1\<rparr>)" using c by (auto simp: bindo_Ok_iff)
  have "vs \<noteq> []" using val(2) by (simp add: valid_vals_def)
  then have "ValidatorSet_IncrementProposerPriority vals (int n) =
      Ok (vals\<lparr>vsValidators := vs', vsTotal := ?T, vsProposer := InSet (vaAddress (vs ! last ms))\<rparr>)"
    using n t y lp vs by (simp add: ValidatorSet_IncrementProposerPriority_def ValidatorSet_IsNilOrEmpty_def vals1_def)
  then show ?thesis
    using vs1 same_vals_trans [OF vs1(1) s'] ms run same_vals_length [OF vs1(1)] power_of_same [OF vs1(1)] by auto
qed

lemma rotation_inv_step:
  assumes inv: "rotation_inv k vals" and n: "0 < n"
  shows "\<exists>vals'. ValidatorSet_IncrementProposerPriority vals (int n) = Ok vals' \<and> rotation_inv k vals' \<and>
    same_vals (vsValidators vals) (vsValidators vals') \<and>
    0 \<le> sum_list (map vaPriority (vsValidators vals')) \<and>
    sum_list (map vaPriority (vsValidators vals')) < int (length (vsValidators vals')) \<and>
    (\<exists>p. Proposer vals' = Some p \<and> p \<in> set (vsValidators vals'))"
proof -
  define vs where "vs = vsValidators vals"
  let ?T = "total_power vs"
  obtain vs1 vs' ms where eq: "ValidatorSet_IncrementProposerPriority vals (int n) =
      Ok (vals\<lparr>vsValidators := vs', vsTotal := ?T, vsProposer := InSet (vaAddress (vs ! last ms))\<rparr>)"
    and vs1: "same_vals vs vs1" "centered vs1 (2 * ?T)" and s': "same_vals vs vs'"
    and ms: "length ms = n" "set ms \<subseteq> {..<length vs}"
    and run: "greedy_run {..<length vs} (power_of vs) ?T (prio_of vs1) ms (prio_of vs')"
    using IncrementProposerPriority_spec [OF inv vs_def [symmetric] n] by blast
  have val: "valid_vals vs" and k: "length vs \<le> 2 ^ k" "(6 + int k) * ?T \<le> MaxInt64"
    using inv by (auto simp: rotation_inv_def vs_def valid_set_def)
  note tp1 = same_vals_maps(3) [OF vs1(1)] and l1 = same_vals_length [OF vs1(1)] and pw = power_of_same [OF vs1(1)]
  note tp' = same_vals_maps(3) [OF s'] and l' = same_vals_length [OF s']
  have b: "\<forall>v\<in>set vs'. - 2 * ?T \<le> vaPriority v \<and> vaPriority v \<le> (2 + int k) * ?T"
    using greedy_run_bounds [of vs1 ms vs' k] run l1 l' tp1 pw centered_valid [OF val vs1] vs1(2) k(1) by simp
  have T: "0 < ?T" "?T \<le> MaxTotalVotingPower" using total_power_pos [OF val] val by (simp_all add: valid_vals_def)
  have "(6 + int k) * ?T = (2 + int k) * ?T + 4 * ?T" by (simp add: algebra_simps)
  then have "\<forall>v\<in>set vs'. in64 (vaPriority v)" using b T k(2) unfolding in64_def by fastforce
  then have val': "valid_vals vs'" by (rule valid_vals_same [OF s' val])
  have "sum (prio_of vs') {..<length vs} = sum (prio_of vs1) {..<length vs}"
    using greedy_run_sum [OF run] sum_power_of [of vs] by simp
  then have sm: "sum_list (map vaPriority vs') = sum_list (map vaPriority vs1)"
    using sum_prio_of [of vs'] sum_prio_of [of vs1] l1 l' by simp
  have "last ms \<in> set ms" using ms(1) n by (intro last_in_set) auto
  then have lm: "last ms < length vs'" using ms(2) l' by auto
  then have "find (addr_is (vaAddress (vs ! last ms))) vs' = Some (vs' ! last ms)"
    using find_InSet [of vs' "last ms"] val' same_vals_nth(1) [OF s', of "last ms"] l' by (simp add: valid_vals_def)
  then have "\<exists>p. Proposer (vals\<lparr>vsValidators := vs', vsTotal := ?T, vsProposer := InSet (vaAddress (vs ! last ms))\<rparr>) = Some p \<and> p \<in> set vs'"
    using lm by (simp add: Proposer_def)
  then show ?thesis unfolding eq
    using val' tp' b k l' s' sm vs1(2) l1 vs_def
    by (intro exI [of _ "vals\<lparr>vsValidators := vs', vsTotal := ?T, vsProposer := InSet (vaAddress (vs ! last ms))\<rparr>"])
       (auto simp: rotation_inv_def valid_set_def centered_def)
qed

text \<open>C23. Take a set with at most \<open>2^k\<close> validators, distinct addresses, positive powers of total \<open>T\<close> and priorities
  between \<open>-2 T\<close> and \<open>(2 + k) T\<close>, where \<open>(6 + k) T\<close> fits in an int64. Incrementing the priorities any
  positive number of times never panics or clips, changes nothing but the priorities, keeps the
  priorities in that range and centred on zero (their sum is at least zero and below the number of
  validators), and leaves a member of the set as proposer.\<close>

theorem proposer_rotation_invariant:
  assumes "rotation_inv k vals" and "0 < n"
  shows "\<exists>vals'. ValidatorSet_IncrementProposerPriority vals (int n) = Ok vals' \<and> rotation_inv k vals' \<and>
    same_vals (vsValidators vals) (vsValidators vals') \<and>
    0 \<le> sum_list (map vaPriority (vsValidators vals')) \<and>
    sum_list (map vaPriority (vsValidators vals')) < int (length (vsValidators vals')) \<and>
    (\<exists>p. Proposer vals' = Some p \<and> p \<in> set (vsValidators vals'))"
  using assms by (rule rotation_inv_step)

definition sample_val :: "byte \<Rightarrow> int \<Rightarrow> Validator" where
  "sample_val b p = \<lparr>vaAddress = replicate 20 b, vaPubKey = Some (Ed25519 (replicate 32 b)), vaPower = p, vaPriority = 0\<rparr>"

definition sample_set :: ValidatorSet where
  "sample_set = \<lparr>vsValidators = [sample_val 1 5, sample_val 2 3, sample_val 3 2], vsProposer = NoProposer,
     vsTotal = 10, vsSameType = True\<rparr>"

lemma sample_set_inv: "rotation_inv 2 sample_set"
  by (simp add: rotation_inv_def valid_set_def valid_vals_def sample_set_def sample_val_def total_power_def in64_def
      numeral_eq_Suc)

theorem proposer_rotation_invariant_witness:
  "\<exists>vals'. ValidatorSet_IncrementProposerPriority sample_set 1000 = Ok vals' \<and> rotation_inv 2 vals'"
  using proposer_rotation_invariant [of 2 sample_set 1000] sample_set_inv by auto

section \<open>Fairness\<close>

lemma count_list_map_inj:
  "inj_on f (insert i (set ms)) \<Longrightarrow> count_list (map f ms) (f i) = count_list ms i"
proof (induction ms)
  case (Cons m ms)
  then have "f m = f i \<longleftrightarrow> m = i" by (metis inj_onD insertI1 insertI2 list.set_intros(1))
  moreover have "inj_on f (insert i (set ms))" using Cons.prems by (rule inj_on_subset) auto
  ultimately show ?case using Cons.IH by simp
qed simp

lemma increments_fair:
  assumes val: "valid_set vals" and vs: "vsValidators vals = vs" and tot: "vsTotal vals = total_power vs"
    and c: "centered vs (2 * total_power vs)" and k: "length vs \<le> 2 ^ k" "(3 + int k) * total_power vs \<le> MaxInt64"
  shows "\<exists>vals' as. increments n vals = Ok (vals', as) \<and> length as = n \<and>
    (\<forall>v\<in>set vs. \<bar>int (count_list as (vaAddress v)) * total_power vs - int n * vaPower v\<bar> \<le> (4 + int k) * total_power vs)"
proof -
  let ?T = "total_power vs" and ?I = "{..<length vs}"
  have vv: "valid_vals vs" using val vs by (simp add: valid_set_def)
  obtain vs' ms where r: "increments n vals = Ok (vals\<lparr>vsValidators := vs'\<rparr>, map (\<lambda>m. vaAddress (vs ! m)) ms)"
    and ms: "length ms = n" "set ms \<subseteq> ?I"
    and run: "greedy_run ?I (power_of vs) ?T (prio_of vs) ms (prio_of vs')"
    using increments_run [OF val vs tot c k] by blast
  have "\<bar>int (count_list (map (\<lambda>m. vaAddress (vs ! m)) ms) (vaAddress v)) * ?T - int n * vaPower v\<bar> \<le> (4 + int k) * ?T"
    if "v \<in> set vs" for v
  proof -
    obtain i where i: "i < length vs" "v = vs ! i" using \<open>v \<in> set vs\<close> by (auto simp: in_set_conv_nth)
    have "inj_on (\<lambda>m. vaAddress (vs ! m)) (insert i (set ms))"
      using vv ms(2) i(1) by (auto simp: inj_on_def valid_vals_def distinct_conv_nth subset_iff)
    then have cnt: "count_list (map (\<lambda>m. vaAddress (vs ! m)) ms) (vaAddress v) = count_list ms i"
      unfolding i(2) by (rule count_list_map_inj)
    have "\<bar>int (count_list ms i) * ?T - int (length ms) * power_of vs i\<bar> \<le> 2 * (2 * ?T) + ?T * int k"
    proof (rule greedy_run_fair [OF run])
      show "?T = sum (power_of vs) ?I" "0 < ?T" using sum_power_of total_power_pos [OF vv] by simp_all
      show "0 \<le> sum (prio_of vs) ?I" using c by (simp add: sum_prio_of centered_def)
      show "\<forall>i\<in>?I. 0 \<le> power_of vs i" using vv by (auto simp: valid_vals_def power_of_def intro: less_imp_le)
      show "\<forall>i\<in>?I. - (2 * ?T) \<le> prio_of vs i \<and> prio_of vs i \<le> 2 * ?T"
        unfolding prio_of_bounds using c by (simp add: centered_def)
      show "?T \<le> 2 * ?T" using total_power_pos [OF vv] by simp
    qed (use k(1) i(1) in auto)
    moreover have "2 * (2 * ?T) + ?T * int k = (4 + int k) * ?T" by (simp add: algebra_simps)
    ultimately show ?thesis using cnt ms(1) i by (simp add: power_of_def)
  qed
  then show ?thesis using r ms(1) by auto
qed

text \<open>C22. Proportional fairness and liveness of proposer rotation. From centred priorities, in any number \<open>n\<close> of
  increments every validator is chosen \<open>n\<close> times its share of the total power, up to the constant
  \<open>4 + k\<close> (for at most \<open>2^k\<close> validators); in particular a validator whose share of \<open>n\<close> exceeds that
  constant is chosen at least once.\<close>

theorem proposer_rotation_fair:
  assumes "valid_set vals" and "vsTotal vals = total_power (vsValidators vals)"
    and "centered (vsValidators vals) (2 * total_power (vsValidators vals))"
    and "length (vsValidators vals) \<le> 2 ^ k" "(3 + int k) * total_power (vsValidators vals) \<le> MaxInt64"
  shows "\<exists>vals' as. increments n vals = Ok (vals', as) \<and> length as = n \<and>
    (\<forall>v\<in>set (vsValidators vals).
       \<bar>int (count_list as (vaAddress v)) * total_power (vsValidators vals) - int n * vaPower v\<bar>
         \<le> (4 + int k) * total_power (vsValidators vals) \<and>
       ((4 + int k) * total_power (vsValidators vals) < int n * vaPower v \<longrightarrow> vaAddress v \<in> set as))"
proof -
  let ?T = "total_power (vsValidators vals)"
  obtain vals' as where r: "increments n vals = Ok (vals', as)" "length as = n"
    and f: "\<forall>v\<in>set (vsValidators vals). \<bar>int (count_list as (vaAddress v)) * ?T - int n * vaPower v\<bar> \<le> (4 + int k) * ?T"
    using increments_fair [OF assms(1) refl assms(2-5)] by blast
  have "vaAddress v \<in> set as" if "v \<in> set (vsValidators vals)" "(4 + int k) * ?T < int n * vaPower v" for v
  proof (rule ccontr)
    assume "vaAddress v \<notin> set as"
    then have "count_list as (vaAddress v) = 0" by simp
    then show False using f that by fastforce
  qed
  then show ?thesis using r f by blast
qed

theorem proposer_rotation_fair_witness:
  "\<exists>vals' as. increments 100 sample_set = Ok (vals', as) \<and> replicate 20 3 \<in> set as"
proof -
  have s: "valid_set sample_set" "centered (vsValidators sample_set) (2 * total_power (vsValidators sample_set))"
    "vsTotal sample_set = total_power (vsValidators sample_set)" "length (vsValidators sample_set) \<le> 2 ^ 2"
    "(3 + int 2) * total_power (vsValidators sample_set) \<le> MaxInt64"
    using sample_set_inv
    by (simp_all add: rotation_inv_def sample_set_def sample_val_def total_power_def centered_def)
  obtain vals' as where r: "increments 100 sample_set = Ok (vals', as)"
    and a: "\<forall>v\<in>set (vsValidators sample_set).
       ((4 + int 2) * total_power (vsValidators sample_set) < int 100 * vaPower v \<longrightarrow> vaAddress v \<in> set as)"
    using proposer_rotation_fair [OF s(1,3,2,4,5), of 100] by blast
  have "sample_val 3 2 \<in> set (vsValidators sample_set)" by (simp add: sample_set_def)
  moreover have "(4 + int 2) * total_power (vsValidators sample_set) < int 100 * vaPower (sample_val 3 2)"
    by (simp add: sample_set_def sample_val_def total_power_def)
  ultimately have "vaAddress (sample_val 3 2) \<in> set as" using a by blast
  then show ?thesis using r by (simp add: sample_val_def)
qed

end
