(* ===== verification/Validator_Updates.thy ===== *)
theory Validator_Updates
  imports Proposer_Rotation "HOL-Library.Multiset"
begin

text \<open>
  The change-set algorithm of \<^verbatim>\<open>types/validator_set.go\<close>: changes are checked and split,
  verified against the set, merged into it, and the priorities of the result are rescaled and
  centred. The theory shows that the algorithm refines the update of a finite map from addresses to
  keys and powers, accepts exactly the changes whose result is a legal set, and never panics.

  An error leaves the set as it was, apart from the cache of the total power, which is recomputed
  from the powers whenever it is zero; the model returns the error alone.
\<close>

section \<open>The algorithm\<close>

fun process_loop ::
  "bytes \<Rightarrow> Validator list \<Rightarrow> Validator list \<Rightarrow> Validator list \<Rightarrow> (Validator list \<times> Validator list) outcome" where
  "process_loop prevAddr updates removals [] = Ok (updates, removals)"
| "process_loop prevAddr updates removals (v # vs) =
     (if vaAddress v = prevAddr then Err (ErrNew ''duplicate entry'')
      else if vaPower v < 0 then Err (ErrFmt ''voting power can't be negative'' [vaPower v])
      else if vaPower v > MaxTotalVotingPower
        then Err (ErrFmt ''to prevent clipping/overflow, voting power can't be higher'' [MaxTotalVotingPower, vaPower v])
      else if vaPower v = 0 then process_loop (vaAddress v) updates (removals @ [v]) vs
      else process_loop (vaAddress v) (updates @ [v]) removals vs)"

definition processChanges :: "Validator list \<Rightarrow> (Validator list \<times> Validator list) outcome" where
  "processChanges origChanges = process_loop [] [] [] (sort_by less_by_address origChanges)"

definition update_delta :: "ValidatorSet \<Rightarrow> Validator \<Rightarrow> int" where
  "update_delta vals update =
     (case snd (ValidatorSet_GetByAddressMut vals (vaAddress update)) of
        Some val \<Rightarrow> wrap64 (vaPower update - vaPower val)
      | None \<Rightarrow> vaPower update)"

fun tvp_loop :: "int \<Rightarrow> int list \<Rightarrow> int outcome" where
  "tvp_loop tvp [] = Ok tvp"
| "tvp_loop tvp (d # ds) =
     (let tvp' = wrap64 (tvp + d) in
      if tvp' > MaxTotalVotingPower then Err ErrTotalVotingPowerOverflow else tvp_loop tvp' ds)"

definition verifyUpdates :: "Validator list \<Rightarrow> ValidatorSet \<Rightarrow> int \<Rightarrow> (ValidatorSet \<times> int) outcome" where
  "verifyUpdates updates vals removedPower =
     (let updatesCopy = sort_by (\<lambda>a b. update_delta vals a < update_delta vals b) updates in
      bindo (ValidatorSet_TotalVotingPower vals) (\<lambda>(vals', tot).
      bindo (tvp_loop (wrap64 (tot - removedPower)) (map (update_delta vals) updatesCopy)) (\<lambda>tvp.
      Ok (vals', wrap64 (tvp + removedPower)))))"

definition numNewValidators :: "Validator list \<Rightarrow> ValidatorSet \<Rightarrow> nat" where
  "numNewValidators updates vals = length (filter (\<lambda>v. \<not> ValidatorSet_HasAddress vals (vaAddress v)) updates)"

definition new_priority :: "int \<Rightarrow> int" where
  "new_priority tvp = wrap64 (- wrap64 (tvp + tvp div 8))"

definition computeNewPriorities :: "Validator list \<Rightarrow> ValidatorSet \<Rightarrow> int \<Rightarrow> Validator list" where
  "computeNewPriorities updates vals tvp =
     map (\<lambda>u. case snd (ValidatorSet_GetByAddressMut vals (vaAddress u)) of
                None \<Rightarrow> set_priority (new_priority tvp) u
              | Some val \<Rightarrow> set_priority (vaPriority val) u) updates"

fun merge_updates :: "Validator list \<Rightarrow> Validator list \<Rightarrow> Validator list" where
  "merge_updates [] us = us"
| "merge_updates es [] = es"
| "merge_updates (e # es) (u # us) =
     (if bytes_compare (vaAddress e) (vaAddress u) < 0 then e # merge_updates es (u # us)
      else if vaAddress e = vaAddress u then u # merge_updates es us
      else u # merge_updates (e # es) us)"

definition ValidatorSet_applyUpdates :: "ValidatorSet \<Rightarrow> Validator list \<Rightarrow> ValidatorSet" where
  "ValidatorSet_applyUpdates vals updates =
     vals\<lparr>vsValidators := merge_updates (sort_by less_by_address (vsValidators vals)) updates\<rparr>"

fun removed_power_loop :: "int \<Rightarrow> ValidatorSet \<Rightarrow> Validator list \<Rightarrow> int outcome" where
  "removed_power_loop p vals [] = Ok p"
| "removed_power_loop p vals (d # ds) =
     (case snd (ValidatorSet_GetByAddressMut vals (vaAddress d)) of
        None \<Rightarrow> Err (ErrNew ''failed to find validator to remove'')
      | Some val \<Rightarrow> removed_power_loop (wrap64 (p + vaPower val)) vals ds)"

definition verifyRemovals :: "Validator list \<Rightarrow> ValidatorSet \<Rightarrow> int outcome" where
  "verifyRemovals deletes vals =
     bindo (removed_power_loop 0 vals deletes) (\<lambda>p.
     if length deletes > length (vsValidators vals) then Panic ''more deletes than validators'' else Ok p)"

text \<open>
  The result slice has room for \<open>cap\<close> elements; writing past it, or reading the front of an empty
  slice, panics.
\<close>

fun removal_loop :: "int \<Rightarrow> Validator list \<Rightarrow> Validator list \<Rightarrow> Validator list \<Rightarrow> Validator list outcome" where
  "removal_loop cap merged existing [] =
     (if existing \<noteq> [] \<and> int (length merged + length existing) > cap then Panic index_panic else Ok (merged @ existing))"
| "removal_loop cap merged [] (d # ds) = Panic index_panic"
| "removal_loop cap merged (e # es) (d # ds) =
     (if vaAddress e = vaAddress d then removal_loop cap merged es ds
      else if int (length merged) \<ge> cap then Panic index_panic
      else removal_loop cap (merged @ [e]) es (d # ds))"

definition ValidatorSet_applyRemovals :: "ValidatorSet \<Rightarrow> Validator list \<Rightarrow> ValidatorSet outcome" where
  "ValidatorSet_applyRemovals vals deletes =
     (let cap = int (length (vsValidators vals)) - int (length deletes) in
      if cap < 0 then Panic ''makeslice: len out of range''
      else bindo (removal_loop cap [] (vsValidators vals) deletes) (\<lambda>vs. Ok (vals\<lparr>vsValidators := vs\<rparr>)))"

text \<open>An element that an update replaces or a removal drops stays reachable through the proposer pointer only.\<close>

definition detach_proposer :: "Validator list \<Rightarrow> ValidatorSet \<Rightarrow> ValidatorSet" where
  "detach_proposer gone vals =
     (case vsProposer vals of
        InSet a \<Rightarrow>
          if a \<in> vaAddress ` set gone
          then vals\<lparr>vsProposer := (case Proposer vals of None \<Rightarrow> NoProposer | Some p \<Rightarrow> Detached p)\<rparr>
          else vals
      | _ \<Rightarrow> vals)"

definition ValidatorSet_updateWithChangeSet :: "ValidatorSet \<Rightarrow> Validator list \<Rightarrow> bool \<Rightarrow> ValidatorSet outcome" where
  "ValidatorSet_updateWithChangeSet vals changes allowDeletes =
     (if length changes = 0 then Ok vals
      else
        bindo (processChanges changes) (\<lambda>(updates, deletes).
        if \<not> allowDeletes \<and> length deletes \<noteq> 0
          then Err (ErrNew ''cannot process validators with voting power 0'')
        else if numNewValidators updates vals = 0 \<and> length (vsValidators vals) = length deletes
          then Err (ErrNew ''applying the validator changes would result in empty set'')
        else
          bindo (verifyRemovals deletes vals) (\<lambda>removedVotingPower.
          bindo (verifyUpdates updates vals removedVotingPower) (\<lambda>(vals1, tvp).
          let updates' = computeNewPriorities updates vals1 tvp;
              vals2 = ValidatorSet_applyUpdates (detach_proposer (updates @ deletes) vals1) updates'
          in bindo (ValidatorSet_applyRemovals vals2 deletes) (\<lambda>vals3.
             bindo (ValidatorSet_checkAllKeysHaveSameType vals3) (\<lambda>vals4.
             bindo (ValidatorSet_updateTotalVotingPower vals4) (\<lambda>vals5.
             bindo (ValidatorSet_TotalVotingPower vals5) (\<lambda>(vals6, tot).
             bindo (ValidatorSet_RescalePriorities vals6 (wrap64 (PriorityWindowSizeFactor * tot))) (\<lambda>vals7.
             bindo (ValidatorSet_shiftByAvgProposerPriority vals7) (\<lambda>vals8.
             Ok (vals8\<lparr>vsValidators := sort_by less_by_power (vsValidators vals8)\<rparr>)))))))))))"

definition ValidatorSet_UpdateWithChangeSet :: "ValidatorSet \<Rightarrow> Validator list \<Rightarrow> ValidatorSet outcome" where
  "ValidatorSet_UpdateWithChangeSet vals changes = ValidatorSet_updateWithChangeSet vals changes True"

definition NewValidatorSet :: "Validator list \<Rightarrow> ValidatorSet outcome" where
  "NewValidatorSet valz =
     (case ValidatorSet_updateWithChangeSet
             \<lparr>vsValidators = [], vsProposer = NoProposer, vsTotal = 0, vsSameType = True\<rparr> valz False of
        Err _ \<Rightarrow> Panic ''Cannot create validator set''
      | Panic s \<Rightarrow> Panic s
      | Ok vals \<Rightarrow> if length valz > 0 then ValidatorSet_IncrementProposerPriority vals 1 else Ok vals)"

section \<open>Sorting with a strict order\<close>

text \<open>
  The contract of an order given to \<^verbatim>\<open>sort.Sort\<close>: a strict order that compares any two
  elements with distinct keys. Elements with distinct keys then have exactly one sorted arrangement,
  whatever algorithm produces it.
\<close>

locale keyed_order =
  fixes lt :: "'x \<Rightarrow> 'x \<Rightarrow> bool" and key :: "'x \<Rightarrow> 'b"
  assumes irrefl: "\<not> lt x x"
    and trans: "lt x y \<Longrightarrow> lt y z \<Longrightarrow> lt x z"
    and total: "key x \<noteq> key y \<Longrightarrow> lt x y \<or> lt y x"
begin

lemma set_insert_by [simp]: "set (insert_by lt x xs) = insert x (set xs)"
  by (induction xs) auto

lemma sorted_insert_by:
  assumes "sorted_wrt lt xs" "key x \<notin> key ` set xs"
  shows "sorted_wrt lt (insert_by lt x xs)"
  using assms
proof (induction xs)
  case (Cons y ys)
  then have "\<not> lt y x \<Longrightarrow> lt x y" using total [of x y] by auto
  then show ?case using Cons trans by auto
qed simp

lemma set_sort_by [simp]: "set (sort_by lt xs) = set xs"
  by (induction xs) (auto simp: sort_by_def)

lemma mset_insert_by: "mset (insert_by lt x xs) = add_mset x (mset xs)"
  by (induction xs) auto

lemma mset_sort_by [simp]: "mset (sort_by lt xs) = mset xs"
  by (induction xs) (auto simp: sort_by_def mset_insert_by)

lemma sorted_sort_by: "distinct (map key xs) \<Longrightarrow> sorted_wrt lt (sort_by lt xs)"
proof (induction xs)
  case (Cons x xs)
  then have "sorted_wrt lt (insert_by lt x (sort_by lt xs))" by (intro sorted_insert_by) auto
  then show ?case by (simp add: sort_by_def)
qed (simp add: sort_by_def)

lemma sorted_unique:
  "sorted_wrt lt xs \<Longrightarrow> sorted_wrt lt ys \<Longrightarrow> set xs = set ys \<Longrightarrow> xs = ys"
proof (induction xs arbitrary: ys)
  case (Cons x xs)
  then obtain y ys' where ys: "ys = y # ys'" by (cases ys) auto
  have "x = y"
  proof (rule ccontr)
    assume "x \<noteq> y"
    then have "lt y x" "lt x y" using Cons.prems ys by auto
    then show False using irrefl trans by blast
  qed
  moreover have "x \<notin> set xs" "y \<notin> set ys'" using Cons.prems irrefl ys by auto
  ultimately have "set xs = set ys'" using Cons.prems(3) ys by (metis insert_ident list.simps(15))
  then show ?case using Cons.IH [of ys'] Cons.prems ys \<open>x = y\<close> by simp
qed simp

end

interpretation by_address: keyed_order less_by_address vaAddress
  by unfold_locales (auto simp: less_by_address_def bytes_compare_def split: if_splits)

interpretation by_power: keyed_order less_by_power vaAddress
  by unfold_locales (auto simp: less_by_power_def bytes_compare_def split: if_splits)

section \<open>Sets as maps\<close>

text \<open>A set as the finite map from addresses to keys and powers, and what a list of changes makes of it.\<close>

definition abs_map :: "Validator list \<Rightarrow> bytes \<Rightarrow> (PubKey option \<times> int) option" where
  "abs_map vs a = map_option (\<lambda>v. (vaPubKey v, vaPower v)) (find (addr_is a) vs)"

definition spec_map :: "Validator list \<Rightarrow> Validator list \<Rightarrow> bytes \<Rightarrow> (PubKey option \<times> int) option" where
  "spec_map vs changes a =
     (case find (addr_is a) changes of
        Some c \<Rightarrow> if vaPower c = 0 then None else Some (vaPubKey c, vaPower c)
      | None \<Rightarrow> abs_map vs a)"

definition map_power :: "(bytes \<Rightarrow> (PubKey option \<times> int) option) \<Rightarrow> int" where
  "map_power m = (\<Sum>a\<in>dom m. snd (the (m a)))"

abbreviation addrs :: "Validator list \<Rightarrow> bytes set" where
  "addrs vs \<equiv> vaAddress ` set vs"

definition legal_changes :: "Validator list \<Rightarrow> bool" where
  "legal_changes changes \<longleftrightarrow>
     distinct (map vaAddress changes) \<and>
     (\<forall>v\<in>set changes. vaAddress v \<noteq> [] \<and> 0 \<le> vaPower v \<and> vaPower v \<le> MaxTotalVotingPower)"

text \<open>The changes whose result is a legal set.\<close>

definition acceptable :: "Validator list \<Rightarrow> Validator list \<Rightarrow> bool \<Rightarrow> bool" where
  "acceptable vs changes allowDeletes \<longleftrightarrow>
     legal_changes changes \<and> (allowDeletes \<or> (\<forall>v\<in>set changes. vaPower v \<noteq> 0)) \<and>
     (\<forall>v\<in>set changes. vaPower v = 0 \<longrightarrow> vaAddress v \<in> addrs vs) \<and>
     dom (spec_map vs changes) \<noteq> {} \<and> map_power (spec_map vs changes) \<le> MaxTotalVotingPower"

definition base_ok :: "Validator list \<Rightarrow> bool" where
  "base_ok vs \<longleftrightarrow>
     distinct (map vaAddress vs) \<and> (\<forall>v\<in>set vs. 0 < vaPower v \<and> in64 (vaPriority v)) \<and>
     total_power vs \<le> MaxTotalVotingPower"

lemma valid_vals_base: "valid_vals vs \<longleftrightarrow> vs \<noteq> [] \<and> base_ok vs"
  by (auto simp: valid_vals_def base_ok_def)

lemma find_addr_None: "find (addr_is a) vs = None \<longleftrightarrow> a \<notin> addrs vs"
  by (auto simp: find_None_iff addr_is_def)

lemma find_addr_in: "find (addr_is a) vs = Some v \<Longrightarrow> a \<in> addrs vs"
  by (auto simp: find_Some_iff addr_is_def)

lemma find_addr_Some:
  "distinct (map vaAddress vs) \<Longrightarrow> find (addr_is a) vs = Some v \<longleftrightarrow> v \<in> set vs \<and> vaAddress v = a"
  by (induction vs) (auto simp: addr_is_def)

lemma GetByAddressMut_find: "snd (ValidatorSet_GetByAddressMut vals a) = find (addr_is a) (vsValidators vals)"
proof -
  have "snd (find_address i a vs) = find (addr_is a) vs" for i vs
    by (induction vs arbitrary: i) (auto simp: addr_is_def)
  then show ?thesis by (simp add: ValidatorSet_GetByAddressMut_def)
qed

lemma HasAddress_addrs: "ValidatorSet_HasAddress vals a \<longleftrightarrow> a \<in> addrs (vsValidators vals)"
  by (auto simp: ValidatorSet_HasAddress_def list_ex_iff addr_is_def)

text \<open>The power of an address in a list, zero when it is absent.\<close>

definition pw :: "Validator list \<Rightarrow> bytes \<Rightarrow> int" where
  "pw vs a = (case find (addr_is a) vs of None \<Rightarrow> 0 | Some v \<Rightarrow> vaPower v)"

lemma pw_absent: "a \<notin> addrs vs \<Longrightarrow> pw vs a = 0"
  by (metis find_addr_None option.simps(4) pw_def)

lemma pw_member: "distinct (map vaAddress vs) \<Longrightarrow> v \<in> set vs \<Longrightarrow> pw vs (vaAddress v) = vaPower v"
  using find_addr_Some [of vs "vaAddress v" v] by (simp add: pw_def)

lemma sum_pw:
  assumes "distinct (map vaAddress vs)" "addrs vs \<subseteq> A" "finite A"
  shows "sum (pw vs) A = total_power vs"
proof -
  have "sum (pw vs) A = sum (pw vs) (addrs vs)"
    using assms by (intro sum.mono_neutral_right) (auto simp: pw_absent)
  also have "\<dots> = (\<Sum>v\<in>set vs. pw vs (vaAddress v))"
    using assms(1) by (simp add: distinct_map sum.reindex)
  also have "\<dots> = (\<Sum>v\<in>set vs. vaPower v)" using assms(1) by (intro sum.cong) (auto simp: pw_member)
  also have "\<dots> = total_power vs" using assms(1) by (simp add: total_power_def distinct_map sum_list_distinct_conv_sum_set)
  finally show ?thesis .
qed

lemma sum_over_members:
  assumes "distinct (map vaAddress us)"
  shows "sum_list (map (\<lambda>u. f (vaAddress u)) us) = sum f (addrs us)"
  using assms by (simp add: distinct_map sum_list_distinct_conv_sum_set sum.reindex)

section \<open>Each step\<close>

lemma sort_address_weak: "sorted_wrt (\<lambda>a b. vaAddress a \<le> vaAddress b) (sort_by less_by_address xs)"
proof -
  have "sorted_wrt (\<lambda>a b. vaAddress a \<le> vaAddress b) ys \<Longrightarrow>
      sorted_wrt (\<lambda>a b. vaAddress a \<le> vaAddress b) (insert_by less_by_address x ys)" for x ys
    by (induction ys) (auto simp: less_by_address_def bytes_compare_def split: if_splits)
  then show ?thesis by (induction xs) (auto simp: sort_by_def)
qed

abbreviation by_addr :: "Validator list \<Rightarrow> bool" where
  "by_addr \<equiv> sorted_wrt (\<lambda>a b. vaAddress a < vaAddress b)"

lemma less_by_address_iff [simp]: "less_by_address a b \<longleftrightarrow> vaAddress a < vaAddress b"
  by (auto simp: less_by_address_def bytes_compare_def)

lemma less_by_address_lambda: "less_by_address = (\<lambda>a b. vaAddress a < vaAddress b)"
  by (intro ext) simp

lemma by_addr_distinct: "by_addr vs \<Longrightarrow> distinct (map vaAddress vs)"
  by (induction vs) auto

lemma by_addr_sort: "distinct (map vaAddress vs) \<Longrightarrow> by_addr (sort_by less_by_address vs)"
  using by_address.sorted_sort_by by (simp add: less_by_address_lambda)

lemma process_loop_Ok:
  assumes "by_addr vs" "\<forall>v\<in>set vs. prev < vaAddress v \<and> 0 \<le> vaPower v \<and> vaPower v \<le> MaxTotalVotingPower"
  shows "process_loop prev us rs vs =
    Ok (us @ filter (\<lambda>v. vaPower v \<noteq> 0) vs, rs @ filter (\<lambda>v. vaPower v = 0) vs)"
  using assms by (induction vs arbitrary: prev us rs) auto

lemma process_loop_legal:
  assumes "sorted_wrt (\<lambda>a b. vaAddress a \<le> vaAddress b) vs" "\<forall>v\<in>set vs. prev \<le> vaAddress v"
    "process_loop prev us rs vs = Ok r"
  shows "by_addr vs \<and> (\<forall>v\<in>set vs. prev < vaAddress v \<and> 0 \<le> vaPower v \<and> vaPower v \<le> MaxTotalVotingPower)"
  using assms
proof (induction vs arbitrary: prev us rs)
  case (Cons v vs)
  then have p: "prev < vaAddress v" "0 \<le> vaPower v" "vaPower v \<le> MaxTotalVotingPower"
    by (auto simp: order.not_eq_order_implies_strict split: if_splits)
  obtain us' rs' where "process_loop (vaAddress v) us' rs' vs = Ok r" using Cons.prems p by (auto split: if_splits)
  then show ?case using Cons.IH [of "vaAddress v" us' rs'] Cons.prems p by fastforce
qed simp

lemma process_loop_no_panic: "process_loop prev us rs vs \<noteq> Panic s"
  by (induction vs arbitrary: prev us rs) auto

lemma Nil_less_bytes [simp]: "([] :: bytes) < a \<longleftrightarrow> a \<noteq> []"
  by (cases a) simp_all

lemma processChanges_spec:
  "legal_changes ch \<Longrightarrow> processChanges ch =
     Ok (filter (\<lambda>v. vaPower v \<noteq> 0) (sort_by less_by_address ch), filter (\<lambda>v. vaPower v = 0) (sort_by less_by_address ch))"
  using process_loop_Ok [of "sort_by less_by_address ch" "[]" "[]" "[]"] by_addr_sort [of ch]
  by (simp add: processChanges_def legal_changes_def)

lemma processChanges_error:
  assumes "\<not> legal_changes ch" shows "\<exists>e. processChanges ch = Err e"
proof (cases "processChanges ch")
  case (Ok r)
  then have s: "by_addr (sort_by less_by_address ch)"
    and v: "\<forall>v\<in>set ch. [] < vaAddress v \<and> 0 \<le> vaPower v \<and> vaPower v \<le> MaxTotalVotingPower"
    using process_loop_legal [OF sort_address_weak [of ch], of "[]" "[]" "[]" r] by (simp_all add: processChanges_def)
  have "mset (map vaAddress (sort_by less_by_address ch)) = mset (map vaAddress ch)" by simp
  then have "distinct (map vaAddress ch)" using by_addr_distinct [OF s] mset_eq_imp_distinct_iff by blast
  then have "legal_changes ch" using v by (simp add: legal_changes_def)
  then show ?thesis using assms by simp
qed (auto simp: processChanges_def process_loop_no_panic)

text \<open>The running total over deltas in ascending order exceeds the maximum exactly when the final total does.\<close>

lemma tvp_loop_sorted:
  "sorted ds \<Longrightarrow> MinInt64 \<le> t + sum_list (filter (\<lambda>d. d < 0) ds) \<Longrightarrow> t \<le> MaxTotalVotingPower \<Longrightarrow>
   \<forall>d\<in>set ds. d \<le> MaxTotalVotingPower \<Longrightarrow>
   tvp_loop t ds = (if t + sum_list ds > MaxTotalVotingPower then Err ErrTotalVotingPowerOverflow else Ok (t + sum_list ds))"
proof (induction ds arbitrary: t)
  case (Cons d ds)
  have neg: "sum_list (filter (\<lambda>d. d < 0) ds) \<le> 0" by (induction ds) auto
  have w: "wrap64 (t + d) = t + d" using Cons.prems neg by (intro wrap64_idI) (auto split: if_splits)
  show ?case
  proof (cases "t + d > MaxTotalVotingPower")
    case True
    then have "0 \<le> d" using Cons.prems(3) by simp
    then have "0 \<le> sum_list ds" using Cons.prems(1) by (intro sum_list_nonneg) auto
    then show ?thesis using True w by simp
  next
    case False
    then show ?thesis using Cons.IH [of "t + d"] Cons.prems w neg by (auto simp: add.assoc split: if_splits)
  qed
qed simp

lemma sorted_map_sort_by: "sorted (map f (sort_by (\<lambda>a b. f a < (f b :: int)) xs))"
proof -
  have ins: "set (insert_by (\<lambda>a b. f a < f b) x ys) = insert x (set ys)" for x ys by (induction ys) auto
  have "sorted (map f ys) \<Longrightarrow> sorted (map f (insert_by (\<lambda>a b. f a < f b) x ys))" for x ys
    by (induction ys) (auto simp: ins)
  then show ?thesis by (induction xs) (auto simp: sort_by_def)
qed

lemma mset_sort_by_gen: "mset (sort_by lt xs) = mset xs"
proof -
  have "mset (insert_by lt x ys) = add_mset x (mset ys)" for x ys by (induction ys) auto
  then show ?thesis by (induction xs) (auto simp: sort_by_def)
qed

lemma removed_power_loop_spec:
  assumes "\<forall>d\<in>set ds. vaAddress d \<in> addrs (vsValidators vals)"
    and "\<forall>v\<in>set (vsValidators vals). 0 < vaPower v"
    and "0 \<le> p" "p + sum_list (map (\<lambda>d. pw (vsValidators vals) (vaAddress d)) ds) \<le> MaxTotalVotingPower"
  shows "removed_power_loop p vals ds = Ok (p + sum_list (map (\<lambda>d. pw (vsValidators vals) (vaAddress d)) ds))"
  using assms
proof (induction ds arbitrary: p)
  case (Cons d ds)
  let ?vs = "vsValidators vals"
  obtain v where v: "find (addr_is (vaAddress d)) ?vs = Some v"
    using Cons.prems(1) by (cases "find (addr_is (vaAddress d)) ?vs") (auto simp: find_addr_None)
  then have "v \<in> set ?vs" by (auto simp: find_Some_iff)
  then have pos: "0 < vaPower v" using Cons.prems(2) by blast
  have pv: "pw ?vs (vaAddress d) = vaPower v" using v by (simp add: pw_def)
  have "0 \<le> pw ?vs a" for a using Cons.prems(2) by (auto simp: pw_def find_Some_iff split: option.split intro: less_imp_le)
  then have nn: "0 \<le> sum_list (map (\<lambda>d. pw ?vs (vaAddress d)) ds)" by (intro sum_list_nonneg) auto
  then have "wrap64 (p + vaPower v) = p + vaPower v" using Cons.prems pos pv by (intro wrap64_idI) auto
  then show ?case using Cons.IH [of "p + vaPower v"] Cons.prems pos pv v nn
    by (simp add: GetByAddressMut_find add.assoc)
qed simp

lemma removed_power_loop_missing:
  "\<exists>d\<in>set ds. vaAddress d \<notin> addrs (vsValidators vals) \<Longrightarrow> \<exists>e. removed_power_loop p vals ds = Err e"
proof (induction ds arbitrary: p)
  case (Cons d ds)
  then show ?case
    by (cases "vaAddress d \<in> addrs (vsValidators vals)") (auto simp: GetByAddressMut_find split: option.split dest: find_addr_in)
qed simp

lemma set_merge_updates:
  "by_addr es \<Longrightarrow> by_addr us \<Longrightarrow> set (merge_updates es us) = set us \<union> {e \<in> set es. vaAddress e \<notin> addrs us}"
proof (induction es us rule: merge_updates.induct)
  case (3 e es u us)
  consider "vaAddress e < vaAddress u" | "vaAddress e = vaAddress u" | "vaAddress u < vaAddress e" by fastforce
  then show ?case
  proof cases
    case 1
    then have "\<forall>x\<in>set (u # us). vaAddress e \<noteq> vaAddress x" using 3(5) by auto
    then show ?thesis using 3 1 by auto
  next
    case 2 then show ?thesis using 3 by auto
  next
    case 3
    then have "\<forall>x\<in>set (e # es). vaAddress u \<noteq> vaAddress x" using \<open>by_addr (e # es)\<close> by auto
    then show ?thesis using "3.IH"(3) "3.prems" 3 by auto
  qed
qed auto

lemma by_addr_merge_updates: "by_addr es \<Longrightarrow> by_addr us \<Longrightarrow> by_addr (merge_updates es us)"
proof (induction es us rule: merge_updates.induct)
  case (3 e es u us)
  note IH = "3.IH" and pr = "3.prems"
  consider "vaAddress e < vaAddress u" | "vaAddress e = vaAddress u" | "vaAddress u < vaAddress e" by fastforce
  then show ?case
  proof cases
    case 1
    then have "\<forall>x\<in>set (merge_updates es (u # us)). vaAddress e < vaAddress x"
      using pr set_merge_updates [of es "u # us"] by auto
    then show ?thesis using 1 IH(1) pr by simp
  next
    case 2
    then have "\<forall>x\<in>set (merge_updates es us). vaAddress u < vaAddress x"
      using pr set_merge_updates [of es us] by auto
    then show ?thesis using 2 IH(2) pr by simp
  next
    case 3
    then have "\<forall>x\<in>set (merge_updates (e # es) us). vaAddress u < vaAddress x"
      using pr set_merge_updates [of "e # es" us] by auto
    then show ?thesis using 3 IH(3) pr by auto
  qed
qed auto

lemma length_le_addrs:
  assumes "distinct (map vaAddress ds)" "addrs ds \<subseteq> addrs es" shows "length ds \<le> length es"
proof -
  have "length ds = card (addrs ds)" using assms(1) by (metis distinct_card length_map list.set_map)
  also have "\<dots> \<le> card (addrs es)" using assms(2) by (intro card_mono) auto
  also have "\<dots> \<le> length es" by (metis card_length length_map list.set_map)
  finally show ?thesis .
qed

lemma removal_loop_spec:
  "by_addr es \<Longrightarrow> by_addr ds \<Longrightarrow> addrs ds \<subseteq> addrs es \<Longrightarrow>
   cap = int (length merged) + int (length es) - int (length ds) \<Longrightarrow>
   removal_loop cap merged es ds = Ok (merged @ filter (\<lambda>e. vaAddress e \<notin> addrs ds) es)"
proof (induction cap merged es ds rule: removal_loop.induct)
  case (3 cap merged e es d ds)
  note IH = "3.IH" and pr = "3.prems"
  show ?case
  proof (cases "vaAddress e = vaAddress d")
    case True
    have "addrs ds \<subseteq> insert (vaAddress d) (addrs es)" using pr(3) True by auto
    moreover have "vaAddress d \<notin> addrs ds" using pr(2) by auto
    ultimately have sub: "addrs ds \<subseteq> addrs es" by (rule iffD1 [OF subset_insert, rotated])
    have "vaAddress x \<noteq> vaAddress d" if "x \<in> set es" for x using pr(1) that True by auto
    then have "filter (\<lambda>e. vaAddress e \<notin> addrs (d # ds)) (e # es) = filter (\<lambda>e. vaAddress e \<notin> addrs ds) es"
      using True by (auto intro: filter_cong)
    then show ?thesis using True IH(1) pr sub by simp
  next
    case False
    then have d: "vaAddress d \<in> addrs es" using pr(3) by auto
    have e: "vaAddress e \<notin> addrs (d # ds)"
    proof
      assume "vaAddress e \<in> addrs (d # ds)"
      then have "vaAddress d < vaAddress e" using pr(2) False by auto
      moreover have "vaAddress e < vaAddress d" using pr(1) d by auto
      ultimately show False by simp
    qed
    moreover have "addrs (d # ds) \<subseteq> insert (vaAddress e) (addrs es)" using pr(3) by simp
    ultimately have sub: "addrs (d # ds) \<subseteq> addrs es" by (rule iffD1 [OF subset_insert])
    have "length (d # ds) \<le> length es" using by_addr_distinct [OF pr(2)] sub by (rule length_le_addrs)
    then have "\<not> int (length merged) \<ge> cap" using pr(4) by simp
    then have "removal_loop cap merged (e # es) (d # ds) = removal_loop cap (merged @ [e]) es (d # ds)"
      using False by simp
    also have "\<dots> = Ok ((merged @ [e]) @ filter (\<lambda>e. vaAddress e \<notin> addrs (d # ds)) es)"
      using IH(2) False \<open>\<not> int (length merged) \<ge> cap\<close> pr sub by simp
    finally show ?thesis using e by simp
  qed
qed auto

lemma same_type_loop_total: "\<forall>v\<in>set vs. vaPubKey v \<noteq> None \<Longrightarrow> \<exists>b. same_type_loop t vs = Ok b"
proof (induction vs arbitrary: t)
  case (Cons v vs)
  obtain k where "vaPubKey v = Some k" using Cons.prems by auto
  then show ?case using Cons by auto
qed auto

lemma wrap64_above: "MaxInt64 < x \<Longrightarrow> x \<le> MaxInt64 + 18446744073709551616 \<Longrightarrow> wrap64 x = x - 18446744073709551616"
proof -
  assume x: "MaxInt64 < x" "x \<le> MaxInt64 + 18446744073709551616"
  have "(x + 9223372036854775808) mod 18446744073709551616 =
      ((x - 9223372036854775808) + 18446744073709551616) mod 18446744073709551616" by (simp add: add.commute)
  also have "\<dots> = x - 9223372036854775808" using x by (simp only: mod_add_self2) simp
  finally show ?thesis by (simp add: wrap64_def)
qed

lemma quot_nonzero: "0 < d \<Longrightarrow> d \<le> y \<or> y \<le> - d \<Longrightarrow> quot y d \<noteq> 0"
proof -
  assume d: "0 < d" and "d \<le> y \<or> y \<le> - d"
  then consider "d \<le> y" | "d \<le> - y" by linarith
  then show ?thesis
  proof cases
    case 1
    then have "1 \<le> y div d" using d by (simp add: le_div_iff_mult_le)
    then show ?thesis using 1 d by (simp add: quot_nonneg)
  next
    case 2
    then have "1 \<le> (- y) div d" using d by (simp add: le_div_iff_mult_le)
    then show ?thesis using 2 d by (simp add: quot_neg)
  qed
qed

text \<open>Rescaling never divides by zero, even where the distance of two priorities overflows.\<close>

lemma RescalePriorities_total:
  assumes vs: "vsValidators vals \<noteq> []" and i: "\<forall>v\<in>set (vsValidators vals). in64 (vaPriority v)"
    and dm: "0 < diffMax" "diffMax \<le> 2 * MaxTotalVotingPower"
  shows "\<exists>vs'. ValidatorSet_RescalePriorities vals diffMax = Ok (vals\<lparr>vsValidators := vs'\<rparr>) \<and>
    same_vals (vsValidators vals) vs' \<and> (\<forall>v\<in>set vs'. in64 (vaPriority v))"
proof -
  let ?vs = "vsValidators vals"
  obtain diff where df: "computeMaxMinPriorityDiff vals = Ok diff" "in64 diff"
    using vs by (cases "max_min_loop MinInt64 MaxInt64 ?vs")
      (auto simp: computeMaxMinPriorityDiff_def ValidatorSet_IsNilOrEmpty_def Let_def)
  define ratio where "ratio = quot (wrap64 (wrap64 (diff + diffMax) - 1)) diffMax"
  show ?thesis
  proof (cases "diff > diffMax")
    case False
    then have "ValidatorSet_RescalePriorities vals diffMax = Ok (vals\<lparr>vsValidators := ?vs\<rparr>)"
      using vs df dm by (simp add: ValidatorSet_RescalePriorities_def ValidatorSet_IsNilOrEmpty_def Let_def)
    then show ?thesis using i by (intro exI [of _ ?vs]) simp
  next
    case True
    define y where "y = wrap64 (wrap64 (diff + diffMax) - 1)"
    consider "diff + diffMax \<le> MaxInt64" | "diff + diffMax = MaxInt64 + 1" | "MaxInt64 + 1 < diff + diffMax" by linarith
    then have "diffMax \<le> y \<or> y \<le> - diffMax"
    proof cases
      case 1 then show ?thesis using True dm unfolding y_def by (simp add: wrap64_idI)
    next
      case 2 then show ?thesis using dm unfolding y_def by (simp add: wrap64_def)
    next
      case 3
      then have "y = diff + diffMax - 18446744073709551616 - 1"
        using df(2) dm unfolding y_def in64_def by (simp add: wrap64_above wrap64_idI)
      then show ?thesis using df(2) dm unfolding in64_def by simp
    qed
    then have "ratio \<noteq> 0" unfolding ratio_def y_def using dm(1) by (intro quot_nonzero)
    then have "ValidatorSet_RescalePriorities vals diffMax =
        Ok (vals\<lparr>vsValidators := map (\<lambda>v. set_priority (wrap64 (quot (vaPriority v) ratio)) v) ?vs\<rparr>)"
      using vs df dm True
      by (simp add: ValidatorSet_RescalePriorities_def ValidatorSet_IsNilOrEmpty_def Let_def ratio_def)
    then show ?thesis
      by (intro exI [of _ "map (\<lambda>v. set_priority (wrap64 (quot (vaPriority v) ratio)) v) ?vs"]) (simp add: same_vals_map)
  qed
qed

lemma shiftByAvg_total:
  assumes vs: "vsValidators vals \<noteq> []" and i: "\<forall>v\<in>set (vsValidators vals). in64 (vaPriority v)"
  shows "\<exists>vs'. ValidatorSet_shiftByAvgProposerPriority vals = Ok (vals\<lparr>vsValidators := vs'\<rparr>) \<and>
    same_vals (vsValidators vals) vs' \<and> (\<forall>v\<in>set vs'. in64 (vaPriority v))"
proof -
  let ?vs = "vsValidators vals"
  define avg where "avg = sum_list (map vaPriority ?vs) div int (length ?vs)"
  have a64: "in64 avg"
    using avg_between [of "map vaPriority ?vs" MinInt64 MaxInt64] i vs by (simp add: avg_def in64_def)
  then have "ValidatorSet_shiftByAvgProposerPriority vals =
      Ok (vals\<lparr>vsValidators := map (\<lambda>v. set_priority (safeSubClip (vaPriority v) avg) v) ?vs\<rparr>)"
    using vs by (simp add: ValidatorSet_shiftByAvgProposerPriority_def ValidatorSet_IsNilOrEmpty_def
        ValidatorSet_computeAvgProposerPriority_def Let_def avg_def [symmetric])
  then show ?thesis using i a64
    by (intro exI [of _ "map (\<lambda>v. set_priority (safeSubClip (vaPriority v) avg) v) ?vs"])
       (simp add: same_vals_map safeSubClip_eq)
qed

text \<open>The tail of the algorithm, from the merged list on.\<close>

lemma finish_update:
  assumes ok: "valid_vals vs" and k: "\<forall>v\<in>set vs. vaPubKey v \<noteq> None" and v3: "vsValidators vals3 = vs"
  shows "\<exists>vs' b. bindo (ValidatorSet_checkAllKeysHaveSameType vals3) (\<lambda>vals4.
             bindo (ValidatorSet_updateTotalVotingPower vals4) (\<lambda>vals5.
             bindo (ValidatorSet_TotalVotingPower vals5) (\<lambda>(vals6, tot).
             bindo (ValidatorSet_RescalePriorities vals6 (wrap64 (PriorityWindowSizeFactor * tot))) (\<lambda>vals7.
             bindo (ValidatorSet_shiftByAvgProposerPriority vals7) (\<lambda>vals8.
             Ok (vals8\<lparr>vsValidators := sort_by less_by_power (vsValidators vals8)\<rparr>))))))
           = Ok (vals3\<lparr>vsValidators := sort_by less_by_power vs', vsTotal := total_power vs, vsSameType := b\<rparr>) \<and>
         same_vals vs vs' \<and> valid_vals vs'"
proof -
  have T: "0 < total_power vs" "total_power vs \<le> MaxTotalVotingPower"
    using total_power_pos [OF ok] ok by (simp_all add: valid_vals_def)
  obtain b where b: "same_type_loop [] vs = Ok b" using same_type_loop_total [OF k] by blast
  define vals4 where "vals4 = vals3\<lparr>vsSameType := b\<rparr>"
  have s4: "ValidatorSet_checkAllKeysHaveSameType vals3 = Ok vals4"
    using ok b v3 by (simp add: ValidatorSet_checkAllKeysHaveSameType_def ValidatorSet_Size_def valid_vals_def vals4_def)
  define vals5 where "vals5 = vals4\<lparr>vsTotal := total_power vs\<rparr>"
  have "power_loop 0 vs = Ok (total_power vs)"
    using power_loop_eq [of vs 0] ok by (simp add: valid_vals_def)
  then have s5: "ValidatorSet_updateTotalVotingPower vals4 = Ok vals5"
    using v3 by (simp add: ValidatorSet_updateTotalVotingPower_def vals4_def vals5_def)
  have s6: "ValidatorSet_TotalVotingPower vals5 = Ok (vals5, total_power vs)"
    using T by (simp add: ValidatorSet_TotalVotingPower_def vals5_def)
  have w: "wrap64 (PriorityWindowSizeFactor * total_power vs) = 2 * total_power vs"
    using T by (simp add: PriorityWindowSizeFactor_def wrap64_idI)
  have v5: "vsValidators vals5 = vs" using v3 by (simp add: vals5_def vals4_def)
  obtain vs7 where s7: "ValidatorSet_RescalePriorities vals5 (2 * total_power vs) = Ok (vals5\<lparr>vsValidators := vs7\<rparr>)"
    and vs7: "same_vals vs vs7" "\<forall>v\<in>set vs7. in64 (vaPriority v)"
    using RescalePriorities_total [of vals5 "2 * total_power vs"] T ok v5 by (auto simp: valid_vals_def)
  have "vs7 \<noteq> []" using same_vals_length [OF vs7(1)] ok by (auto simp: valid_vals_def)
  then obtain vs8 where s8: "ValidatorSet_shiftByAvgProposerPriority (vals5\<lparr>vsValidators := vs7\<rparr>) = Ok (vals5\<lparr>vsValidators := vs8\<rparr>)"
    and vs8: "same_vals vs7 vs8" "\<forall>v\<in>set vs8. in64 (vaPriority v)"
    using shiftByAvg_total [of "vals5\<lparr>vsValidators := vs7\<rparr>"] vs7(2) by auto
  have same: "same_vals vs vs8" using vs7(1) vs8(1) by (rule same_vals_trans)
  have "valid_vals vs8" by (rule valid_vals_same [OF same ok vs8(2)])
  then show ?thesis using s4 s5 s6 s7 s8 w same
    by (intro exI [of _ vs8] exI [of _ b]) (simp add: vals5_def vals4_def)
qed

lemma valid_vals_perm: "mset vs' = mset vs \<Longrightarrow> valid_vals vs \<Longrightarrow> valid_vals vs'"
proof -
  assume m: "mset vs' = mset vs" and v: "valid_vals vs"
  then have "set vs' = set vs" "vs' \<noteq> []" by (metis set_mset_mset) (use m v in \<open>auto simp: valid_vals_def\<close>)
  moreover have "mset (map vaAddress vs') = mset (map vaAddress vs)" using m by simp
  then have "distinct (map vaAddress vs')" using v mset_eq_imp_distinct_iff unfolding valid_vals_def by blast
  moreover have "mset (map vaPower vs') = mset (map vaPower vs)" using m by simp
  then have "total_power vs' = total_power vs" unfolding total_power_def by (metis sum_mset_sum_list)
  ultimately show ?thesis using v by (simp add: valid_vals_def)
qed

section \<open>The merged list\<close>

definition ups_of :: "Validator list \<Rightarrow> Validator list" where
  "ups_of ch = filter (\<lambda>v. vaPower v \<noteq> 0) (sort_by less_by_address ch)"

definition dels_of :: "Validator list \<Rightarrow> Validator list" where
  "dels_of ch = filter (\<lambda>v. vaPower v = 0) (sort_by less_by_address ch)"

lemma set_ups_of [simp]: "set (ups_of ch) = {c \<in> set ch. vaPower c \<noteq> 0}"
  and set_dels_of [simp]: "set (dels_of ch) = {c \<in> set ch. vaPower c = 0}"
  by (simp_all add: ups_of_def dels_of_def)

lemma by_addr_ups: "legal_changes ch \<Longrightarrow> by_addr (ups_of ch)"
  and by_addr_dels: "legal_changes ch \<Longrightarrow> by_addr (dels_of ch)"
  using by_addr_sort [of ch] by (simp_all add: ups_of_def dels_of_def legal_changes_def sorted_wrt_filter)

lemma legal_unique: "legal_changes ch \<Longrightarrow> c \<in> set ch \<Longrightarrow> d \<in> set ch \<Longrightarrow> vaAddress c = vaAddress d \<Longrightarrow> c = d"
  by (auto simp: legal_changes_def distinct_map inj_on_def)

lemma ups_dels_disjoint: "legal_changes ch \<Longrightarrow> addrs (ups_of ch) \<inter> addrs (dels_of ch) = {}"
proof (rule ccontr)
  assume lc: "legal_changes ch" and "addrs (ups_of ch) \<inter> addrs (dels_of ch) \<noteq> {}"
  then obtain c d where "c \<in> set (ups_of ch)" "d \<in> set (dels_of ch)" "vaAddress c = vaAddress d" by auto
  then show False using legal_unique [OF lc, of c d] by auto
qed

lemma abs_map_iff:
  "distinct (map vaAddress vs) \<Longrightarrow>
   abs_map vs a = Some x \<longleftrightarrow> (\<exists>v\<in>set vs. vaAddress v = a \<and> x = (vaPubKey v, vaPower v))"
  using find_addr_Some [of vs a] by (auto simp: abs_map_def)

lemma dom_abs_map: "dom (abs_map vs) = addrs vs"
proof -
  have "abs_map vs a = None \<longleftrightarrow> a \<notin> addrs vs" for a
    unfolding abs_map_def by (simp add: find_addr_None)
  then show ?thesis by (auto simp: dom_def)
qed

lemma pw_abs_map: "pw vs a = (case abs_map vs a of None \<Rightarrow> 0 | Some x \<Rightarrow> snd x)"
  by (cases "find (addr_is a) vs") (simp_all add: pw_def abs_map_def)

lemma map_power_abs: "distinct (map vaAddress vs) \<Longrightarrow> map_power (abs_map vs) = total_power vs"
proof -
  assume d: "distinct (map vaAddress vs)"
  have "map_power (abs_map vs) = sum (pw vs) (addrs vs)"
    unfolding map_power_def dom_abs_map
  proof (rule sum.cong)
    fix a assume "a \<in> addrs vs"
    then obtain x where "abs_map vs a = Some x" unfolding dom_abs_map [symmetric] by blast
    then show "snd (the (abs_map vs a)) = pw vs a" by (simp add: pw_abs_map)
  qed simp
  then show ?thesis using sum_pw [OF d] by simp
qed

lemma spec_map_iff:
  assumes "legal_changes ch" "distinct (map vaAddress vs)"
  shows "spec_map vs ch a = Some x \<longleftrightarrow>
    (\<exists>c\<in>set ch. vaAddress c = a \<and> vaPower c \<noteq> 0 \<and> x = (vaPubKey c, vaPower c)) \<or>
    a \<notin> addrs ch \<and> (\<exists>v\<in>set vs. vaAddress v = a \<and> x = (vaPubKey v, vaPower v))"
proof (cases "find (addr_is a) ch")
  case None
  then have "a \<notin> addrs ch" by (simp add: find_addr_None)
  then show ?thesis using None abs_map_iff [OF assms(2)] by (auto simp: spec_map_def)
next
  case (Some c)
  then have c: "c \<in> set ch" "vaAddress c = a"
    using find_addr_Some [of ch a c] assms(1) by (auto simp: legal_changes_def)
  then show ?thesis using Some legal_unique [OF assms(1)] by (auto simp: spec_map_def)
qed

definition merged_list :: "Validator list \<Rightarrow> Validator list \<Rightarrow> Validator list \<Rightarrow> Validator list" where
  "merged_list vs us ch = filter (\<lambda>e. vaAddress e \<notin> addrs (dels_of ch)) (merge_updates (sort_by less_by_address vs) us)"

lemma same_vals_members:
  assumes "same_vals us us'" "u' \<in> set us'"
  shows "\<exists>u\<in>set us. vaAddress u' = vaAddress u \<and> vaPubKey u' = vaPubKey u \<and> vaPower u' = vaPower u"
  using assms same_vals_length [OF assms(1)] same_vals_nth [OF assms(1)] by (metis in_set_conv_nth)

lemma same_vals_sym: "same_vals us us' \<Longrightarrow> same_vals us' us"
  by (simp add: same_vals_def)

lemma by_addr_map: "by_addr vs \<longleftrightarrow> sorted_wrt (<) (map vaAddress vs)"
  by (simp add: sorted_wrt_map)

lemma addrs_same: "same_vals us us' \<Longrightarrow> addrs us' = addrs us"
  using same_vals_maps(1) by (metis list.set_map)

lemma set_merged_list:
  assumes lc: "legal_changes ch" and d: "distinct (map vaAddress vs)" and us: "same_vals (ups_of ch) us"
  shows "set (merged_list vs us ch) = set us \<union> {e \<in> set vs. vaAddress e \<notin> addrs ch}"
    and "by_addr (merged_list vs us ch)"
proof -
  have bu: "by_addr us" using by_addr_ups [OF lc] same_vals_maps(1) [OF us] unfolding by_addr_map by simp
  note bs = by_addr_sort [OF d]
  have au: "addrs us = addrs (ups_of ch)" by (rule addrs_same [OF us])
  have ac: "addrs ch = addrs (ups_of ch) \<union> addrs (dels_of ch)" by auto
  have "set (merge_updates (sort_by less_by_address vs) us) = set us \<union> {e \<in> set vs. vaAddress e \<notin> addrs us}"
    using set_merge_updates [OF bs bu] by simp
  moreover have "\<forall>u\<in>set us. vaAddress u \<notin> addrs (dels_of ch)" using ups_dels_disjoint [OF lc] au by blast
  ultimately show "set (merged_list vs us ch) = set us \<union> {e \<in> set vs. vaAddress e \<notin> addrs ch}"
    unfolding merged_list_def ac au by auto
  show "by_addr (merged_list vs us ch)"
    unfolding merged_list_def using by_addr_merge_updates [OF bs bu] by (rule sorted_wrt_filter)
qed

lemma abs_map_merged:
  assumes lc: "legal_changes ch" and d: "distinct (map vaAddress vs)" and us: "same_vals (ups_of ch) us"
  shows "abs_map (merged_list vs us ch) = spec_map vs ch"
proof
  fix a
  have "abs_map (merged_list vs us ch) a = Some x \<longleftrightarrow> spec_map vs ch a = Some x" for x
  proof -
    have "(\<exists>u\<in>set us. vaAddress u = a \<and> x = (vaPubKey u, vaPower u)) \<longleftrightarrow>
        (\<exists>c\<in>set ch. vaAddress c = a \<and> vaPower c \<noteq> 0 \<and> x = (vaPubKey c, vaPower c))"
    proof
      assume "\<exists>u\<in>set us. vaAddress u = a \<and> x = (vaPubKey u, vaPower u)"
      then show "\<exists>c\<in>set ch. vaAddress c = a \<and> vaPower c \<noteq> 0 \<and> x = (vaPubKey c, vaPower c)"
        using same_vals_members [OF us] by fastforce
    next
      assume "\<exists>c\<in>set ch. vaAddress c = a \<and> vaPower c \<noteq> 0 \<and> x = (vaPubKey c, vaPower c)"
      then obtain c where "c \<in> set (ups_of ch)" "vaAddress c = a" "x = (vaPubKey c, vaPower c)" by auto
      then show "\<exists>u\<in>set us. vaAddress u = a \<and> x = (vaPubKey u, vaPower u)"
        using same_vals_members [OF same_vals_sym [OF us]] by metis
    qed
    then show ?thesis
      unfolding abs_map_iff [OF by_addr_distinct [OF set_merged_list(2) [OF lc d us]]] spec_map_iff [OF lc d]
        set_merged_list(1) [OF lc d us] by auto
  qed
  then show "abs_map (merged_list vs us ch) a = spec_map vs ch a" by (metis option.exhaust)
qed

lemma total_power_merged:
  assumes lc: "legal_changes ch" and d: "distinct (map vaAddress vs)" and us: "same_vals (ups_of ch) us"
  shows "total_power (merged_list vs us ch) =
    total_power vs - sum (pw vs) (addrs (dels_of ch)) + sum_list (map (\<lambda>u. vaPower u - pw vs (vaAddress u)) (ups_of ch))"
proof -
  let ?U = "addrs (ups_of ch)" and ?D = "addrs (dels_of ch)" and ?L = "merged_list vs us ch"
  define A where "A = addrs vs \<union> ?U \<union> ?D"
  have fin: "finite A" by (simp add: A_def)
  have du: "distinct (map vaAddress (ups_of ch))" by (rule by_addr_distinct [OF by_addr_ups [OF lc]])
  have sub: "addrs ?L \<subseteq> A"
    unfolding set_merged_list(1) [OF lc d us] A_def using addrs_same [OF us] by blast
  have pL: "pw ?L a = pw vs a - (if a \<in> ?D then pw vs a else 0) + (if a \<in> ?U then pw (ups_of ch) a - pw vs a else 0)" for a
  proof -
    have ab: "abs_map ?L a = spec_map vs ch a" using abs_map_merged [OF lc d us] by simp
    consider (u) "a \<in> ?U" "a \<notin> ?D" | (d) "a \<in> ?D" "a \<notin> ?U" | (n) "a \<notin> ?U" "a \<notin> ?D"
      using ups_dels_disjoint [OF lc] by blast
    then show ?thesis
    proof cases
      case u
      then obtain c where c: "c \<in> set (ups_of ch)" "vaAddress c = a" by auto
      then have "spec_map vs ch a = Some (vaPubKey c, vaPower c)" using spec_map_iff [OF lc d] by auto
      then have "pw ?L a = vaPower c" using ab by (simp add: pw_abs_map)
      moreover have "pw (ups_of ch) a = vaPower c" using pw_member [OF du c(1)] c(2) by simp
      ultimately show ?thesis using u by simp
    next
      case d
      then have "a \<in> addrs ch" by auto
      then have "a \<notin> addrs ?L" unfolding set_merged_list(1) [OF lc assms(2) us] using addrs_same [OF us] d by blast
      then show ?thesis using d by (simp add: pw_absent)
    next
      case n
      then have "a \<notin> addrs ch" by auto
      then have "find (addr_is a) ch = None" by (simp add: find_addr_None)
      then have "spec_map vs ch a = abs_map vs a" by (simp add: spec_map_def)
      then show ?thesis using n ab by (simp add: pw_abs_map)
    qed
  qed
  have "total_power ?L = sum (pw ?L) A"
    using sum_pw [OF by_addr_distinct [OF set_merged_list(2) [OF lc d us]] sub fin] by simp
  also have "\<dots> = sum (pw vs) A - (\<Sum>a\<in>A. if a \<in> ?D then pw vs a else 0) +
      (\<Sum>a\<in>A. if a \<in> ?U then pw (ups_of ch) a - pw vs a else 0)"
    by (simp add: pL sum.distrib sum_subtractf)
  also have "sum (pw vs) A = total_power vs" by (rule sum_pw [OF d _ fin]) (auto simp: A_def)
  also have "(\<Sum>a\<in>A. if a \<in> ?D then pw vs a else 0) = sum (pw vs) ?D"
    by (rule sum.mono_neutral_cong_right) (auto simp: A_def)
  also have "(\<Sum>a\<in>A. if a \<in> ?U then pw (ups_of ch) a - pw vs a else 0) = (\<Sum>a\<in>?U. pw (ups_of ch) a - pw vs a)"
    by (rule sum.mono_neutral_cong_right) (auto simp: A_def)
  also have "\<dots> = sum_list (map (\<lambda>u. pw (ups_of ch) (vaAddress u) - pw vs (vaAddress u)) (ups_of ch))"
    using sum_over_members [OF du, of "\<lambda>a. pw (ups_of ch) a - pw vs a"] by simp
  also have "map (\<lambda>u. pw (ups_of ch) (vaAddress u) - pw vs (vaAddress u)) (ups_of ch) =
      map (\<lambda>u. vaPower u - pw vs (vaAddress u)) (ups_of ch)"
    using pw_member [OF du] by (intro map_cong) auto
  finally show ?thesis .
qed

section \<open>The refinement\<close>

lemma computeNewPriorities_same: "same_vals us (computeNewPriorities us vals tvp)"
proof -
  have "computeNewPriorities us vals tvp = map (\<lambda>u. set_priority
      (case snd (ValidatorSet_GetByAddressMut vals (vaAddress u)) of None \<Rightarrow> new_priority tvp | Some v \<Rightarrow> vaPriority v) u) us"
    by (simp add: computeNewPriorities_def split: option.split)
  then show ?thesis using same_vals_map by simp
qed

lemma computeNewPriorities_in64:
  assumes "\<forall>v\<in>set (vsValidators vals). in64 (vaPriority v)" "u \<in> set (computeNewPriorities us vals tvp)"
  shows "in64 (vaPriority u)"
  using assms by (auto simp: computeNewPriorities_def GetByAddressMut_find new_priority_def find_Some_iff split: option.splits)

lemma verifyRemovals_spec:
  assumes lc: "legal_changes ch" and b: "base_ok (vsValidators vals)"
  shows "if addrs (dels_of ch) \<subseteq> addrs (vsValidators vals)
    then verifyRemovals (dels_of ch) vals = Ok (sum (pw (vsValidators vals)) (addrs (dels_of ch)))
    else \<exists>e. verifyRemovals (dels_of ch) vals = Err e"
proof (cases "addrs (dels_of ch) \<subseteq> addrs (vsValidators vals)")
  case True
  let ?vs = "vsValidators vals" and ?ds = "dels_of ch"
  have dd: "distinct (map vaAddress ?ds)" by (rule by_addr_distinct [OF by_addr_dels [OF lc]])
  have dv: "distinct (map vaAddress ?vs)" and pos: "\<forall>v\<in>set ?vs. 0 < vaPower v" using b by (auto simp: base_ok_def)
  have nn: "0 \<le> pw ?vs a" for a using pos by (auto simp: pw_def find_Some_iff split: option.split intro: less_imp_le)
  have eq: "sum_list (map (\<lambda>d. pw ?vs (vaAddress d)) ?ds) = sum (pw ?vs) (addrs ?ds)" by (rule sum_over_members [OF dd])
  have "sum (pw ?vs) (addrs ?ds) \<le> sum (pw ?vs) (addrs ?vs)" using True nn by (intro sum_mono2) auto
  also have "\<dots> = total_power ?vs" by (rule sum_pw [OF dv]) auto
  finally have "sum_list (map (\<lambda>d. pw ?vs (vaAddress d)) ?ds) \<le> MaxTotalVotingPower"
    using b eq by (simp add: base_ok_def)
  then have "removed_power_loop 0 vals ?ds = Ok (sum (pw ?vs) (addrs ?ds))"
    using removed_power_loop_spec [of ?ds vals 0] True pos eq by auto
  then show ?thesis using True length_le_addrs [OF dd True] by (simp add: verifyRemovals_def)
next
  case False
  then have "\<exists>d\<in>set (dels_of ch). vaAddress d \<notin> addrs (vsValidators vals)" by auto
  then show ?thesis using removed_power_loop_missing [of "dels_of ch" vals 0] False by (auto simp: verifyRemovals_def)
qed

lemma verifyUpdates_spec:
  assumes lc: "legal_changes ch" and b: "base_ok (vsValidators vals)"
    and t: "ValidatorSet_TotalVotingPower vals = Ok (vals', total_power (vsValidators vals))"
    and sub: "addrs (dels_of ch) \<subseteq> addrs (vsValidators vals)"
  shows "verifyUpdates (ups_of ch) vals (sum (pw (vsValidators vals)) (addrs (dels_of ch))) =
    (let T' = total_power (vsValidators vals) - sum (pw (vsValidators vals)) (addrs (dels_of ch)) +
              sum_list (map (\<lambda>u. vaPower u - pw (vsValidators vals) (vaAddress u)) (ups_of ch))
     in if T' > MaxTotalVotingPower then Err ErrTotalVotingPowerOverflow
        else Ok (vals', wrap64 (T' + sum (pw (vsValidators vals)) (addrs (dels_of ch)))))"
proof -
  let ?vs = "vsValidators vals" and ?U = "ups_of ch" and ?D = "dels_of ch"
  let ?R = "sum (pw ?vs) (addrs ?D)" and ?f = "update_delta vals"
  define us where "us = sort_by (\<lambda>a b. ?f a < ?f b) ?U"
  have dv: "distinct (map vaAddress ?vs)" and pos: "\<forall>v\<in>set ?vs. 0 < vaPower v" and mx: "total_power ?vs \<le> MaxTotalVotingPower"
    using b by (auto simp: base_ok_def)
  have nn: "0 \<le> pw ?vs a" for a using pos by (auto simp: pw_def find_Some_iff split: option.split intro: less_imp_le)
  have du: "distinct (map vaAddress ?U)" by (rule by_addr_distinct [OF by_addr_ups [OF lc]])
  have le: "pw ?vs a \<le> MaxTotalVotingPower" for a
    using pos total_power_member [of ?vs] mx by (auto simp: pw_def find_Some_iff split: option.split) (meson nth_mem order_trans)
  have f: "?f u = vaPower u - pw ?vs (vaAddress u)" if "u \<in> set ?U" for u
  proof -
    have "0 \<le> vaPower u" "vaPower u \<le> MaxTotalVotingPower" using lc that by (auto simp: legal_changes_def)
    then have "wrap64 (vaPower u - pw ?vs (vaAddress u)) = vaPower u - pw ?vs (vaAddress u)"
      using nn [of "vaAddress u"] le [of "vaAddress u"] by (intro wrap64_idI) simp_all
    then show ?thesis by (auto simp: update_delta_def GetByAddressMut_find pw_def split: option.split)
  qed
  have ms: "mset us = mset ?U" by (simp add: us_def mset_sort_by_gen)
  then have sus: "set us = set ?U" by (metis set_mset_mset)
  have "mset (map ?f us) = mset (map ?f ?U)" using ms by simp
  then have sum_eq: "sum_list (map ?f us) = sum_list (map (\<lambda>u. vaPower u - pw ?vs (vaAddress u)) ?U)"
    using f by (metis (no_types, lifting) map_cong sum_mset_sum_list)
  have disj: "addrs ?U \<inter> addrs ?D = {}" by (rule ups_dels_disjoint [OF lc])
  have "?R + sum (pw ?vs) (addrs ?U) = sum (pw ?vs) (addrs ?D \<union> addrs ?U)"
    using disj by (intro sum.union_disjoint [symmetric]) (auto simp: Int_commute)
  also have "\<dots> \<le> sum (pw ?vs) (addrs ?vs \<union> addrs ?U)"
    using sub nn by (intro sum_mono2) auto
  also have "\<dots> = total_power ?vs" by (rule sum_pw [OF dv]) auto
  finally have room: "?R + sum (pw ?vs) (addrs ?U) \<le> total_power ?vs" .
  have Rnn: "0 \<le> ?R" using nn by (intro sum_nonneg) auto
  have Unn: "0 \<le> sum (pw ?vs) (addrs ?U)" using nn by (intro sum_nonneg) auto
  have "- sum (pw ?vs) (addrs ?U) \<le> sum_list (filter (\<lambda>d. d < 0) (map ?f us))"
  proof -
    have "- sum_list (map (\<lambda>u. pw ?vs (vaAddress u)) xs) \<le> sum_list (filter (\<lambda>d. d < 0) (map ?f xs))"
      if "set xs \<subseteq> set ?U" for xs using that
    proof (induction xs)
      case (Cons x xs)
      then have "?f x = vaPower x - pw ?vs (vaAddress x)" "0 \<le> vaPower x" using f lc by (auto simp: legal_changes_def)
      then show ?case using Cons nn [of "vaAddress x"] by auto
    qed simp
    moreover have "sum_list (map (\<lambda>u. pw ?vs (vaAddress u)) us) = sum (pw ?vs) (addrs ?U)"
    proof -
      have "mset (map (\<lambda>u. pw ?vs (vaAddress u)) us) = mset (map (\<lambda>u. pw ?vs (vaAddress u)) ?U)" using ms by simp
      then show ?thesis using sum_over_members [OF du, of "pw ?vs"] by (metis sum_mset_sum_list)
    qed
    ultimately show ?thesis using sus by (metis order_refl)
  qed
  then have lo: "MinInt64 \<le> (total_power ?vs - ?R) + sum_list (filter (\<lambda>d. d < 0) (map ?f us))" using room by linarith
  have "\<forall>d\<in>set (map ?f us). d \<le> MaxTotalVotingPower"
  proof
    fix d assume "d \<in> set (map ?f us)"
    then obtain u where u: "u \<in> set ?U" "d = ?f u" using sus by auto
    then have "vaPower u \<le> MaxTotalVotingPower" using lc by (simp add: legal_changes_def)
    then show "d \<le> MaxTotalVotingPower" using f [OF u(1)] u(2) nn [of "vaAddress u"] by linarith
  qed
  then have "tvp_loop (total_power ?vs - ?R) (map ?f us) =
      (if (total_power ?vs - ?R) + sum_list (map ?f us) > MaxTotalVotingPower then Err ErrTotalVotingPowerOverflow
       else Ok ((total_power ?vs - ?R) + sum_list (map ?f us)))"
    using lo mx Rnn by (intro tvp_loop_sorted) (auto simp: us_def sorted_map_sort_by)
  moreover have "wrap64 (total_power ?vs - ?R) = total_power ?vs - ?R"
    using room Rnn Unn mx [unfolded MaxTotalVotingPower_val] by (intro wrap64_idI) linarith+
  ultimately show ?thesis using t sum_eq by (auto simp: verifyUpdates_def us_def [symmetric] Let_def)
qed

lemma TotalVotingPower_base:
  assumes "base_ok (vsValidators vals)" "vsTotal vals = 0 \<or> vsTotal vals = total_power (vsValidators vals)"
  shows "ValidatorSet_TotalVotingPower vals =
    Ok (vals\<lparr>vsTotal := total_power (vsValidators vals)\<rparr>, total_power (vsValidators vals))"
  using assms power_loop_eq [of "vsValidators vals" 0]
  by (cases vals)
     (auto simp: base_ok_def ValidatorSet_TotalVotingPower_def ValidatorSet_updateTotalVotingPower_def)

lemma length_eq_addrs:
  assumes "distinct (map vaAddress ds)" "distinct (map vaAddress es)" "addrs ds \<subseteq> addrs es"
  shows "length es = length ds \<longleftrightarrow> addrs ds = addrs es"
proof -
  have c: "length ds = card (addrs ds)" "length es = card (addrs es)"
    using assms(1,2) by (metis distinct_card length_map list.set_map)+
  show ?thesis unfolding c
  proof
    assume "card (addrs es) = card (addrs ds)"
    then show "addrs ds = addrs es" by (intro card_subset_eq assms(3)) simp_all
  qed simp
qed

lemma image_restrict: "f ` {e \<in> A. f e \<notin> B} = f ` A - B"
  by auto

lemma empty_sets: "U \<inter> D = {} \<Longrightarrow> D \<subseteq> V \<Longrightarrow> U \<subseteq> V \<and> D = V \<longleftrightarrow> U \<union> (V - (U \<union> D)) = {}"
  by blast

lemma empty_result_iff:
  assumes lc: "legal_changes ch" and d: "distinct (map vaAddress (vsValidators vals))"
    and sub: "addrs (dels_of ch) \<subseteq> addrs (vsValidators vals)"
  shows "numNewValidators (ups_of ch) vals = 0 \<and> length (vsValidators vals) = length (dels_of ch) \<longleftrightarrow>
    dom (spec_map (vsValidators vals) ch) = {}"
proof -
  let ?vs = "vsValidators vals" and ?U = "addrs (ups_of ch)" and ?D = "addrs (dels_of ch)"
  have dom: "dom (spec_map ?vs ch) = ?U \<union> (addrs ?vs - addrs ch)"
    unfolding abs_map_merged [OF lc d same_vals_refl, symmetric] dom_abs_map set_merged_list(1) [OF lc d same_vals_refl]
      image_Un by (simp add: image_restrict)
  have new: "numNewValidators (ups_of ch) vals = 0 \<longleftrightarrow> ?U \<subseteq> addrs ?vs"
    by (auto simp: numNewValidators_def filter_empty_conv HasAddress_addrs)
  have len: "length ?vs = length (dels_of ch) \<longleftrightarrow> ?D = addrs ?vs"
    by (rule length_eq_addrs [OF by_addr_distinct [OF by_addr_dels [OF lc]] d sub])
  have ac: "addrs ch = ?U \<union> ?D" by auto
  have disj: "?U \<inter> ?D = {}" by (rule ups_dels_disjoint [OF lc])
  show ?thesis unfolding dom new len ac by (rule empty_sets [OF disj sub])
qed

lemma detach_proposer_fields [simp]:
  "vsValidators (detach_proposer g v) = vsValidators v" "vsTotal (detach_proposer g v) = vsTotal v"
  by (simp_all add: detach_proposer_def split: proposer_ref.split)

lemma applyRemovals_merged:
  assumes lc: "legal_changes ch" and d: "distinct (map vaAddress vs)" and us: "same_vals (ups_of ch) us"
    and sub: "addrs (dels_of ch) \<subseteq> addrs vs"
    and v2: "vsValidators vals2 = merge_updates (sort_by less_by_address vs) us"
  shows "ValidatorSet_applyRemovals vals2 (dels_of ch) = Ok (vals2\<lparr>vsValidators := merged_list vs us ch\<rparr>)"
proof -
  let ?m = "merge_updates (sort_by less_by_address vs) us"
  have bu: "by_addr us" using by_addr_ups [OF lc] same_vals_maps(1) [OF us] unfolding by_addr_map by simp
  have bm: "by_addr ?m" by (rule by_addr_merge_updates [OF by_addr_sort [OF d] bu])
  have "set ?m = set us \<union> {e \<in> set vs. vaAddress e \<notin> addrs us}"
    using set_merge_updates [OF by_addr_sort [OF d] bu] by simp
  then have "addrs ?m = addrs us \<union> (addrs vs - addrs us)" by (simp add: image_Un image_restrict)
  then have sub': "addrs (dels_of ch) \<subseteq> addrs ?m" using sub by (metis Un_Diff_cancel le_supI2)
  have "length (dels_of ch) \<le> length ?m"
    using length_le_addrs [OF by_addr_distinct [OF by_addr_dels [OF lc]] sub'] .
  then show ?thesis
    using removal_loop_spec [OF bm by_addr_dels [OF lc] sub', of _ "[]"] v2
    by (simp add: ValidatorSet_applyRemovals_def merged_list_def Let_def)
qed

lemma abs_map_cong:
  assumes "distinct (map vaAddress vs)" "distinct (map vaAddress vs')"
    and "\<And>a x. (\<exists>v\<in>set vs. vaAddress v = a \<and> x = (vaPubKey v, vaPower v)) \<longleftrightarrow> (\<exists>v\<in>set vs'. vaAddress v = a \<and> x = (vaPubKey v, vaPower v))"
  shows "abs_map vs' = abs_map vs"
proof
  fix a
  have "abs_map vs' a = Some x \<longleftrightarrow> abs_map vs a = Some x" for x
    unfolding abs_map_iff [OF assms(1)] abs_map_iff [OF assms(2)] using assms(3) by blast
  then show "abs_map vs' a = abs_map vs a" by (metis option.exhaust)
qed

lemma abs_map_same_sorted:
  assumes same: "same_vals vs vs'" and val: "valid_vals vs'"
  shows "abs_map (sort_by less_by_power vs') = abs_map vs" "valid_vals (sort_by less_by_power vs')"
    "sorted_wrt less_by_power (sort_by less_by_power vs')"
proof -
  have d': "distinct (map vaAddress vs')" using val by (simp add: valid_vals_def)
  then have d: "distinct (map vaAddress vs)" using same_vals_maps(1) [OF same] by simp
  show v: "valid_vals (sort_by less_by_power vs')" by (rule valid_vals_perm [OF by_power.mset_sort_by val])
  show "sorted_wrt less_by_power (sort_by less_by_power vs')" by (rule by_power.sorted_sort_by [OF d'])
  show "abs_map (sort_by less_by_power vs') = abs_map vs"
  proof (rule abs_map_cong [OF d])
    show "distinct (map vaAddress (sort_by less_by_power vs'))" using v by (simp add: valid_vals_def)
    show "(\<exists>v\<in>set vs. vaAddress v = a \<and> x = (vaPubKey v, vaPower v)) \<longleftrightarrow>
        (\<exists>v\<in>set (sort_by less_by_power vs'). vaAddress v = a \<and> x = (vaPubKey v, vaPower v))" for a x
      unfolding by_power.set_sort_by
    proof
      assume "\<exists>v\<in>set vs. vaAddress v = a \<and> x = (vaPubKey v, vaPower v)"
      then obtain v where v: "v \<in> set vs" "vaAddress v = a" "x = (vaPubKey v, vaPower v)" by blast
      then show "\<exists>v\<in>set vs'. vaAddress v = a \<and> x = (vaPubKey v, vaPower v)"
        using same_vals_members [OF same_vals_sym [OF same] v(1)] by auto
    next
      assume "\<exists>v\<in>set vs'. vaAddress v = a \<and> x = (vaPubKey v, vaPower v)"
      then obtain v where v: "v \<in> set vs'" "vaAddress v = a" "x = (vaPubKey v, vaPower v)" by blast
      then show "\<exists>v\<in>set vs. vaAddress v = a \<and> x = (vaPubKey v, vaPower v)"
        using same_vals_members [OF same v(1)] by auto
    qed
  qed
qed

definition all_keys :: "Validator list \<Rightarrow> bool" where
  "all_keys vs \<longleftrightarrow> (\<forall>v\<in>set vs. vaPubKey v \<noteq> None)"

text \<open>A set the algorithm may start from: empty or well formed, with a sound cache.\<close>

definition updatable :: "ValidatorSet \<Rightarrow> bool" where
  "updatable vals \<longleftrightarrow>
     base_ok (vsValidators vals) \<and> (vsTotal vals = 0 \<or> vsTotal vals = total_power (vsValidators vals)) \<and>
     all_keys (vsValidators vals)"

lemma merged_valid:
  assumes lc: "legal_changes ch" and b: "base_ok vs" and us: "same_vals (ups_of ch) us"
    and i: "\<forall>u\<in>set us. in64 (vaPriority u)" and k: "all_keys vs" "all_keys ch"
    and ne: "dom (spec_map vs ch) \<noteq> {}" and mx: "map_power (spec_map vs ch) \<le> MaxTotalVotingPower"
  shows "valid_vals (merged_list vs us ch)" "all_keys (merged_list vs us ch)"
proof -
  let ?L = "merged_list vs us ch"
  have d: "distinct (map vaAddress vs)" using b by (simp add: base_ok_def)
  have am: "abs_map ?L = spec_map vs ch" by (rule abs_map_merged [OF lc d us])
  have dL: "distinct (map vaAddress ?L)" by (rule by_addr_distinct [OF set_merged_list(2) [OF lc d us]])
  have "\<forall>u\<in>set us. 0 < vaPower u"
  proof
    fix u assume "u \<in> set us"
    then obtain c where "c \<in> set (ups_of ch)" "vaPower u = vaPower c" using same_vals_members [OF us] by blast
    then show "0 < vaPower u" using lc by (auto simp: legal_changes_def order.strict_iff_order)
  qed
  then have "\<forall>v\<in>set ?L. 0 < vaPower v \<and> in64 (vaPriority v)"
    unfolding set_merged_list(1) [OF lc d us] using i b by (auto simp: base_ok_def)
  moreover have "total_power ?L \<le> MaxTotalVotingPower" using mx map_power_abs [OF dL] am by simp
  moreover have "?L \<noteq> []" using ne dom_abs_map [of ?L] am by auto
  ultimately show "valid_vals ?L" using dL by (simp add: valid_vals_def)
  have "\<forall>u\<in>set us. vaPubKey u \<noteq> None"
  proof
    fix u assume "u \<in> set us"
    then obtain c where "c \<in> set (ups_of ch)" "vaPubKey u = vaPubKey c" using same_vals_members [OF us] by blast
    then show "vaPubKey u \<noteq> None" using k(2) by (auto simp: all_keys_def)
  qed
  then show "all_keys ?L" unfolding all_keys_def set_merged_list(1) [OF lc d us] using k(1) by (auto simp: all_keys_def)
qed

lemma update_accepted:
  assumes up: "updatable vals" and k: "all_keys ch" and ne: "ch \<noteq> []" and vs: "vsValidators vals = vs"
    and acc: "acceptable vs ch allowDeletes"
  shows "\<exists>vals'. ValidatorSet_updateWithChangeSet vals ch allowDeletes = Ok vals' \<and>
    abs_map (vsValidators vals') = spec_map vs ch \<and> valid_set vals' \<and>
    vsTotal vals' = total_power (vsValidators vals') \<and> sorted_wrt less_by_power (vsValidators vals')"
proof -
  let ?U = "ups_of ch" and ?D = "dels_of ch"
  have b: "base_ok vs" and kv: "all_keys vs" using up vs by (auto simp: updatable_def)
  have lc: "legal_changes ch" and nz: "allowDeletes \<or> (\<forall>v\<in>set ch. vaPower v \<noteq> 0)"
    and sub: "addrs ?D \<subseteq> addrs vs" and dom: "dom (spec_map vs ch) \<noteq> {}"
    and mx: "map_power (spec_map vs ch) \<le> MaxTotalVotingPower" using acc by (auto simp: acceptable_def)
  have d: "distinct (map vaAddress vs)" using b by (simp add: base_ok_def)
  define R where "R = sum (pw vs) (addrs ?D)"
  define T' where "T' = total_power vs - R + sum_list (map (\<lambda>u. vaPower u - pw vs (vaAddress u)) ?U)"
  have pc: "processChanges ch = Ok (?U, ?D)" using processChanges_spec [OF lc] by (simp add: ups_of_def dels_of_def)
  have c1: "\<not> (\<not> allowDeletes \<and> length ?D \<noteq> 0)" using nz by (auto simp: dels_of_def filter_empty_conv)
  have c2: "\<not> (numNewValidators ?U vals = 0 \<and> length vs = length ?D)"
    using empty_result_iff [OF lc, of vals] d sub dom vs by simp
  have vr: "verifyRemovals ?D vals = Ok R" using verifyRemovals_spec [OF lc, of vals] b sub vs by (simp add: R_def)
  have tp: "total_power (merged_list vs ?U ch) = T'" using total_power_merged [OF lc d same_vals_refl] by (simp add: T'_def R_def)
  have "total_power (merged_list vs ?U ch) = map_power (spec_map vs ch)"
    unfolding abs_map_merged [OF lc d same_vals_refl, symmetric]
    by (rule map_power_abs [symmetric, OF by_addr_distinct [OF set_merged_list(2) [OF lc d same_vals_refl]]])
  then have "T' \<le> MaxTotalVotingPower" using tp mx by simp
  define vals1 where "vals1 = vals\<lparr>vsTotal := total_power vs\<rparr>"
  have "ValidatorSet_TotalVotingPower vals = Ok (vals1, total_power (vsValidators vals))"
    using TotalVotingPower_base [of vals] up vs by (simp add: vals1_def updatable_def)
  then have vu: "verifyUpdates ?U vals R = Ok (vals1, wrap64 (T' + R))"
    using verifyUpdates_spec [OF lc, of vals vals1] b sub vs \<open>T' \<le> MaxTotalVotingPower\<close>
    by (simp add: Let_def R_def T'_def)
  define us where "us = computeNewPriorities ?U vals1 (wrap64 (T' + R))"
  have same: "same_vals ?U us" unfolding us_def by (rule computeNewPriorities_same)
  have i: "\<forall>u\<in>set us. in64 (vaPriority u)"
    using computeNewPriorities_in64 [of vals1 _ ?U] b vs by (auto simp: us_def vals1_def base_ok_def)
  note mv = merged_valid [OF lc b same i kv k dom mx]
  define vals2 where "vals2 = ValidatorSet_applyUpdates (detach_proposer (?U @ ?D) vals1) us"
  have v2: "vsValidators vals2 = merge_updates (sort_by less_by_address vs) us"
    using vs by (simp add: vals2_def ValidatorSet_applyUpdates_def vals1_def)
  define vals3 where "vals3 = vals2\<lparr>vsValidators := merged_list vs us ch\<rparr>"
  have ar: "ValidatorSet_applyRemovals vals2 ?D = Ok vals3"
    unfolding vals3_def by (rule applyRemovals_merged [OF lc d same sub v2])
  obtain vs' bb where fin: "bindo (ValidatorSet_checkAllKeysHaveSameType vals3) (\<lambda>vals4.
             bindo (ValidatorSet_updateTotalVotingPower vals4) (\<lambda>vals5.
             bindo (ValidatorSet_TotalVotingPower vals5) (\<lambda>(vals6, tot).
             bindo (ValidatorSet_RescalePriorities vals6 (wrap64 (PriorityWindowSizeFactor * tot))) (\<lambda>vals7.
             bindo (ValidatorSet_shiftByAvgProposerPriority vals7) (\<lambda>vals8.
             Ok (vals8\<lparr>vsValidators := sort_by less_by_power (vsValidators vals8)\<rparr>))))))
           = Ok (vals3\<lparr>vsValidators := sort_by less_by_power vs', vsTotal := total_power (merged_list vs us ch), vsSameType := bb\<rparr>)"
    and s': "same_vals (merged_list vs us ch) vs'" "valid_vals vs'"
    using finish_update [OF mv(1), of vals3] mv(2) by (auto simp: vals3_def all_keys_def)
  have eq: "ValidatorSet_updateWithChangeSet vals ch allowDeletes =
      Ok (vals3\<lparr>vsValidators := sort_by less_by_power vs', vsTotal := total_power (merged_list vs us ch), vsSameType := bb\<rparr>)"
    unfolding ValidatorSet_updateWithChangeSet_def
    using ne pc c1 c2 vr vu ar fin vs
    by (simp add: Let_def us_def [symmetric] vals2_def [symmetric])
  note ab = abs_map_same_sorted [OF s']
  have "total_power (sort_by less_by_power vs') = total_power (merged_list vs us ch)"
    using same_vals_maps(3) [OF s'(1)] map_power_abs [of vs'] map_power_abs [of "sort_by less_by_power vs'"]
      ab(2) s'(2) ab(1) map_power_abs [of "merged_list vs us ch"] mv(1) by (simp add: valid_vals_def)
  then show ?thesis unfolding eq
    using ab abs_map_merged [OF lc d same] by (auto simp: valid_set_def)
qed

lemma update_rejected:
  assumes up: "updatable vals" and ne: "ch \<noteq> []" and vs: "vsValidators vals = vs"
    and rej: "\<not> acceptable vs ch allowDeletes"
  shows "\<exists>e. ValidatorSet_updateWithChangeSet vals ch allowDeletes = Err e"
proof (cases "legal_changes ch")
  case False
  then show ?thesis using processChanges_error [OF False] ne by (auto simp: ValidatorSet_updateWithChangeSet_def)
next
  case lc: True
  let ?U = "ups_of ch" and ?D = "dels_of ch"
  have b: "base_ok vs" using up vs by (auto simp: updatable_def)
  have d: "distinct (map vaAddress vs)" using b by (simp add: base_ok_def)
  have pc: "processChanges ch = Ok (?U, ?D)" using processChanges_spec [OF lc] by (simp add: ups_of_def dels_of_def)
  show ?thesis
  proof (cases "\<not> allowDeletes \<and> length ?D \<noteq> 0 \<or> numNewValidators ?U vals = 0 \<and> length vs = length ?D")
    case True
    then show ?thesis using ne pc vs by (auto simp: ValidatorSet_updateWithChangeSet_def)
  next
    case c: False
    show ?thesis
    proof (cases "addrs ?D \<subseteq> addrs vs")
      case False
      then obtain e where "verifyRemovals ?D vals = Err e" using verifyRemovals_spec [OF lc, of vals] b vs by auto
      then show ?thesis using ne pc vs c by (auto simp: ValidatorSet_updateWithChangeSet_def)
    next
      case sub: True
      define R where "R = sum (pw vs) (addrs ?D)"
      define T' where "T' = total_power vs - R + sum_list (map (\<lambda>u. vaPower u - pw vs (vaAddress u)) ?U)"
      have vr: "verifyRemovals ?D vals = Ok R" using verifyRemovals_spec [OF lc, of vals] b sub vs by (simp add: R_def)
      have "dom (spec_map vs ch) \<noteq> {}" using empty_result_iff [OF lc, of vals] d sub c vs by simp
      moreover have "allowDeletes \<or> (\<forall>v\<in>set ch. vaPower v \<noteq> 0)" using c by (auto simp: dels_of_def filter_empty_conv)
      ultimately have "\<not> map_power (spec_map vs ch) \<le> MaxTotalVotingPower"
        using rej lc sub by (auto simp: acceptable_def)
      moreover have "total_power (merged_list vs ?U ch) = map_power (spec_map vs ch)"
        unfolding abs_map_merged [OF lc d same_vals_refl, symmetric]
        by (rule map_power_abs [symmetric, OF by_addr_distinct [OF set_merged_list(2) [OF lc d same_vals_refl]]])
      ultimately have "T' > MaxTotalVotingPower"
        using total_power_merged [OF lc d same_vals_refl] by (simp add: T'_def R_def)
      moreover have "ValidatorSet_TotalVotingPower vals = Ok (vals\<lparr>vsTotal := total_power vs\<rparr>, total_power (vsValidators vals))"
        using TotalVotingPower_base [of vals] up vs by (simp add: updatable_def)
      ultimately have "verifyUpdates ?U vals R = Err ErrTotalVotingPowerOverflow"
        using verifyUpdates_spec [OF lc, of vals] b sub vs by (simp add: Let_def R_def T'_def)
      then show ?thesis using ne pc vr vs c by (auto simp: ValidatorSet_updateWithChangeSet_def)
    qed
  qed
qed

text \<open>C21. Updating a validator set refines the update of a finite map. From an empty or well-formed set, a
  non-empty list of changes is accepted exactly when its addresses are distinct and not empty, its
  powers are between zero and the maximum, deletions are allowed and name members of the set, and
  the resulting map is not empty and has a total power within the maximum. Then the result is that
  map, in the order of falling power and rising address, well formed, with the cached total equal to
  the sum of the powers. Any other list gives an error; the algorithm never panics.\<close>

theorem update_refines_map:
  assumes "updatable vals" and "all_keys changes" and "changes \<noteq> []"
  shows "if acceptable (vsValidators vals) changes allowDeletes
    then \<exists>vals'. ValidatorSet_updateWithChangeSet vals changes allowDeletes = Ok vals' \<and>
           abs_map (vsValidators vals') = spec_map (vsValidators vals) changes \<and> valid_set vals' \<and>
           vsTotal vals' = total_power (vsValidators vals') \<and> sorted_wrt less_by_power (vsValidators vals')
    else \<exists>e. ValidatorSet_updateWithChangeSet vals changes allowDeletes = Err e"
  using update_accepted [OF assms refl] update_rejected [OF assms(1,3) refl] by simp

text \<open>A set of three that gains a member, changes one and loses one.\<close>

definition sample_changes :: "Validator list" where
  "sample_changes = [sample_val 4 7, sample_val 2 9, sample_val 3 0]"

lemma sample_set_updatable: "updatable sample_set"
  by (simp add: updatable_def base_ok_def all_keys_def sample_set_def sample_val_def total_power_def in64_def)

lemma sample_changes_acceptable: "acceptable (vsValidators sample_set) sample_changes True"
proof -
  have lc: "legal_changes sample_changes"
    by (simp add: legal_changes_def sample_changes_def sample_val_def)
  have d: "distinct (map vaAddress (vsValidators sample_set))"
    using sample_set_updatable by (simp add: updatable_def base_ok_def)
  have del: "\<forall>v\<in>set sample_changes. vaPower v = 0 \<longrightarrow> vaAddress v \<in> addrs (vsValidators sample_set)"
    by (simp add: sample_changes_def sample_set_def sample_val_def)
  have sp: "spec_map (vsValidators sample_set) sample_changes = abs_map [sample_val 1 5, sample_val 2 9, sample_val 4 7]"
  proof
    fix a
    show "spec_map (vsValidators sample_set) sample_changes a = abs_map [sample_val 1 5, sample_val 2 9, sample_val 4 7] a"
      by (auto simp: spec_map_def abs_map_def sample_changes_def sample_set_def sample_val_def addr_is_def)
  qed
  have "distinct (map vaAddress [sample_val 1 5, sample_val 2 9, sample_val 4 7])"
    by (simp add: sample_val_def)
  then have "map_power (spec_map (vsValidators sample_set) sample_changes) = 21"
    unfolding sp using map_power_abs by (simp add: total_power_def sample_val_def)
  moreover have "dom (spec_map (vsValidators sample_set) sample_changes) \<noteq> {}" unfolding sp dom_abs_map by simp
  ultimately show ?thesis using lc del by (simp add: acceptable_def)
qed

theorem update_refines_map_witness:
  "\<exists>vals'. ValidatorSet_updateWithChangeSet sample_set sample_changes True = Ok vals' \<and> valid_set vals' \<and>
     abs_map (vsValidators vals') (replicate 20 4) = Some (Some (Ed25519 (replicate 32 4)), 7)"
proof -
  have "all_keys sample_changes" "sample_changes \<noteq> []" by (simp_all add: all_keys_def sample_changes_def sample_val_def)
  then obtain vals' where v: "ValidatorSet_updateWithChangeSet sample_set sample_changes True = Ok vals'" "valid_set vals'"
    "abs_map (vsValidators vals') = spec_map (vsValidators sample_set) sample_changes"
    using update_refines_map [OF sample_set_updatable, of sample_changes True] sample_changes_acceptable by auto
  then show ?thesis by (simp add: spec_map_def sample_changes_def sample_val_def addr_is_def)
qed

end
