(* ===== verification/Commit_Verification.thy ===== *)
theory Commit_Verification
  imports Commits Validator_Updates
begin

text \<open>
  Verification of commits, \<^verbatim>\<open>types/validation.go\<close>: the four entry points, the single and the batch
  routine and when the batch is used. The theory shows what a verified commit proves about the signing
  power, that the batch routine decides as the single one does, and that two verified commits of one
  validator set have a third of its power in common. The functions only fill caches of the validator set
  they are given (the total power and the proposer), which are threaded through and dropped at the end.
\<close>

section \<open>Looking up the signer\<close>

definition batchVerifyThreshold :: int where "batchVerifyThreshold = 2"

definition shouldBatchVerify :: "ValidatorSet \<Rightarrow> Commit \<Rightarrow> (ValidatorSet \<times> bool) outcome" where
  "shouldBatchVerify vals commit =
     (if int (length (cmSignatures commit)) < batchVerifyThreshold then Ok (vals, False)
      else bindo (ValidatorSet_GetProposer vals) (\<lambda>(vals', p).
        case p of None \<Rightarrow> Panic nil_pointer
        | Some pr \<Rightarrow> Ok (vals', SupportsBatchVerifier (vaPubKey pr) \<and> vsSameType vals')))"

text \<open>The arguments that distinguish the entry points.\<close>

record sig_policy =
  spNeeded :: int
  spIgnore :: "CommitSig \<Rightarrow> bool"
  spCount :: "CommitSig \<Rightarrow> bool"
  spAll :: bool
  spByIndex :: bool

definition ErrNotEnoughVotingPowerSigned :: "int \<Rightarrow> int \<Rightarrow> err" where
  "ErrNotEnoughVotingPowerSigned got needed = ErrFmt ''invalid commit -- insufficient voting power'' [got, needed]"

text \<open>
  The validator a signature belongs to and the map of the validators seen, from their index to the index of
  their signature; None when the signature is skipped. \<open>get\<close> is the look-up by address.
\<close>

definition find_signer ::
    "(bytes \<Rightarrow> int \<times> Validator option) \<Rightarrow> sig_policy \<Rightarrow> ValidatorSet \<Rightarrow> int \<Rightarrow> CommitSig \<Rightarrow> (int \<times> int) list \<Rightarrow>
     (Validator \<times> (int \<times> int) list) option outcome" where
  "find_signer get pol vals idx cs seen =
     (if spByIndex pol then bindo (index_at (vsValidators vals) idx) (\<lambda>val. Ok (Some (val, seen)))
      else case get (csValAddr cs) of (valIdx, v) \<Rightarrow>
        (case v of None \<Rightarrow> Ok None
         | Some val \<Rightarrow>
             (case map_of seen valIdx of
                Some firstIndex \<Rightarrow> Err (ErrFmt ''double vote'' [firstIndex, idx])
              | None \<Rightarrow> Ok (Some (val, (valIdx, idx) # seen)))))"

definition add_power :: "sig_policy \<Rightarrow> CommitSig \<Rightarrow> Validator \<Rightarrow> int \<Rightarrow> int" where
  "add_power pol cs val tally = (if spCount pol cs then wrap64 (tally + vaPower val) else tally)"

section \<open>The routines\<close>

fun batch_loop ::
    "'a crypto_env_scheme \<Rightarrow> string \<Rightarrow> ValidatorSet \<Rightarrow> Commit \<Rightarrow> sig_policy \<Rightarrow> int \<Rightarrow> CommitSig list \<Rightarrow> (int \<times> int) list \<Rightarrow>
     BatchVerifier \<Rightarrow> int list \<Rightarrow> int \<Rightarrow> (BatchVerifier \<times> int list \<times> int) outcome" where
  "batch_loop env chainID vals commit pol idx [] seen bv idxs tally = Ok (bv, idxs, tally)"
| "batch_loop env chainID vals commit pol idx (cs # rest) seen bv idxs tally =
     (if spIgnore pol cs then batch_loop env chainID vals commit pol (idx + 1) rest seen bv idxs tally
      else bindo (find_signer (ValidatorSet_GetByAddressMut vals) pol vals idx cs seen) (\<lambda>r.
        case r of None \<Rightarrow> batch_loop env chainID vals commit pol (idx + 1) rest seen bv idxs tally
        | Some (val, seen') \<Rightarrow>
            bindo (Commit_VoteSignBytes env commit chainID (wrap32 idx)) (\<lambda>sb.
            bindo (BatchVerifier_Add bv (vaPubKey val) sb (csSignature cs)) (\<lambda>bv'.
              let tally' = add_power pol cs val tally in
              if \<not> spAll pol \<and> tally' > spNeeded pol then Ok (bv', idxs @ [idx], tally')
              else batch_loop env chainID vals commit pol (idx + 1) rest seen' bv' (idxs @ [idx]) tally'))))"

text \<open>The first invalid entry, by its index in the commit.\<close>

fun first_invalid :: "int list \<Rightarrow> bool list \<Rightarrow> unit outcome" where
  "first_invalid idxs [] = Err (ErrNew ''BUG: batch verification failed with no invalid signatures'')"
| "first_invalid [] (ok # oks) = (if ok then first_invalid [] oks else Panic index_panic)"
| "first_invalid (i # is) (ok # oks) = (if ok then first_invalid is oks else Err (ErrFmt ''wrong signature'' [i]))"

definition verifyCommitBatch ::
    "'a crypto_env_scheme \<Rightarrow> string \<Rightarrow> ValidatorSet \<Rightarrow> Commit \<Rightarrow> sig_policy \<Rightarrow> unit outcome" where
  "verifyCommitBatch env chainID vals commit pol =
     bindo (ValidatorSet_GetProposer vals) (\<lambda>(vals', p).
     case p of None \<Rightarrow> Panic nil_pointer
     | Some pr \<Rightarrow>
         bindo (CreateBatchVerifier (vaPubKey pr)) (\<lambda>r.
         case r of
           None \<Rightarrow> Err (ErrNew ''unsupported signature algorithm or insufficient signatures for batch verification'')
         | Some bv0 \<Rightarrow>
             if int (length (cmSignatures commit)) < batchVerifyThreshold
               then Err (ErrNew ''unsupported signature algorithm or insufficient signatures for batch verification'')
             else bindo (batch_loop env chainID vals' commit pol 0 (cmSignatures commit) [] bv0 [] 0) (\<lambda>(bv, idxs, got).
               if got \<le> spNeeded pol then Err (ErrNotEnoughVotingPowerSigned got (spNeeded pol))
               else case BatchVerifier_Verify env bv of (ok, validSigs) \<Rightarrow>
                 if ok then Ok () else first_invalid idxs validSigs)))"

fun single_loop ::
    "'a crypto_env_scheme \<Rightarrow> string \<Rightarrow> ValidatorSet \<Rightarrow> Commit \<Rightarrow> sig_policy \<Rightarrow> int \<Rightarrow> CommitSig list \<Rightarrow> (int \<times> int) list \<Rightarrow> int \<Rightarrow>
     unit outcome" where
  "single_loop env chainID vals commit pol idx [] seen tally =
     (if tally \<le> spNeeded pol then Err (ErrNotEnoughVotingPowerSigned tally (spNeeded pol)) else Ok ())"
| "single_loop env chainID vals commit pol idx (cs # rest) seen tally =
     (if spIgnore pol cs then single_loop env chainID vals commit pol (idx + 1) rest seen tally
      else if CommitSig_ValidateBasic cs \<noteq> Ok () then Err (ErrFmt ''invalid signatures from'' [idx])
      else bindo (find_signer (ValidatorSet_GetByAddress vals) pol vals idx cs seen) (\<lambda>r.
        case r of None \<Rightarrow> single_loop env chainID vals commit pol (idx + 1) rest seen tally
        | Some (val, seen') \<Rightarrow>
            (case vaPubKey val of None \<Rightarrow> Err (ErrFmt ''validator has a nil PubKey'' [idx])
             | Some pk \<Rightarrow>
                 bindo (Commit_VoteSignBytes env commit chainID (wrap32 idx)) (\<lambda>sb.
                   if \<not> PubKey_VerifySignature env pk sb (csSignature cs) then Err (ErrFmt ''wrong signature'' [idx])
                   else let tally' = add_power pol cs val tally in
                     if \<not> spAll pol \<and> tally' > spNeeded pol then Ok ()
                     else single_loop env chainID vals commit pol (idx + 1) rest seen' tally'))))"

definition verifyCommitSingle ::
    "'a crypto_env_scheme \<Rightarrow> string \<Rightarrow> ValidatorSet \<Rightarrow> Commit \<Rightarrow> sig_policy \<Rightarrow> unit outcome" where
  "verifyCommitSingle env chainID vals commit pol = single_loop env chainID vals commit pol 0 (cmSignatures commit) [] 0"

definition verifyBasicValsAndCommit :: "ValidatorSet option \<Rightarrow> Commit option \<Rightarrow> int \<Rightarrow> BlockID \<Rightarrow> unit outcome" where
  "verifyBasicValsAndCommit vals commit height blockID =
     (case vals of None \<Rightarrow> Err (ErrNew ''nil validator set'')
      | Some vs \<Rightarrow> (case commit of None \<Rightarrow> Err (ErrNew ''nil commit'')
         | Some c \<Rightarrow>
             if ValidatorSet_Size vs \<noteq> int (length (cmSignatures c))
               then Err (ErrFmt ''Invalid commit -- wrong set size'' [ValidatorSet_Size vs, int (length (cmSignatures c))])
             else if height \<noteq> cmHeight c then Err (ErrFmt ''Invalid commit -- wrong height'' [height, cmHeight c])
             else if \<not> BlockID_Equals blockID (cmBlockID c) then Err (ErrNew ''invalid commit -- wrong block ID'')
             else Ok ()))"

definition verify_with :: "'a crypto_env_scheme \<Rightarrow> string \<Rightarrow> ValidatorSet \<Rightarrow> Commit \<Rightarrow> sig_policy \<Rightarrow> unit outcome" where
  "verify_with env chainID vals commit pol =
     bindo (shouldBatchVerify vals commit) (\<lambda>(vals', batch).
     if batch then verifyCommitBatch env chainID vals' commit pol else verifyCommitSingle env chainID vals' commit pol)"

definition VerifyCommit ::
    "'a crypto_env_scheme \<Rightarrow> string \<Rightarrow> ValidatorSet option \<Rightarrow> BlockID \<Rightarrow> int \<Rightarrow> Commit option \<Rightarrow> unit outcome" where
  "VerifyCommit env chainID vals blockID height commit =
     bindo (verifyBasicValsAndCommit vals commit height blockID) (\<lambda>_.
     bindo (ValidatorSet_TotalVotingPower (the vals)) (\<lambda>(vals', total).
     verify_with env chainID vals' (the commit)
       \<lparr>spNeeded = quot (wrap64 (total * 2)) 3, spIgnore = (\<lambda>c. csFlag c = BlockIDFlagAbsent),
        spCount = (\<lambda>c. csFlag c = BlockIDFlagCommit), spAll = True, spByIndex = True\<rparr>))"

definition verifyCommitLightInternal ::
    "'a crypto_env_scheme \<Rightarrow> string \<Rightarrow> ValidatorSet option \<Rightarrow> BlockID \<Rightarrow> int \<Rightarrow> Commit option \<Rightarrow> bool \<Rightarrow> unit outcome" where
  "verifyCommitLightInternal env chainID vals blockID height commit countAllSignatures =
     bindo (verifyBasicValsAndCommit vals commit height blockID) (\<lambda>_.
     bindo (ValidatorSet_TotalVotingPower (the vals)) (\<lambda>(vals', total).
     verify_with env chainID vals' (the commit)
       \<lparr>spNeeded = quot (wrap64 (total * 2)) 3, spIgnore = (\<lambda>c. csFlag c \<noteq> BlockIDFlagCommit),
        spCount = (\<lambda>_. True), spAll = countAllSignatures, spByIndex = True\<rparr>))"

definition VerifyCommitLight ::
    "'a crypto_env_scheme \<Rightarrow> string \<Rightarrow> ValidatorSet option \<Rightarrow> BlockID \<Rightarrow> int \<Rightarrow> Commit option \<Rightarrow> unit outcome" where
  "VerifyCommitLight env chainID vals blockID height commit =
     verifyCommitLightInternal env chainID vals blockID height commit False"

definition VerifyCommitLightAllSignatures ::
    "'a crypto_env_scheme \<Rightarrow> string \<Rightarrow> ValidatorSet option \<Rightarrow> BlockID \<Rightarrow> int \<Rightarrow> Commit option \<Rightarrow> unit outcome" where
  "VerifyCommitLightAllSignatures env chainID vals blockID height commit =
     verifyCommitLightInternal env chainID vals blockID height commit True"

text \<open>A fraction has two unsigned 64-bit integers; \<^verbatim>\<open>int64\<close> of them may wrap.\<close>

record Fraction =
  frNumerator :: "64 word"
  frDenominator :: "64 word"

definition verifyCommitLightTrustingInternal ::
    "'a crypto_env_scheme \<Rightarrow> string \<Rightarrow> ValidatorSet option \<Rightarrow> Commit option \<Rightarrow> Fraction \<Rightarrow> bool \<Rightarrow> unit outcome" where
  "verifyCommitLightTrustingInternal env chainID vals commit trustLevel countAllSignatures =
     (case vals of None \<Rightarrow> Err (ErrNew ''nil validator set'')
      | Some vs \<Rightarrow>
          if frDenominator trustLevel = 0 then Err (ErrNew ''trustLevel has zero Denominator'')
          else case commit of None \<Rightarrow> Err (ErrNew ''nil commit'')
          | Some c \<Rightarrow>
              bindo (ValidatorSet_TotalVotingPower vs) (\<lambda>(vs', total).
              case safeMul total (sint (frNumerator trustLevel)) of (m, overflow) \<Rightarrow>
                if overflow then Err (ErrNew ''int64 overflow while calculating voting power needed'')
                else verify_with env chainID vs' c
                  \<lparr>spNeeded = wrap64 (quot m (sint (frDenominator trustLevel))), spIgnore = (\<lambda>c. csFlag c \<noteq> BlockIDFlagCommit),
                   spCount = (\<lambda>_. True), spAll = countAllSignatures, spByIndex = False\<rparr>))"

definition VerifyCommitLightTrusting ::
    "'a crypto_env_scheme \<Rightarrow> string \<Rightarrow> ValidatorSet option \<Rightarrow> Commit option \<Rightarrow> Fraction \<Rightarrow> unit outcome" where
  "VerifyCommitLightTrusting env chainID vals commit trustLevel =
     verifyCommitLightTrustingInternal env chainID vals commit trustLevel False"

definition VerifyCommitLightTrustingAllSignatures ::
    "'a crypto_env_scheme \<Rightarrow> string \<Rightarrow> ValidatorSet option \<Rightarrow> Commit option \<Rightarrow> Fraction \<Rightarrow> unit outcome" where
  "VerifyCommitLightTrustingAllSignatures env chainID vals commit trustLevel =
     verifyCommitLightTrustingInternal env chainID vals commit trustLevel True"

section \<open>What the routines collect\<close>

text \<open>Both routines walk over the same signers; only the checks on the way differ.\<close>

fun collect ::
    "ValidatorSet \<Rightarrow> sig_policy \<Rightarrow> int \<Rightarrow> CommitSig list \<Rightarrow> (int \<times> int) list \<Rightarrow> int \<Rightarrow> ((int \<times> CommitSig \<times> Validator) list \<times> int) outcome" where
  "collect vals pol idx [] seen tally = Ok ([], tally)"
| "collect vals pol idx (cs # rest) seen tally =
     (if spIgnore pol cs then collect vals pol (idx + 1) rest seen tally
      else bindo (find_signer (ValidatorSet_GetByAddressMut vals) pol vals idx cs seen) (\<lambda>r.
        case r of None \<Rightarrow> collect vals pol (idx + 1) rest seen tally
        | Some (val, seen') \<Rightarrow>
            (let tally' = add_power pol cs val tally in
             if \<not> spAll pol \<and> tally' > spNeeded pol then Ok ([(idx, cs, val)], tally')
             else bindo (collect vals pol (idx + 1) rest seen' tally') (\<lambda>(ps, t). Ok ((idx, cs, val) # ps, t)))))"

text \<open>Signature number \<open>i\<close> of the commit verifies under the key of the validator.\<close>

definition signed_by :: "'a crypto_env_scheme \<Rightarrow> string \<Rightarrow> Commit \<Rightarrow> int \<Rightarrow> CommitSig \<Rightarrow> Validator \<Rightarrow> bool" where
  "signed_by env chainID commit i cs val =
     (case vaPubKey val of None \<Rightarrow> False
      | Some pk \<Rightarrow>
          (case Commit_VoteSignBytes env commit chainID i of
             Ok sb \<Rightarrow> PubKey_VerifySignature env pk sb (csSignature cs)
           | _ \<Rightarrow> False))"

text \<open>The positions of the validators whose signature for the block verifies, and the power of a set of positions.\<close>

definition signers :: "'a crypto_env_scheme \<Rightarrow> string \<Rightarrow> ValidatorSet \<Rightarrow> Commit \<Rightarrow> nat set" where
  "signers env chainID vals commit =
     set (filter (\<lambda>i. csFlag (cmSignatures commit ! i) = BlockIDFlagCommit \<and>
                      signed_by env chainID commit (int i) (cmSignatures commit ! i) (vsValidators vals ! i))
           [0..<length (cmSignatures commit)])"

definition power_at :: "ValidatorSet \<Rightarrow> nat set \<Rightarrow> int" where
  "power_at vals I = (\<Sum>i\<in>I. vaPower (vsValidators vals ! i))"

section \<open>The routines check what they collect\<close>

lemma find_address_range: "find_address k a vs = (i, Some v) \<Longrightarrow> 0 \<le> k \<Longrightarrow> k + int (length vs) < 2147483648 \<Longrightarrow> 0 \<le> i"
proof (induction vs arbitrary: k)
  case (Cons u vs)
  then have "wrap32 k = k" by (simp add: wrap32_id in32_def)
  then show ?case using Cons by (auto split: if_splits)
qed simp

lemma GetByAddress_eq:
  assumes "int (length (vsValidators vals)) < 2147483648"
  shows "ValidatorSet_GetByAddress vals = ValidatorSet_GetByAddressMut vals"
proof
  fix a
  obtain i v where g: "ValidatorSet_GetByAddressMut vals a = (i, v)" by fastforce
  have "find_address k a vs = (j, None) \<Longrightarrow> j = -1" for k j vs by (induction vs arbitrary: k) (auto split: if_splits)
  then have "v = None \<Longrightarrow> i = -1" using g by (simp add: ValidatorSet_GetByAddressMut_def)
  moreover have "v = Some u \<Longrightarrow> i \<noteq> -1" for u
    using g assms find_address_range [of 0 a "vsValidators vals" i u] by (auto simp: ValidatorSet_GetByAddressMut_def)
  ultimately show "ValidatorSet_GetByAddress vals a = ValidatorSet_GetByAddressMut vals a"
    using g by (cases v) (auto simp: ValidatorSet_GetByAddress_def)
qed

text \<open>
  What the single routine accepts it has collected, with enough power, and every signature verifies; the
  converse holds for signatures that pass their own validation.
\<close>

abbreviation all_signed :: "'a crypto_env_scheme \<Rightarrow> string \<Rightarrow> Commit \<Rightarrow> (int \<times> CommitSig \<times> Validator) list \<Rightarrow> bool" where
  "all_signed env chainID commit ps \<equiv> list_all (\<lambda>(i, cs, v). signed_by env chainID commit i cs v) ps"

lemma single_loop_collects:
  assumes "int (length (vsValidators vals)) < 2147483648" "0 \<le> idx" "idx + int (length css) < 2147483648"
    and "single_loop env chainID vals commit pol idx css seen tally = Ok ()"
  shows "\<exists>ps t. collect vals pol idx css seen tally = Ok (ps, t) \<and> t > spNeeded pol \<and> all_signed env chainID commit ps"
  using assms(2-)
proof (induction css arbitrary: idx seen tally)
  case Nil
  then show ?case by (simp split: if_splits)
next
  case (Cons cs css)
  have w: "wrap32 idx = idx" using Cons.prems by (simp add: wrap32_id in32_def)
  have k: "0 \<le> idx + 1" "idx + 1 + int (length css) < 2147483648" using Cons.prems(1,2) by simp_all
  note IH = Cons.IH [OF k] and get = GetByAddress_eq [OF assms(1)]
  show ?case
  proof (cases "spIgnore pol cs")
    case False
    obtain r where r: "find_signer (ValidatorSet_GetByAddressMut vals) pol vals idx cs seen = Ok r"
      using Cons.prems(3) False by (auto simp: get bindo_Ok_iff split: if_splits)
    show ?thesis
    proof (cases r)
      case None
      then show ?thesis using Cons.prems(3) False r IH [of seen tally] by (simp add: get split: if_splits)
    next
      case (Some x)
      then obtain val seen' where x: "r = Some (val, seen')" by (cases x) simp
      then obtain pk sb where signed: "vaPubKey val = Some pk" "Commit_VoteSignBytes env commit chainID idx = Ok sb"
          "PubKey_VerifySignature env pk sb (csSignature cs)"
        using Cons.prems(3) False r w by (auto simp: get bindo_Ok_iff split: if_splits option.splits)
      then have sb: "signed_by env chainID commit idx cs val" by (simp add: signed_by_def)
      show ?thesis
        using Cons.prems(3) False r x signed sb w IH [of seen' "add_power pol cs val tally"]
        by (auto simp: get Let_def split: if_splits)
    qed
  qed (use Cons.prems(3) IH in simp)
qed

lemma collects_single_loop:
  assumes "int (length (vsValidators vals)) < 2147483648" "0 \<le> idx" "idx + int (length css) < 2147483648"
    and "collect vals pol idx css seen tally = Ok (ps, t)" "t > spNeeded pol" "all_signed env chainID commit ps"
    and "list_all (\<lambda>cs. spIgnore pol cs \<or> CommitSig_ValidateBasic cs = Ok ()) css"
  shows "single_loop env chainID vals commit pol idx css seen tally = Ok ()"
  using assms(2-)
proof (induction css arbitrary: idx seen tally ps)
  case Nil
  then show ?case by simp
next
  case (Cons cs css)
  have w: "wrap32 idx = idx" using Cons.prems by (simp add: wrap32_id in32_def)
  have k: "0 \<le> idx + 1" "idx + 1 + int (length css) < 2147483648" using Cons.prems(1,2) by simp_all
  note IH = Cons.IH [OF k] and get = GetByAddress_eq [OF assms(1)]
  have rest: "list_all (\<lambda>cs. spIgnore pol cs \<or> CommitSig_ValidateBasic cs = Ok ()) css" using Cons.prems(6) by simp
  show ?case
  proof (cases "spIgnore pol cs")
    case False
    then have vb: "CommitSig_ValidateBasic cs = Ok ()" using Cons.prems(6) by simp
    obtain r where r: "find_signer (ValidatorSet_GetByAddressMut vals) pol vals idx cs seen = Ok r"
      using Cons.prems(3) False by (auto simp: bindo_Ok_iff)
    show ?thesis
    proof (cases r)
      case None
      then show ?thesis using Cons.prems(3-5) False vb r IH rest by (simp add: get)
    next
      case (Some x)
      then obtain val seen' where x: "r = Some (val, seen')" by (cases x) simp
      have sb: "signed_by env chainID commit idx cs val"
        using Cons.prems(3,5) False r x by (auto simp: Let_def bindo_Ok_iff split: if_splits)
      then obtain pk b where signed: "vaPubKey val = Some pk" "Commit_VoteSignBytes env commit chainID idx = Ok b"
          "PubKey_VerifySignature env pk b (csSignature cs)"
        by (auto simp: signed_by_def split: option.splits outcome.splits)
      show ?thesis
        using Cons.prems(3-5) False vb r x signed w rest IH [of seen' "add_power pol cs val tally"]
        by (auto simp: get Let_def bindo_Ok_iff split: if_splits)
    qed
  qed (use Cons.prems IH rest in simp)
qed

text \<open>What the batch routine adds to its batch for an element of the collection.\<close>

definition batch_entry :: "'a crypto_env_scheme \<Rightarrow> string \<Rightarrow> Commit \<Rightarrow> int \<times> CommitSig \<times> Validator \<Rightarrow> bytes \<times> bytes \<times> bytes \<Rightarrow> bool" where
  "batch_entry env chainID commit = (\<lambda>(i, cs, v) (k, m, s).
     vaPubKey v = Some (Ed25519 k) \<and> length k = ed25519_PubKeySize \<and> length s = ed25519_SignatureSize \<and>
     s = csSignature cs \<and> Commit_VoteSignBytes env commit chainID i = Ok m)"

lemma batch_entry_signed:
  "batch_entry env chainID commit (i, cs, v) (k, m, s) \<Longrightarrow> signed_by env chainID commit i cs v = pr_ed_verify env k m s"
  by (auto simp: batch_entry_def signed_by_def ed25519_PubKey_VerifySignature_def)

lemma batch_entries_signed:
  "list_all2 (batch_entry env chainID commit) ps es \<Longrightarrow>
   all_signed env chainID commit ps = list_all (\<lambda>(k, m, s). pr_ed_verify env k m s) es"
  by (induction rule: list_all2_induct) (auto simp: batch_entry_signed)

lemma batch_loop_collects:
  assumes "0 \<le> idx" "idx + int (length css) < 2147483648"
    and "batch_loop env chainID vals commit pol idx css seen bv idxs tally = Ok (bv', idxs', t)"
  shows "\<exists>ps es. collect vals pol idx css seen tally = Ok (ps, t) \<and> bv' = bv @ es \<and>
    list_all2 (batch_entry env chainID commit) ps es"
  using assms
proof (induction css arbitrary: idx seen bv idxs tally)
  case Nil
  then show ?case by simp
next
  case (Cons cs css)
  have w: "wrap32 idx = idx" using Cons.prems by (simp add: wrap32_id in32_def)
  have k: "0 \<le> idx + 1" "idx + 1 + int (length css) < 2147483648" using Cons.prems(1,2) by simp_all
  note IH = Cons.IH [OF k]
  show ?case
  proof (cases "spIgnore pol cs")
    case False
    obtain r where r: "find_signer (ValidatorSet_GetByAddressMut vals) pol vals idx cs seen = Ok r"
      using Cons.prems(3) False by (auto simp: bindo_Ok_iff)
    show ?thesis
    proof (cases r)
      case None
      then show ?thesis using Cons.prems(3) False r IH [of seen] by simp
    next
      case (Some x)
      then obtain val seen' where x: "r = Some (val, seen')" by (cases x) simp
      then obtain sb bv1 where add: "Commit_VoteSignBytes env commit chainID idx = Ok sb"
          "BatchVerifier_Add bv (vaPubKey val) sb (csSignature cs) = Ok bv1"
        using Cons.prems(3) False r w by (auto simp: bindo_Ok_iff)
      then obtain e where e: "bv1 = bv @ [e]" "batch_entry env chainID commit (idx, cs, val) e"
        by (auto simp: BatchVerifier_Add_def batch_entry_def split: option.splits PubKey.splits if_splits)
      let ?t = "add_power pol cs val tally"
      show ?thesis
      proof (cases "\<not> spAll pol \<and> ?t > spNeeded pol")
        case True
        then show ?thesis using Cons.prems(3) False r x add w e by (auto simp: Let_def)
      next
        case nq: False
        then have "batch_loop env chainID vals commit pol (idx + 1) css seen' bv1 (idxs @ [idx]) ?t = Ok (bv', idxs', t)"
          using Cons.prems(3) False r x add w by (auto simp: Let_def split: if_splits)
        then obtain ps es where "collect vals pol (idx + 1) css seen' ?t = Ok (ps, t)" "bv' = bv1 @ es"
            "list_all2 (batch_entry env chainID commit) ps es"
          using IH by blast
        then show ?thesis using False r x nq e
          by (intro exI [of _ "(idx, cs, val) # ps"] exI [of _ "e # es"]) (auto simp: Let_def)
      qed
    qed
  qed (use Cons.prems(3) IH in simp)
qed

definition ed_keys :: "ValidatorSet \<Rightarrow> bool" where
  "ed_keys vals = list_all (\<lambda>v. case vaPubKey v of Some (Ed25519 k) \<Rightarrow> length k = ed25519_PubKeySize | _ \<Rightarrow> False) (vsValidators vals)"

lemma find_signer_member:
  assumes "find_signer (ValidatorSet_GetByAddressMut vals) pol vals idx cs seen = Ok (Some (val, seen'))"
  shows "val \<in> set (vsValidators vals)"
proof (cases "spByIndex pol")
  case True
  then show ?thesis using assms by (auto simp: find_signer_def index_at_def split: if_splits)
next
  case False
  obtain i v where g: "ValidatorSet_GetByAddressMut vals (csValAddr cs) = (i, v)" by fastforce
  then have "v = Some val" using assms False by (auto simp: find_signer_def split: option.splits)
  then have "find (addr_is (csValAddr cs)) (vsValidators vals) = Some val" using g GetByAddressMut_find [of vals "csValAddr cs"] by simp
  then show ?thesis by (auto simp: find_Some_iff)
qed

lemma signed_addable:
  assumes "ed_keys vals" "val \<in> set (vsValidators vals)" "signed_by env chainID commit i cs val"
  shows "\<exists>sb bv1. Commit_VoteSignBytes env commit chainID i = Ok sb \<and> BatchVerifier_Add bv (vaPubKey val) sb (csSignature cs) = Ok bv1"
  using assms
  by (auto simp: ed_keys_def list_all_iff signed_by_def BatchVerifier_Add_def ed25519_PubKey_VerifySignature_def
      split: option.splits outcome.splits PubKey.splits if_splits)

lemma collects_batch_loop:
  assumes "0 \<le> idx" "idx + int (length css) < 2147483648" "ed_keys vals"
    and "collect vals pol idx css seen tally = Ok (ps, t)" "all_signed env chainID commit ps"
  shows "\<exists>bv' idxs'. batch_loop env chainID vals commit pol idx css seen bv idxs tally = Ok (bv', idxs', t)"
  using assms(1,2,4,5)
proof (induction css arbitrary: idx seen bv idxs tally ps)
  case Nil
  then show ?case by simp
next
  case (Cons cs css)
  have w: "wrap32 idx = idx" using Cons.prems by (simp add: wrap32_id in32_def)
  have k: "0 \<le> idx + 1" "idx + 1 + int (length css) < 2147483648" using Cons.prems(1,2) by simp_all
  note IH = Cons.IH [OF k]
  show ?case
  proof (cases "spIgnore pol cs")
    case False
    obtain r where r: "find_signer (ValidatorSet_GetByAddressMut vals) pol vals idx cs seen = Ok r"
      using Cons.prems(3) False by (auto simp: bindo_Ok_iff)
    show ?thesis
    proof (cases r)
      case None
      then show ?thesis using Cons.prems(3,4) False r IH by simp
    next
      case (Some x)
      then obtain val seen' where x: "r = Some (val, seen')" by (cases x) simp
      let ?t = "add_power pol cs val tally"
      have sb: "signed_by env chainID commit idx cs val"
        using Cons.prems(3,4) False r x by (auto simp: Let_def bindo_Ok_iff split: if_splits)
      then obtain b bv1 where add: "Commit_VoteSignBytes env commit chainID idx = Ok b"
          "BatchVerifier_Add bv (vaPubKey val) b (csSignature cs) = Ok bv1"
        using signed_addable [OF assms(3)] find_signer_member r x by blast
      show ?thesis
      proof (cases "\<not> spAll pol \<and> ?t > spNeeded pol")
        case True
        then show ?thesis using Cons.prems(3) False r x add w by (auto simp: Let_def)
      next
        case nq: False
        then obtain ps' where "collect vals pol (idx + 1) css seen' ?t = Ok (ps', t)" "all_signed env chainID commit ps'"
          using Cons.prems(3,4) False r x by (auto simp: Let_def bindo_Ok_iff split: if_splits)
        then obtain bv' idxs' where "batch_loop env chainID vals commit pol (idx + 1) css seen' bv1 (idxs @ [idx]) ?t = Ok (bv', idxs', t)"
          using IH by blast
        then show ?thesis using False r x add w nq by (auto simp: Let_def)
      qed
    qed
  qed (use Cons.prems(3,4) IH in simp)
qed

lemma collect_Nil: "collect vals pol idx css seen tally = Ok ([], t) \<Longrightarrow> t = tally"
  by (induction css arbitrary: idx seen) (auto simp: bindo_Ok_iff Let_def split: if_splits option.splits)

section \<open>The choice of the routine\<close>

lemma GetProposer_keeps:
  assumes "ValidatorSet_GetProposer vals = Ok (vals', Some pr)"
  shows "vsValidators vals' = vsValidators vals" "ValidatorSet_GetProposer vals' = Ok (vals', Some pr)"
proof -
  have ne: "vsValidators vals \<noteq> []" using assms by (auto simp: ValidatorSet_GetProposer_def)
  have pr: "Proposer vals' = Some pr" and eq: "vsValidators vals' = vsValidators vals"
    using assms ne by (auto simp: ValidatorSet_GetProposer_def bindo_Ok_iff split: option.splits proposer_ref.splits)
  have "vsProposer vals' \<noteq> NoProposer" using pr by (auto simp: Proposer_def)
  then show "ValidatorSet_GetProposer vals' = Ok (vals', Some pr)"
    using pr eq ne by (cases "vsProposer vals'") (simp_all add: ValidatorSet_GetProposer_def)
  show "vsValidators vals' = vsValidators vals" by (rule eq)
qed

lemma first_invalid_not_Ok: "first_invalid idxs oks \<noteq> Ok ()"
  by (induction idxs oks rule: first_invalid.induct) auto

lemma shouldBatchVerify_True:
  assumes "shouldBatchVerify vals commit = Ok (vals', True)"
  shows "vsValidators vals' = vsValidators vals \<and> \<not> int (length (cmSignatures commit)) < batchVerifyThreshold \<and>
      (\<exists>pr. ValidatorSet_GetProposer vals' = Ok (vals', Some pr) \<and> CreateBatchVerifier (vaPubKey pr) = Ok (Some []))"
proof -
  obtain pr where pr: "ValidatorSet_GetProposer vals = Ok (vals', Some pr)" "SupportsBatchVerifier (vaPubKey pr)"
      "\<not> int (length (cmSignatures commit)) < batchVerifyThreshold"
    using assms by (auto simp: shouldBatchVerify_def bindo_Ok_iff split: if_splits option.splits)
  then have "CreateBatchVerifier (vaPubKey pr) = Ok (Some [])"
    by (auto simp: SupportsBatchVerifier_def CreateBatchVerifier_def split: option.splits)
  then show ?thesis using GetProposer_keeps [OF pr(1)] pr(3) by blast
qed

lemma shouldBatchVerify_keeps:
  "shouldBatchVerify vals commit = Ok (vals', batch) \<Longrightarrow> vsValidators vals' = vsValidators vals"
  using GetProposer_keeps(1) [of vals vals']
  by (auto simp: shouldBatchVerify_def bindo_Ok_iff split: if_splits option.splits)

lemma verifyCommitBatch_eq:
  assumes "shouldBatchVerify vals0 commit = Ok (vals, True)"
  shows "verifyCommitBatch env chainID vals commit pol =
    bindo (batch_loop env chainID vals commit pol 0 (cmSignatures commit) [] [] [] 0) (\<lambda>(bv, idxs, got).
      if got \<le> spNeeded pol then Err (ErrNotEnoughVotingPowerSigned got (spNeeded pol))
      else case BatchVerifier_Verify env bv of (ok, validSigs) \<Rightarrow> if ok then Ok () else first_invalid idxs validSigs)"
  using shouldBatchVerify_True [OF assms] by (auto simp: verifyCommitBatch_def)

text \<open>Once its batch is complete, the batch routine accepts exactly when all that it collected is signed.\<close>

lemma batch_decides:
  assumes "shouldBatchVerify vals0 commit = Ok (vals, True)" "batch_exact env" "0 \<le> spNeeded pol"
    and "int (length (cmSignatures commit)) < 2147483648"
    and loop: "batch_loop env chainID vals commit pol 0 (cmSignatures commit) [] [] [] 0 = Ok (bv, idxs, t)"
    and "collect vals pol 0 (cmSignatures commit) [] 0 = Ok (ps, t')"
  shows "verifyCommitBatch env chainID vals commit pol = Ok () \<longleftrightarrow> t' > spNeeded pol \<and> all_signed env chainID commit ps"
proof -
  have t: "t' = t" and es: "list_all2 (batch_entry env chainID commit) ps bv"
    using batch_loop_collects [OF _ _ loop] assms(4,6) by auto
  show ?thesis
  proof (cases "t > spNeeded pol")
    case True
    then have "ps \<noteq> []" using collect_Nil [of vals pol 0 "cmSignatures commit" "[]" 0 t'] assms(3,6) t by auto
    then have "bv \<noteq> []" using es by auto
    then have "fst (BatchVerifier_Verify env bv) = all_signed env chainID commit ps"
      using assms(2) batch_entries_signed [OF es] by (simp add: batch_exact_def BatchVerifier_Verify_def)
    then show ?thesis using True t
      by (cases "BatchVerifier_Verify env bv") (simp add: verifyCommitBatch_eq [OF assms(1)] loop first_invalid_not_Ok)
  qed (simp add: t verifyCommitBatch_eq [OF assms(1)] loop)
qed

lemma verifyCommitBatch_collects:
  assumes "shouldBatchVerify vals0 commit = Ok (vals, True)" "batch_exact env" "0 \<le> spNeeded pol"
    and "int (length (cmSignatures commit)) < 2147483648" "verifyCommitBatch env chainID vals commit pol = Ok ()"
  shows "\<exists>ps t. collect vals pol 0 (cmSignatures commit) [] 0 = Ok (ps, t) \<and> t > spNeeded pol \<and> all_signed env chainID commit ps"
proof -
  obtain bv idxs t where loop: "batch_loop env chainID vals commit pol 0 (cmSignatures commit) [] [] [] 0 = Ok (bv, idxs, t)"
    using assms(5) by (auto simp: verifyCommitBatch_eq [OF assms(1)] bindo_Ok_iff)
  then obtain ps where "collect vals pol 0 (cmSignatures commit) [] 0 = Ok (ps, t)"
    using batch_loop_collects [OF _ _ loop] assms(4) by auto
  then show ?thesis using batch_decides [OF assms(1-4) loop] assms(5) by blast
qed

lemma verify_with_collects:
  assumes "verify_with env chainID vals commit pol = Ok ()" "batch_exact env" "0 \<le> spNeeded pol"
    and "int (length (cmSignatures commit)) < 2147483648" "int (length (vsValidators vals)) < 2147483648"
  shows "\<exists>vals' ps t. vsValidators vals' = vsValidators vals \<and> collect vals' pol 0 (cmSignatures commit) [] 0 = Ok (ps, t) \<and>
    t > spNeeded pol \<and> all_signed env chainID commit ps"
proof -
  obtain vals' batch where b: "shouldBatchVerify vals commit = Ok (vals', batch)"
    and v: "(if batch then verifyCommitBatch env chainID vals' commit pol else verifyCommitSingle env chainID vals' commit pol) = Ok ()"
    using assms(1) by (auto simp: verify_with_def bindo_Ok_iff)
  note keeps = shouldBatchVerify_keeps [OF b]
  have "\<exists>ps t. collect vals' pol 0 (cmSignatures commit) [] 0 = Ok (ps, t) \<and> t > spNeeded pol \<and> all_signed env chainID commit ps"
  proof (cases batch)
    case True
    then show ?thesis using verifyCommitBatch_collects [of vals commit vals'] b v assms(2-4) by simp
  next
    case False
    then show ?thesis using single_loop_collects [of vals' 0 "cmSignatures commit"] v keeps assms(4,5) by (simp add: verifyCommitSingle_def)
  qed
  then show ?thesis using keeps by blast
qed

section \<open>The power that signed\<close>

text \<open>
  What quorums need of a notion of power: it is modular on the sets of members and grows with the set. Two
  sets with more than two thirds of the power then share more than a third.
\<close>

locale weighted_quorums =
  fixes wf :: "'s \<Rightarrow> bool" and members :: "'s \<Rightarrow> nat set" and power :: "'s \<Rightarrow> nat set \<Rightarrow> int"
  assumes modular: "A \<subseteq> members s \<Longrightarrow> B \<subseteq> members s \<Longrightarrow> power s (A \<union> B) + power s (A \<inter> B) = power s A + power s B"
    and mono: "wf s \<Longrightarrow> A \<subseteq> B \<Longrightarrow> B \<subseteq> members s \<Longrightarrow> power s A \<le> power s B"
begin

lemma quorums_meet:
  assumes "wf s" "A \<subseteq> members s" "B \<subseteq> members s"
    and "2 * power s (members s) < 3 * power s A" "2 * power s (members s) < 3 * power s B"
  shows "power s (members s) < 3 * power s (A \<inter> B)"
proof -
  have "power s (A \<union> B) \<le> power s (members s)" using mono [OF assms(1), of "A \<union> B"] assms(2,3) by simp
  then show ?thesis using modular [OF assms(2,3)] assms(4,5) by linarith
qed

end

definition positions :: "ValidatorSet \<Rightarrow> nat set" where
  "positions vals = {..<length (vsValidators vals)}"

interpretation voting: weighted_quorums valid_set positions power_at
proof
  fix A B :: "nat set" and vals :: ValidatorSet
  assume "A \<subseteq> positions vals" "B \<subseteq> positions vals"
  then have "finite A" "finite B" by (auto simp: positions_def intro: finite_subset)
  then show "power_at vals (A \<union> B) + power_at vals (A \<inter> B) = power_at vals A + power_at vals B"
    unfolding power_at_def by (rule sum.union_inter)
next
  fix A B :: "nat set" and vals :: ValidatorSet
  assume "valid_set vals" "A \<subseteq> B" "B \<subseteq> positions vals"
  moreover from this have "finite B" by (auto simp: positions_def intro: finite_subset)
  ultimately show "power_at vals A \<le> power_at vals B"
    unfolding power_at_def
    by (intro sum_mono2) (auto simp: positions_def valid_set_def valid_vals_def subset_iff intro: less_imp_le)
qed

lemma power_at_positions: "power_at vals (positions vals) = total_power (vsValidators vals)"
  by (simp add: power_at_def positions_def total_power_def sum_list_sum_nth atLeast0LessThan)

lemma collect_by_index:
  assumes "spByIndex pol" "k < length (vsValidators vals)"
  shows "collect vals pol (int k) (cs # css) seen tally =
    (if spIgnore pol cs then collect vals pol (int (Suc k)) css seen tally
     else let tally' = add_power pol cs (vsValidators vals ! k) tally in
       if \<not> spAll pol \<and> tally' > spNeeded pol then Ok ([(int k, cs, vsValidators vals ! k)], tally')
       else bindo (collect vals pol (int (Suc k)) css seen tally') (\<lambda>(ps, t). Ok ((int k, cs, vsValidators vals ! k) # ps, t)))"
  using assms by (simp add: find_signer_def Let_def add.commute)

lemma collect_members:
  assumes "spByIndex pol" "k + length css \<le> length (vsValidators vals)" "collect vals pol (int k) css seen tally = Ok (ps, t)"
    and "(i, cs, v) \<in> set ps"
  shows "\<exists>j < length css. i = int (k + j) \<and> cs = css ! j \<and> v = vsValidators vals ! (k + j) \<and> \<not> spIgnore pol cs"
  using assms(2-)
proof (induction css arbitrary: k seen tally ps)
  case (Cons c css)
  have k: "Suc k + length css \<le> length (vsValidators vals)" using Cons.prems(1) by simp
  have c: "spIgnore pol c = False \<and> (i, cs, v) = (int k, c, vsValidators vals ! k) \<or>
      (\<exists>seen' tally' ps'. collect vals pol (int (Suc k)) css seen' tally' = Ok (ps', t) \<and> (i, cs, v) \<in> set ps')"
    using Cons.prems k by (auto simp: collect_by_index [OF assms(1)] Let_def bindo_Ok_iff simp del: collect.simps split: if_splits)
  then show ?case
  proof
    assume "\<exists>seen' tally' ps'. collect vals pol (int (Suc k)) css seen' tally' = Ok (ps', t) \<and> (i, cs, v) \<in> set ps'"
    then obtain j where "j < length css" "i = int (Suc k + j) \<and> cs = css ! j \<and> v = vsValidators vals ! (Suc k + j) \<and> \<not> spIgnore pol cs"
      using Cons.IH [OF k] by blast
    then show ?thesis by (intro exI [of _ "Suc j"]) auto
  qed (intro exI [of _ 0], simp)
qed simp

lemma collect_complete:
  assumes "spByIndex pol" "spAll pol" "k + length css \<le> length (vsValidators vals)"
    and "collect vals pol (int k) css seen tally = Ok (ps, t)" "j < length css" "\<not> spIgnore pol (css ! j)"
  shows "(int (k + j), css ! j, vsValidators vals ! (k + j)) \<in> set ps"
  using assms(3-)
proof (induction css arbitrary: k j seen tally ps)
  case (Cons c css)
  have k: "Suc k + length css \<le> length (vsValidators vals)" using Cons.prems(1) by simp
  obtain seen' tally' ps' where rest: "collect vals pol (int (Suc k)) css seen' tally' = Ok (ps', t)" "set ps' \<subseteq> set ps"
      "\<not> spIgnore pol c \<Longrightarrow> (int k, c, vsValidators vals ! k) \<in> set ps"
    using Cons.prems k assms(2)
    by (fastforce simp: collect_by_index [OF assms(1)] Let_def bindo_Ok_iff simp del: collect.simps split: if_splits)
  show ?case
  proof (cases j)
    case 0
    then show ?thesis using Cons.prems(4) rest(3) by simp
  next
    case (Suc j')
    then show ?thesis using Cons.IH [OF k rest(1), of j'] Cons.prems(3,4) rest(2) by auto
  qed
qed simp

lemma collect_tally:
  assumes "spByIndex pol" "\<forall>v\<in>set (vsValidators vals). 0 < vaPower v" "finite A"
    and "k + length css \<le> length (vsValidators vals)" "0 \<le> tally"
    and "tally + total_power (drop k (vsValidators vals)) \<le> MaxTotalVotingPower"
    and "collect vals pol (int k) css seen tally = Ok (ps, t)" "\<And>i cs v. (i, cs, v) \<in> set ps \<Longrightarrow> spCount pol cs \<Longrightarrow> nat i \<in> A"
  shows "t \<le> tally + power_at vals (A \<inter> {k..<length (vsValidators vals)})"
  using assms(4-)
proof (induction css arbitrary: k seen tally ps)
  case Nil
  have "0 \<le> power_at vals (A \<inter> {k..<length (vsValidators vals)})"
    unfolding power_at_def using assms(2) by (intro sum_nonneg) (auto intro: less_imp_le)
  then show ?case using Nil.prems by simp
next
  case (Cons c css)
  let ?vs = "vsValidators vals" and ?P = "\<lambda>k. power_at vals (A \<inter> {k..<length (vsValidators vals)})"
  have k: "k < length ?vs" "Suc k + length css \<le> length ?vs" using Cons.prems(1) by simp_all
  have tp: "total_power (drop k ?vs) = vaPower (?vs ! k) + total_power (drop (Suc k) ?vs)"
    using Cons_nth_drop_Suc [OF k(1), symmetric] by (simp add: total_power_def)
  have pos: "0 < vaPower (?vs ! k)" "0 \<le> total_power (drop (Suc k) ?vs)"
    using assms(2) k(1) by (auto intro!: total_power_nonneg dest: in_set_dropD)
  have split: "{k..<length ?vs} = insert k {Suc k..<length ?vs}" using k(1) by auto
  have P: "?P k = (if k \<in> A then vaPower (?vs ! k) else 0) + ?P (Suc k)"
    using assms(3) by (simp add: split Int_insert_right power_at_def)
  have step: "t \<le> tally' + ?P (Suc k)"
    if "collect vals pol (int (Suc k)) css seen' tally' = Ok (ps', t)" "set ps' \<subseteq> set ps" "0 \<le> tally'"
      "tally' \<le> tally + vaPower (?vs ! k)" for seen' tally' ps'
  proof -
    have "tally' + total_power (drop (Suc k) ?vs) \<le> MaxTotalVotingPower" using Cons.prems(3) that(4) tp by linarith
    then show ?thesis using Cons.IH [OF k(2) that(3) _ that(1)] Cons.prems(5) that(2) by blast
  qed
  have P0: "0 \<le> ?P (Suc k)" unfolding power_at_def using assms(2) by (intro sum_nonneg) (auto intro: less_imp_le)
  show ?case
  proof (cases "spIgnore pol c")
    case True
    then have "t \<le> tally + ?P (Suc k)"
      using Cons.prems(4) step [of seen tally ps] Cons.prems(2) pos by (simp add: collect_by_index [OF assms(1) k(1)] del: collect.simps)
    then show ?thesis using P pos by (auto split: if_splits)
  next
    case False
    let ?t = "add_power pol c (?vs ! k) tally"
    note eq = Cons.prems(4) [unfolded collect_by_index [OF assms(1) k(1)] Let_def]
    have mem: "(int k, c, ?vs ! k) \<in> set ps" using eq False by (auto simp: bindo_Ok_iff split: if_splits)
    have rest: "t = ?t \<or> (\<exists>ps'. collect vals pol (int (Suc k)) css seen ?t = Ok (ps', t) \<and> set ps' \<subseteq> set ps)"
      using eq False by (force simp: bindo_Ok_iff split: if_splits)
    have "wrap64 (tally + vaPower (?vs ! k)) = tally + vaPower (?vs ! k)"
      using Cons.prems(2,3) tp pos by (intro wrap64_idI) simp_all
    then have t: "0 \<le> ?t" "?t \<le> tally + vaPower (?vs ! k)" "?t + ?P (Suc k) \<le> tally + ?P k"
      using Cons.prems(2) Cons.prems(5) [OF mem] pos P by (auto simp: add_power_def)
    show ?thesis using rest step [OF _ _ t(1,2)] t(3) P0 by fastforce
  qed
qed

text \<open>The signatures that count for the block are those of \<open>signers\<close>.\<close>

lemma collect_signers:
  assumes "valid_set vals" "vsValidators vals' = vsValidators vals" "length (cmSignatures commit) = length (vsValidators vals)"
    and "spByIndex pol" "\<And>cs. spCount pol cs \<Longrightarrow> \<not> spIgnore pol cs \<Longrightarrow> csFlag cs = BlockIDFlagCommit"
    and "collect vals' pol 0 (cmSignatures commit) [] 0 = Ok (ps, t)" "all_signed env chainID commit ps"
  shows "t \<le> power_at vals (signers env chainID vals commit)"
proof -
  let ?S = "signers env chainID vals commit" and ?vs = "vsValidators vals"
  have "nat i \<in> ?S" if "(i, cs, v) \<in> set ps" "spCount pol cs" for i cs v
  proof -
    note mem = that(1)
    obtain j where j: "j < length (cmSignatures commit)" "i = int j" "cs = cmSignatures commit ! j" "v = ?vs ! j" "\<not> spIgnore pol cs"
      using collect_members [OF assms(4) _ _ mem, of 0 "cmSignatures commit" vals' "[]" 0 t] assms(2,3,6) by auto
    have "signed_by env chainID commit i cs v" using assms(7) that(1) by (auto simp: list_all_iff)
    then show ?thesis using j assms(5) that(2) by (simp add: signers_def)
  qed
  moreover have "finite ?S" by (simp add: signers_def)
  ultimately have "t \<le> power_at vals' (?S \<inter> {0..<length (vsValidators vals')})"
    using collect_tally [OF assms(4), of vals' ?S 0 "cmSignatures commit" 0 "[]" ps t] assms(1,2,3,6)
    by (auto simp: valid_set_def valid_vals_def)
  also have "?S \<inter> {0..<length (vsValidators vals')} = ?S" using assms(2,3) by (auto simp: signers_def)
  finally show ?thesis using assms(2) by (simp add: power_at_def)
qed

lemma needed_two_thirds:
  assumes "valid_set vals" "quot (wrap64 (total_power (vsValidators vals) * 2)) 3 < p"
  shows "2 * total_power (vsValidators vals) < 3 * p"
proof -
  let ?T = "total_power (vsValidators vals)"
  have T: "0 \<le> ?T" "?T \<le> 1152921504606846975"
    using assms(1) total_power_nonneg by (auto simp: valid_set_def valid_vals_def)
  then have "wrap64 (?T * 2) = ?T * 2" by (intro wrap64_idI) simp_all
  then show ?thesis using assms(2) T by (simp add: quot_nonneg)
qed

text \<open>What an accepted commit shows, for the two entry points that need two thirds of the power.\<close>

lemma verified_two_thirds:
  assumes "valid_set vals" "batch_exact env" "int (length (vsValidators vals)) < 2147483648"
    and "length (cmSignatures commit) = length (vsValidators vals)"
    and "verify_with env chainID (vals\<lparr>vsTotal := T\<rparr>) commit pol = Ok ()" "spByIndex pol"
    and "spNeeded pol = quot (wrap64 (total_power (vsValidators vals) * 2)) 3"
    and "\<And>cs. spCount pol cs \<Longrightarrow> \<not> spIgnore pol cs \<Longrightarrow> csFlag cs = BlockIDFlagCommit"
  shows "2 * total_power (vsValidators vals) < 3 * power_at vals (signers env chainID vals commit)"
    and "spAll pol \<Longrightarrow> j < length (cmSignatures commit) \<Longrightarrow> \<not> spIgnore pol (cmSignatures commit ! j) \<Longrightarrow>
      signed_by env chainID commit (int j) (cmSignatures commit ! j) (vsValidators vals ! j)"
proof -
  have T: "0 \<le> total_power (vsValidators vals)" "total_power (vsValidators vals) \<le> 1152921504606846975"
    using assms(1) total_power_nonneg by (auto simp: valid_set_def valid_vals_def)
  then have "wrap64 (total_power (vsValidators vals) * 2) = total_power (vsValidators vals) * 2" by (intro wrap64_idI) simp_all
  then have "0 \<le> spNeeded pol" using T assms(7) by (simp add: quot_nonneg)
  then obtain vals' ps t where c: "vsValidators vals' = vsValidators vals" "collect vals' pol 0 (cmSignatures commit) [] 0 = Ok (ps, t)"
      "t > spNeeded pol" "all_signed env chainID commit ps"
    using verify_with_collects [OF assms(5,2)] assms(3,4) by auto
  have "t \<le> power_at vals (signers env chainID vals commit)"
    using collect_signers [OF assms(1) c(1) assms(4,6) _ c(2,4)] assms(8) by blast
  then show "2 * total_power (vsValidators vals) < 3 * power_at vals (signers env chainID vals commit)"
    using c(3) assms(7) by (intro needed_two_thirds [OF assms(1)]) simp
  assume "spAll pol" "j < length (cmSignatures commit)" "\<not> spIgnore pol (cmSignatures commit ! j)"
  then have "(int j, cmSignatures commit ! j, vsValidators vals ! j) \<in> set ps"
    using collect_complete [OF assms(6), of 0 "cmSignatures commit" vals' "[]" 0 ps t j] c(1,2) assms(4) by simp
  then show "signed_by env chainID commit (int j) (cmSignatures commit ! j) (vsValidators vals ! j)"
    using c(4) by (auto simp: list_all_iff)
qed

lemma verifyBasic_Ok:
  "verifyBasicValsAndCommit vals commit h bid = Ok () \<longleftrightarrow>
   (\<exists>vs c. vals = Some vs \<and> commit = Some c \<and> length (cmSignatures c) = length (vsValidators vs) \<and> cmHeight c = h \<and> cmBlockID c = bid)"
  by (auto simp: verifyBasicValsAndCommit_def BlockID_Equals_eq ValidatorSet_Size_def split: option.splits)

text \<open>C4. A commit that VerifyCommit accepts for a block and a height is for that block and height, every signature in it that is
  not absent verifies, and the validators whose signatures for the block verify have more than two thirds of the power. Any commit
  that VerifyCommit or VerifyCommitLight accepts under the same set, for whatever block and height, has signers in common with it that
  have more than a third of the power: two conflicting commits need a third of the power to sign twice.\<close>

theorem verified_commits_intersect:
  assumes "valid_set vals" "batch_exact env" "int (length (vsValidators vals)) < 2147483648"
    and "VerifyCommit env chainID (Some vals) bid h (Some c) = Ok ()"
    and "VerifyCommit env chainID (Some vals) bid' h' (Some c') = Ok () \<or> VerifyCommitLight env chainID (Some vals) bid' h' (Some c') = Ok ()"
  shows "cmBlockID c = bid \<and> cmHeight c = h \<and>
    (\<forall>i < length (cmSignatures c). csFlag (cmSignatures c ! i) \<noteq> BlockIDFlagAbsent \<longrightarrow>
       signed_by env chainID c (int i) (cmSignatures c ! i) (vsValidators vals ! i)) \<and>
    2 * total_power (vsValidators vals) < 3 * power_at vals (signers env chainID vals c) \<and>
    total_power (vsValidators vals) < 3 * power_at vals (signers env chainID vals c \<inter> signers env chainID vals c')"
proof -
  note tvp = TotalVotingPower_eq [OF assms(1)]
  have c: "length (cmSignatures c) = length (vsValidators vals)" "cmHeight c = h" "cmBlockID c = bid"
    and vc: "\<exists>pol. verify_with env chainID (vals\<lparr>vsTotal := total_power (vsValidators vals)\<rparr>) c pol = Ok () \<and> spByIndex pol \<and> spAll pol \<and>
      spNeeded pol = quot (wrap64 (total_power (vsValidators vals) * 2)) 3 \<and>
      spIgnore pol = (\<lambda>cs. csFlag cs = BlockIDFlagAbsent) \<and> spCount pol = (\<lambda>cs. csFlag cs = BlockIDFlagCommit)"
    using assms(4) by (auto simp: VerifyCommit_def verifyBasic_Ok bindo_Ok_iff tvp)
  have c': "length (cmSignatures c') = length (vsValidators vals)"
    and vc': "\<exists>pol. verify_with env chainID (vals\<lparr>vsTotal := total_power (vsValidators vals)\<rparr>) c' pol = Ok () \<and> spByIndex pol \<and>
      spNeeded pol = quot (wrap64 (total_power (vsValidators vals) * 2)) 3 \<and>
      (\<forall>cs. spCount pol cs \<longrightarrow> \<not> spIgnore pol cs \<longrightarrow> csFlag cs = BlockIDFlagCommit)"
    using assms(5) by (auto simp: VerifyCommit_def VerifyCommitLight_def verifyCommitLightInternal_def verifyBasic_Ok bindo_Ok_iff tvp)
  obtain pol where pol: "verify_with env chainID (vals\<lparr>vsTotal := total_power (vsValidators vals)\<rparr>) c pol = Ok ()" "spByIndex pol" "spAll pol"
      "spNeeded pol = quot (wrap64 (total_power (vsValidators vals) * 2)) 3" "spIgnore pol = (\<lambda>cs. csFlag cs = BlockIDFlagAbsent)"
      "spCount pol = (\<lambda>cs. csFlag cs = BlockIDFlagCommit)"
    using vc by blast
  note verified = verified_two_thirds [OF assms(1-3) c(1) pol(1,2,4)]
  have q: "2 * total_power (vsValidators vals) < 3 * power_at vals (signers env chainID vals c)"
    using verified(1) pol(6) by simp
  have s: "\<forall>i < length (cmSignatures c). csFlag (cmSignatures c ! i) \<noteq> BlockIDFlagAbsent \<longrightarrow>
       signed_by env chainID c (int i) (cmSignatures c ! i) (vsValidators vals ! i)"
    using verified(2) pol(3,5,6) by simp
  have q': "2 * total_power (vsValidators vals) < 3 * power_at vals (signers env chainID vals c')"
    using vc' verified_two_thirds(1) [OF assms(1-3) c'] by blast
  have "signers env chainID vals c \<subseteq> positions vals" "signers env chainID vals c' \<subseteq> positions vals"
    using c(1) c' by (auto simp: signers_def positions_def)
  then have "total_power (vsValidators vals) < 3 * power_at vals (signers env chainID vals c \<inter> signers env chainID vals c')"
    using voting.quorums_meet [OF assms(1)] q q' by (simp add: power_at_positions)
  then show ?thesis using c q s by blast
qed

section \<open>Two validators\<close>

text \<open>
  A set of two validators and the commits both sign, under the toy primitives and an encoder that keeps the hash of the block.
\<close>

definition toy_crypto :: crypto_env where
  "toy_crypto = key_prims.extend toy_prims (crypto_env.fields
     (\<lambda>v. Ok (case cvBlockID v of None \<Rightarrow> [] | Some b \<Rightarrow> take 20 (bidHash b))) (\<lambda>e. Ok (cxExtension e)))"

lemma batch_exact_toy_crypto: "batch_exact toy_crypto"
  using batch_exact_toy by (simp add: batch_exact_def toy_crypto_def key_prims.defs crypto_env.defs toy_prims_def)

definition two_vals :: ValidatorSet where
  "two_vals = \<lparr>vsValidators = [\<lparr>vaAddress = replicate 20 1, vaPubKey = Some (Ed25519 (replicate 32 1)), vaPower = 7, vaPriority = 0\<rparr>,
                              \<lparr>vaAddress = replicate 20 2, vaPubKey = Some (Ed25519 (replicate 32 2)), vaPower = 3, vaPriority = 0\<rparr>],
     vsProposer = NoProposer, vsTotal = 10, vsSameType = True\<rparr>"

definition two_sig :: "8 word \<Rightarrow> 8 word \<Rightarrow> CommitSig" where
  "two_sig h k = \<lparr>csFlag = BlockIDFlagCommit, csValAddr = replicate 20 k, csTimestamp = zero_time,
     csSignature = replicate 20 h @ replicate 32 k @ replicate 12 0\<rparr>"

definition two_block :: "8 word \<Rightarrow> BlockID" where
  "two_block h = \<lparr>bidHash = replicate 32 h, bidPSH = \<lparr>phTotal = 1, phHash = replicate 32 9\<rparr>\<rparr>"

definition two_commit :: "8 word \<Rightarrow> Commit" where
  "two_commit h = \<lparr>cmHeight = 1, cmRound = 0, cmBlockID = two_block h, cmSignatures = [two_sig h 1, two_sig h 2], cmHash = None\<rparr>"

definition two_policy :: sig_policy where
  "two_policy = \<lparr>spNeeded = 6, spIgnore = (\<lambda>c. csFlag c \<noteq> BlockIDFlagCommit), spCount = (\<lambda>_. True), spAll = False, spByIndex = False\<rparr>"

lemma two_vals_valid: "valid_set two_vals" "ed_keys two_vals" "int (length (vsValidators two_vals)) < 2147483648"
  by (simp_all add: two_vals_def valid_set_def valid_vals_def total_power_def in64_def ed_keys_def key_sizes)

lemma two_commits_verified:
  "VerifyCommit toy_crypto ''c'' (Some two_vals) (two_block 7) 1 (Some (two_commit 7)) = Ok ()"
  "VerifyCommitLight toy_crypto ''c'' (Some two_vals) (two_block 8) 1 (Some (two_commit 8)) = Ok ()"
  by code_simp+

theorem verified_commits_intersect_witness:
  "total_power (vsValidators two_vals) <
     3 * power_at two_vals (signers toy_crypto ''c'' two_vals (two_commit 7) \<inter> signers toy_crypto ''c'' two_vals (two_commit 8))"
  using verified_commits_intersect [OF two_vals_valid(1) batch_exact_toy_crypto two_vals_valid(3) two_commits_verified(1)] two_commits_verified(2)
  by blast

text \<open>
  Two boundaries. The batch routine does not validate the signatures themselves: with an address of the wrong size it accepts
  what the single routine refuses. And the denominator of a trust level is converted to a signed integer: from \<open>2 ^ 63\<close> on the power
  needed is negative and a commit nobody signed is accepted.
\<close>

lemma batch_skips_validation:
  "verifyCommitBatch toy_crypto ''c'' two_vals (two_commit 7\<lparr>cmSignatures := [(two_sig 7 1)\<lparr>csValAddr := []\<rparr>, two_sig 7 2]\<rparr>)
     (two_policy\<lparr>spByIndex := True\<rparr>) = Ok ()"
  "\<exists>e. verifyCommitSingle toy_crypto ''c'' two_vals (two_commit 7\<lparr>cmSignatures := [(two_sig 7 1)\<lparr>csValAddr := []\<rparr>, two_sig 7 2]\<rparr>)
     (two_policy\<lparr>spByIndex := True\<rparr>) = Err e"
  by code_simp (rule exI, code_simp)

lemma trusting_accepts_unsigned:
  "VerifyCommitLightTrusting toy_crypto ''c'' (Some two_vals) (Some (two_commit 7\<lparr>cmSignatures := []\<rparr>))
     \<lparr>frNumerator = 1, frDenominator = 18446744073709551615\<rparr> = Ok ()"
  by code_simp

text \<open>C16. Where the batch routine is used, it decides as the single one does. On a set of ed25519 keys, with at least
  zero power needed and the batch equation reporting each entry as single verification does: whatever
  the single routine accepts the batch accepts, and when every signature that is not ignored passes its own validation, as the
  contract of the routines asks, the two accept the same commits, whatever the policy: by index or by address, with or without the
  early exit.\<close>

theorem batch_equals_single:
  assumes "shouldBatchVerify vals0 commit = Ok (vals, True)" "batch_exact env" "ed_keys vals" "0 \<le> spNeeded pol"
    and "int (length (cmSignatures commit)) < 2147483648" "int (length (vsValidators vals)) < 2147483648"
  shows "(verifyCommitSingle env chainID vals commit pol = Ok () \<longrightarrow> verifyCommitBatch env chainID vals commit pol = Ok ()) \<and>
    (list_all (\<lambda>cs. spIgnore pol cs \<or> CommitSig_ValidateBasic cs = Ok ()) (cmSignatures commit) \<longrightarrow>
       (verifyCommitBatch env chainID vals commit pol = Ok () \<longleftrightarrow> verifyCommitSingle env chainID vals commit pol = Ok ()))"
proof -
  have sb: "verifyCommitBatch env chainID vals commit pol = Ok ()" if single: "verifyCommitSingle env chainID vals commit pol = Ok ()"
  proof -
    obtain ps t where ps: "collect vals pol 0 (cmSignatures commit) [] 0 = Ok (ps, t)" "t > spNeeded pol" "all_signed env chainID commit ps"
      using single_loop_collects [of vals 0 "cmSignatures commit" env chainID commit pol "[]" 0] single assms(5,6) by (auto simp: verifyCommitSingle_def)
    then obtain bv idxs where "batch_loop env chainID vals commit pol 0 (cmSignatures commit) [] [] [] 0 = Ok (bv, idxs, t)"
      using collects_batch_loop [OF _ _ assms(3) ps(1,3), of "[]" "[]"] assms(5) by auto
    then show ?thesis using batch_decides [OF assms(1,2,4,5)] ps by blast
  qed
  have "verifyCommitSingle env chainID vals commit pol = Ok ()"
    if "verifyCommitBatch env chainID vals commit pol = Ok ()"
      "list_all (\<lambda>cs. spIgnore pol cs \<or> CommitSig_ValidateBasic cs = Ok ()) (cmSignatures commit)"
    using verifyCommitBatch_collects [OF assms(1,2,4,5) that(1)] collects_single_loop [OF assms(6), of 0 "cmSignatures commit"] that(2) assms(5)
    by (auto simp: verifyCommitSingle_def)
  then show ?thesis using sb by blast
qed

theorem batch_equals_single_witness:
  "verifyCommitSingle toy_crypto ''c'' two_vals (two_commit 7) two_policy = Ok () \<and>
   verifyCommitBatch toy_crypto ''c'' (two_vals\<lparr>vsProposer := InSet (replicate 20 1)\<rparr>) (two_commit 7) two_policy = Ok ()"
proof -
  let ?vals = "two_vals\<lparr>vsProposer := InSet (replicate 20 1)\<rparr>"
  have "shouldBatchVerify two_vals (two_commit 7) = Ok (?vals, True)" by code_simp
  moreover have "ed_keys ?vals" "int (length (vsValidators ?vals)) < 2147483648"
    using two_vals_valid by (simp_all add: ed_keys_def)
  moreover have "verifyCommitSingle toy_crypto ''c'' ?vals (two_commit 7) two_policy = Ok ()" by code_simp
  moreover have "verifyCommitSingle toy_crypto ''c'' two_vals (two_commit 7) two_policy = Ok ()" by code_simp
  ultimately show ?thesis
    using batch_equals_single [OF _ batch_exact_toy_crypto, of two_vals "two_commit 7" ?vals two_policy "''c''"]
    by (simp add: two_policy_def two_commit_def)
qed

end
