(* ===== verification/Consensus_Msgs.thy ===== *)
theory Consensus_Msgs
  imports Commits Safe_Math
begin

text \<open>
  The messages of the consensus reactor (\<^verbatim>\<open>internal/consensus/reactor.go\<close>), their conversion
  to and from the generated protobuf types (\<^verbatim>\<open>internal/consensus/msgs.go\<close>), the entries of
  the write-ahead log, the messages of state sync (\<^verbatim>\<open>statesync/messages.go\<close>) and the wrappers
  of both (\<^verbatim>\<open>api/cometbft/*/v1/message.go\<close>). A pointer is an option. A generated struct with the
  fields of the domain struct is represented by the same record; where they differ (the width of a
  step, a pointer that is a value on the wire) it has its own. The lemmas on these
  definitions are in the theory of the wire.
\<close>

section \<open>Steps of the consensus state machine\<close>

type_synonym RoundStepType = byte

definition RoundStepNewHeight :: RoundStepType where "RoundStepNewHeight = 1"
definition RoundStepNewRound :: RoundStepType where "RoundStepNewRound = 2"
definition RoundStepPropose :: RoundStepType where "RoundStepPropose = 3"
definition RoundStepPrevote :: RoundStepType where "RoundStepPrevote = 4"
definition RoundStepPrevoteWait :: RoundStepType where "RoundStepPrevoteWait = 5"
definition RoundStepPrecommit :: RoundStepType where "RoundStepPrecommit = 6"
definition RoundStepPrecommitWait :: RoundStepType where "RoundStepPrecommitWait = 7"
definition RoundStepCommit :: RoundStepType where "RoundStepCommit = 8"

lemmas round_steps = RoundStepNewHeight_def RoundStepNewRound_def RoundStepPropose_def RoundStepPrevote_def
  RoundStepPrevoteWait_def RoundStepPrecommit_def RoundStepPrecommitWait_def RoundStepCommit_def

definition RoundStepType_IsValid :: "RoundStepType \<Rightarrow> bool" where
  "RoundStepType_IsValid rs \<longleftrightarrow> 1 \<le> rs \<and> rs \<le> 8"

definition RoundStepType_String :: "RoundStepType \<Rightarrow> string" where
  "RoundStepType_String rs =
     (if rs = RoundStepNewHeight then ''RoundStepNewHeight''
      else if rs = RoundStepNewRound then ''RoundStepNewRound''
      else if rs = RoundStepPropose then ''RoundStepPropose''
      else if rs = RoundStepPrevote then ''RoundStepPrevote''
      else if rs = RoundStepPrevoteWait then ''RoundStepPrevoteWait''
      else if rs = RoundStepPrecommit then ''RoundStepPrecommit''
      else if rs = RoundStepPrecommitWait then ''RoundStepPrecommitWait''
      else if rs = RoundStepCommit then ''RoundStepCommit''
      else ''RoundStepUnknown'')"

section \<open>Messages\<close>

definition MaxVotesCount :: int where "MaxVotesCount = 10000"

record NewRoundStepMessage =
  nrsHeight :: int
  nrsRound :: int
  nrsStep :: RoundStepType
  nrsSeconds :: int
  nrsLastCommitRound :: int

record NewValidBlockMessage =
  nvbHeight :: int
  nvbRound :: int
  nvbPSH :: PartSetHeader
  nvbParts :: "bit_array option"
  nvbIsCommit :: bool

record ProposalPOLMessage =
  polHeight :: int
  polRound :: int
  polBits :: "bit_array option"

record BlockPartMessage =
  bpHeight :: int
  bpRound :: int
  bpPart :: "Part option"

record HasVoteMessage =
  hvHeight :: int
  hvRound :: int
  hvType :: SignedMsgType
  hvIndex :: int

record VoteSetMaj23Message =
  vsmHeight :: int
  vsmRound :: int
  vsmType :: SignedMsgType
  vsmBlockID :: BlockID

record VoteSetBitsMessage =
  vsbHeight :: int
  vsbRound :: int
  vsbType :: SignedMsgType
  vsbBlockID :: BlockID
  vsbVotes :: "bit_array option"

record HasProposalBlockPartMessage =
  hpbHeight :: int
  hpbRound :: int
  hpbIndex :: int

text \<open>The \<^verbatim>\<open>Message\<close> interface by its implementations.\<close>

datatype cons_msg =
    NewRoundStepMsg NewRoundStepMessage
  | NewValidBlockMsg NewValidBlockMessage
  | ProposalMsg "Proposal option"
  | ProposalPOLMsg ProposalPOLMessage
  | BlockPartMsg BlockPartMessage
  | VoteMsg "Vote option"
  | HasVoteMsg HasVoteMessage
  | HasProposalBlockPartMsg HasProposalBlockPartMessage
  | VoteSetMaj23Msg VoteSetMaj23Message
  | VoteSetBitsMsg VoteSetBitsMessage

definition ErrNegativeField :: "string \<Rightarrow> err" where
  "ErrNegativeField f = ErrNew (f @ '' can't be negative'')"
definition ErrRequiredField :: "string \<Rightarrow> err" where
  "ErrRequiredField f = ErrNew (f @ '' is required'')"
definition ErrInvalidField :: "string \<Rightarrow> string \<Rightarrow> err" where
  "ErrInvalidField f reason = ErrNew (''invalid field '' @ f @ '' '' @ reason)"
definition ErrWrongField :: "string \<Rightarrow> err \<Rightarrow> err" where
  "ErrWrongField f e = ErrWrap (''wrong '' @ f) e"

definition wrong_field :: "string \<Rightarrow> 'a outcome \<Rightarrow> 'a outcome" where
  "wrong_field f r = (case r of Err e \<Rightarrow> Err (ErrWrongField f e) | x \<Rightarrow> x)"

definition NewRoundStepMessage_ValidateBasic :: "NewRoundStepMessage \<Rightarrow> unit outcome" where
  "NewRoundStepMessage_ValidateBasic m =
     (if nrsHeight m < 0 then Err (ErrNegativeField ''Height'')
      else if nrsRound m < 0 then Err (ErrNegativeField ''Round'')
      else if \<not> RoundStepType_IsValid (nrsStep m) then Err (ErrInvalidField ''Step'' [])
      else if nrsLastCommitRound m < -1 then Err (ErrInvalidField ''LastCommitRound'' ''cannot be < -1'')
      else Ok ())"

definition NewRoundStepMessage_ValidateHeight :: "NewRoundStepMessage \<Rightarrow> int \<Rightarrow> unit outcome" where
  "NewRoundStepMessage_ValidateHeight m initialHeight =
     (if nrsHeight m < initialHeight
        then Err (ErrFmt ''Height should be lower than initial height'' [nrsHeight m, initialHeight])
      else if nrsHeight m = initialHeight \<and> nrsLastCommitRound m \<noteq> -1
        then Err (ErrFmt ''LastCommitRound must be -1 for initial height'' [nrsLastCommitRound m, initialHeight])
      else if nrsHeight m > initialHeight \<and> nrsLastCommitRound m < 0
        then Err (ErrFmt ''LastCommitRound can only be negative for initial height'' [initialHeight])
      else Ok ())"

definition NewValidBlockMessage_ValidateBasic :: "NewValidBlockMessage \<Rightarrow> unit outcome" where
  "NewValidBlockMessage_ValidateBasic m =
     (if nvbHeight m < 0 then Err (ErrNegativeField ''Height'')
      else if nvbRound m < 0 then Err (ErrNegativeField ''Round'')
      else bindo (wrong_field ''BlockPartSetHeader'' (PartSetHeader_ValidateBasic (nvbPSH m))) (\<lambda>_.
        if BitArray_Size (nvbParts m) = 0 then Err (ErrRequiredField ''blockParts'')
        else if BitArray_Size (nvbParts m) \<noteq> uint (phTotal (nvbPSH m))
          then Err (ErrFmt ''blockParts bit array size not equal to BlockPartSetHeader.Total''
                      [BitArray_Size (nvbParts m), uint (phTotal (nvbPSH m))])
        else if BitArray_Size (nvbParts m) > MaxBlockPartsCount
          then Err (ErrFmt ''blockParts bit array is too big'' [BitArray_Size (nvbParts m), MaxBlockPartsCount])
        else Ok ()))"

text \<open>Reading a nil pointer panics.\<close>

definition deref :: "'a option \<Rightarrow> 'a outcome" where
  "deref p = (case p of None \<Rightarrow> Panic nil_deref | Some x \<Rightarrow> Ok x)"

definition ProposalMessage_ValidateBasic :: "Proposal option \<Rightarrow> unit outcome" where
  "ProposalMessage_ValidateBasic m = bindo (deref m) Proposal_ValidateBasic"

definition ProposalPOLMessage_ValidateBasic :: "ProposalPOLMessage \<Rightarrow> unit outcome" where
  "ProposalPOLMessage_ValidateBasic m =
     (if polHeight m < 0 then Err (ErrNegativeField ''Height'')
      else if polRound m < 0 then Err (ErrNegativeField ''ProposalPOLRound'')
      else if BitArray_Size (polBits m) = 0 then Err (ErrRequiredField ''ProposalPOL'')
      else if BitArray_Size (polBits m) > MaxVotesCount
        then Err (ErrFmt ''proposalPOL bit array is too big'' [BitArray_Size (polBits m), MaxVotesCount])
      else Ok ())"

definition BlockPartMessage_ValidateBasic :: "BlockPartMessage \<Rightarrow> unit outcome" where
  "BlockPartMessage_ValidateBasic m =
     (if bpHeight m < 0 then Err (ErrNegativeField ''Height'')
      else if bpRound m < 0 then Err (ErrNegativeField ''Round'')
      else wrong_field ''Part'' (bindo (deref (bpPart m)) Part_ValidateBasic))"

definition VoteMessage_ValidateBasic :: "Vote option \<Rightarrow> unit outcome" where
  "VoteMessage_ValidateBasic m = bindo (deref m) Vote_ValidateBasic"

definition HasVoteMessage_ValidateBasic :: "HasVoteMessage \<Rightarrow> unit outcome" where
  "HasVoteMessage_ValidateBasic m =
     (if hvHeight m < 0 then Err (ErrNegativeField ''Height'')
      else if hvRound m < 0 then Err (ErrNegativeField ''Round'')
      else if \<not> IsVoteTypeValid (hvType m) then Err (ErrInvalidField ''Type'' [])
      else if hvIndex m < 0 then Err (ErrNegativeField ''Index'')
      else Ok ())"

definition VoteSetMaj23Message_ValidateBasic :: "VoteSetMaj23Message \<Rightarrow> unit outcome" where
  "VoteSetMaj23Message_ValidateBasic m =
     (if vsmHeight m < 0 then Err (ErrNegativeField ''Height'')
      else if vsmRound m < 0 then Err (ErrNegativeField ''Round'')
      else if \<not> IsVoteTypeValid (vsmType m) then Err (ErrInvalidField ''Type'' [])
      else wrong_field ''BlockID'' (BlockID_ValidateBasic (vsmBlockID m)))"

definition VoteSetBitsMessage_ValidateBasic :: "VoteSetBitsMessage \<Rightarrow> unit outcome" where
  "VoteSetBitsMessage_ValidateBasic m =
     (if vsbHeight m < 0 then Err (ErrNegativeField ''Height'')
      else if \<not> IsVoteTypeValid (vsbType m) then Err (ErrInvalidField ''Type'' [])
      else bindo (wrong_field ''BlockID'' (BlockID_ValidateBasic (vsbBlockID m))) (\<lambda>_.
        if BitArray_Size (vsbVotes m) > MaxVotesCount
          then Err (ErrFmt ''votes bit array is too big'' [BitArray_Size (vsbVotes m), MaxVotesCount])
        else Ok ()))"

definition HasProposalBlockPartMessage_ValidateBasic :: "HasProposalBlockPartMessage \<Rightarrow> unit outcome" where
  "HasProposalBlockPartMessage_ValidateBasic m =
     (if hpbHeight m < 1 then Err (ErrInvalidField ''Height'' ''( < 1 )'')
      else if hpbRound m < 0 then Err (ErrNegativeField ''Round'')
      else if hpbIndex m < 0 then Err (ErrNegativeField ''Index'')
      else Ok ())"

fun Message_ValidateBasic :: "cons_msg \<Rightarrow> unit outcome" where
  "Message_ValidateBasic (NewRoundStepMsg m) = NewRoundStepMessage_ValidateBasic m"
| "Message_ValidateBasic (NewValidBlockMsg m) = NewValidBlockMessage_ValidateBasic m"
| "Message_ValidateBasic (ProposalMsg m) = ProposalMessage_ValidateBasic m"
| "Message_ValidateBasic (ProposalPOLMsg m) = ProposalPOLMessage_ValidateBasic m"
| "Message_ValidateBasic (BlockPartMsg m) = BlockPartMessage_ValidateBasic m"
| "Message_ValidateBasic (VoteMsg m) = VoteMessage_ValidateBasic m"
| "Message_ValidateBasic (HasVoteMsg m) = HasVoteMessage_ValidateBasic m"
| "Message_ValidateBasic (HasProposalBlockPartMsg m) = HasProposalBlockPartMessage_ValidateBasic m"
| "Message_ValidateBasic (VoteSetMaj23Msg m) = VoteSetMaj23Message_ValidateBasic m"
| "Message_ValidateBasic (VoteSetBitsMsg m) = VoteSetBitsMessage_ValidateBasic m"

section \<open>The wire\<close>

record NewRoundStepProto =
  pnrHeight :: int
  pnrRound :: int
  pnrStep :: "32 word"
  pnrSeconds :: int
  pnrLastCommitRound :: int

record ProposalPOLProto =
  ppoHeight :: int
  ppoRound :: int
  ppoBits :: bit_array

record BlockPartProto =
  pbpHeight :: int
  pbpRound :: int
  pbpPart :: Part

record VoteSetBitsProto =
  pvbHeight :: int
  pvbRound :: int
  pvbType :: SignedMsgType
  pvbBlockID :: BlockID
  pvbVotes :: bit_array

datatype cons_pb =
    PNewRoundStep NewRoundStepProto
  | PNewValidBlock NewValidBlockMessage
  | PProposal Proposal
  | PProposalPOL ProposalPOLProto
  | PBlockPart BlockPartProto
  | PVote "Vote option"
  | PHasVote HasVoteMessage
  | PHasProposalBlockPart HasProposalBlockPartMessage
  | PVoteSetMaj23 VoteSetMaj23Message
  | PVoteSetBits VoteSetBitsProto

text \<open>The wrapper \<^verbatim>\<open>Message\<close> is its \<^verbatim>\<open>Sum\<close>, which may be nil.\<close>

type_synonym cons_wrapped = "cons_pb option"

definition cons_Wrap :: "cons_pb \<Rightarrow> cons_wrapped" where
  "cons_Wrap m = Some m"

definition cons_Unwrap :: "cons_wrapped \<Rightarrow> cons_pb outcome" where
  "cons_Unwrap m = (case m of Some pb \<Rightarrow> Ok pb | None \<Rightarrow> Err (ErrNew ''unknown message''))"

definition ErrNilMessage :: err where "ErrNilMessage = ErrNew ''message is nil''"
definition ErrDenyMessageOverflow :: "err \<Rightarrow> err" where
  "ErrDenyMessageOverflow e = ErrWrap ''denying message due to possible overflow'' e"
definition ErrMsgToProto :: "string \<Rightarrow> err \<Rightarrow> err" where
  "ErrMsgToProto name e = ErrWrap (name @ '' to proto error'') e"
definition ErrMsgFromProto :: "string \<Rightarrow> err \<Rightarrow> err" where
  "ErrMsgFromProto name e = ErrWrap (name @ '' msg from proto error'') e"

definition on_err :: "(err \<Rightarrow> err) \<Rightarrow> 'a outcome \<Rightarrow> 'a outcome" where
  "on_err f r = (case r of Err e \<Rightarrow> Err (f e) | x \<Rightarrow> x)"

definition empty_bits :: bit_array where "empty_bits = \<lparr>Bits = 0, Elems = []\<rparr>"

fun msg_to_pb :: "cons_msg \<Rightarrow> cons_pb outcome" where
  "msg_to_pb (NewRoundStepMsg m) =
     Ok (PNewRoundStep \<lparr>pnrHeight = nrsHeight m, pnrRound = nrsRound m, pnrStep = ucast (nrsStep m),
           pnrSeconds = nrsSeconds m, pnrLastCommitRound = nrsLastCommitRound m\<rparr>)"
| "msg_to_pb (NewValidBlockMsg m) =
     Ok (PNewValidBlock \<lparr>nvbHeight = nvbHeight m, nvbRound = nvbRound m,
           nvbPSH = PartSetHeader_ToProto (Some (nvbPSH m)), nvbParts = BitArray_ToProto (nvbParts m),
           nvbIsCommit = nvbIsCommit m\<rparr>)"
| "msg_to_pb (ProposalMsg p) = Ok (PProposal (Proposal_ToProto p))"
| "msg_to_pb (ProposalPOLMsg m) =
     bindo (deref (BitArray_ToProto (polBits m))) (\<lambda>pbBits.
     Ok (PProposalPOL \<lparr>ppoHeight = polHeight m, ppoRound = polRound m, ppoBits = pbBits\<rparr>))"
| "msg_to_pb (BlockPartMsg m) =
     bindo (on_err (ErrMsgToProto ''Part'') (Part_ToProto (bpPart m))) (\<lambda>part.
     Ok (PBlockPart \<lparr>pbpHeight = bpHeight m, pbpRound = bpRound m, pbpPart = part\<rparr>))"
| "msg_to_pb (VoteMsg v) = Ok (PVote (Vote_ToProto v))"
| "msg_to_pb (HasVoteMsg m) = Ok (PHasVote m)"
| "msg_to_pb (HasProposalBlockPartMsg m) = Ok (PHasProposalBlockPart m)"
| "msg_to_pb (VoteSetMaj23Msg m) =
     Ok (PVoteSetMaj23 \<lparr>vsmHeight = vsmHeight m, vsmRound = vsmRound m, vsmType = vsmType m,
           vsmBlockID = BlockID_ToProto (Some (vsmBlockID m))\<rparr>)"
| "msg_to_pb (VoteSetBitsMsg m) =
     Ok (PVoteSetBits \<lparr>pvbHeight = vsbHeight m, pvbRound = vsbRound m, pvbType = vsbType m,
           pvbBlockID = BlockID_ToProto (Some (vsbBlockID m)),
           pvbVotes = (case BitArray_ToProto (vsbVotes m) of Some b \<Rightarrow> b | None \<Rightarrow> empty_bits)\<rparr>)"

definition MsgToWrappedProto :: "cons_msg option \<Rightarrow> cons_wrapped outcome" where
  "MsgToWrappedProto msg =
     (case msg of None \<Rightarrow> Err ErrNilMessage
      | Some m \<Rightarrow> bindo (msg_to_pb m) (\<lambda>pb. Ok (cons_Wrap pb)))"

fun msg_of_pb :: "cons_pb \<Rightarrow> cons_msg outcome" where
  "msg_of_pb (PNewRoundStep m) =
     bindo (on_err ErrDenyMessageOverflow (SafeConvertUint8 (uint (pnrStep m)))) (\<lambda>rs.
     Ok (NewRoundStepMsg \<lparr>nrsHeight = pnrHeight m, nrsRound = pnrRound m, nrsStep = rs,
           nrsSeconds = pnrSeconds m, nrsLastCommitRound = pnrLastCommitRound m\<rparr>))"
| "msg_of_pb (PNewValidBlock m) =
     bindo (on_err (ErrMsgToProto ''BlockPartSetHeader'') (PartSetHeaderFromProto (Some (nvbPSH m)))) (\<lambda>psh.
     Ok (NewValidBlockMsg \<lparr>nvbHeight = nvbHeight m, nvbRound = nvbRound m, nvbPSH = psh,
           nvbParts = Some (BitArray_FromProto empty_bits (nvbParts m)), nvbIsCommit = nvbIsCommit m\<rparr>))"
| "msg_of_pb (PProposal p) =
     bindo (on_err (ErrMsgToProto ''Proposal'') (ProposalFromProto (Some p))) (\<lambda>q. Ok (ProposalMsg (Some q)))"
| "msg_of_pb (PProposalPOL m) =
     Ok (ProposalPOLMsg \<lparr>polHeight = ppoHeight m, polRound = ppoRound m,
           polBits = Some (BitArray_FromProto empty_bits (Some (ppoBits m)))\<rparr>)"
| "msg_of_pb (PBlockPart m) =
     bindo (on_err (ErrMsgToProto ''Part'') (PartFromProto (Some (pbpPart m)))) (\<lambda>part.
     Ok (BlockPartMsg \<lparr>bpHeight = pbpHeight m, bpRound = pbpRound m, bpPart = Some part\<rparr>))"
| "msg_of_pb (PVote v) =
     bindo (on_err (ErrMsgToProto ''Vote'') (VoteFromProto v)) (\<lambda>vote. Ok (VoteMsg (Some vote)))"
| "msg_of_pb (PHasVote m) = Ok (HasVoteMsg m)"
| "msg_of_pb (PHasProposalBlockPart m) = Ok (HasProposalBlockPartMsg m)"
| "msg_of_pb (PVoteSetMaj23 m) =
     bindo (on_err (ErrMsgToProto ''VoteSetMaj23'') (BlockIDFromProto (Some (vsmBlockID m)))) (\<lambda>bi.
     Ok (VoteSetMaj23Msg \<lparr>vsmHeight = vsmHeight m, vsmRound = vsmRound m, vsmType = vsmType m, vsmBlockID = bi\<rparr>))"
| "msg_of_pb (PVoteSetBits m) =
     bindo (on_err (ErrMsgToProto ''VoteSetBits'') (BlockIDFromProto (Some (pvbBlockID m)))) (\<lambda>bi.
     Ok (VoteSetBitsMsg \<lparr>vsbHeight = pvbHeight m, vsbRound = pvbRound m, vsbType = pvbType m, vsbBlockID = bi,
           vsbVotes = Some (BitArray_FromProto empty_bits (Some (pvbVotes m)))\<rparr>))"

definition MsgFromProto :: "cons_pb option \<Rightarrow> cons_msg outcome" where
  "MsgFromProto p =
     (case p of None \<Rightarrow> Err ErrNilMessage
      | Some m \<Rightarrow> bindo (msg_of_pb m) (\<lambda>pb. bindo (Message_ValidateBasic pb) (\<lambda>_. Ok pb)))"

section \<open>The write-ahead log\<close>

record EventDataRoundState =
  edHeight :: int
  edRound :: int
  edStep :: string

record msgInfo =
  miMsg :: "cons_msg option"
  miPeerID :: string
  miReceiveTime :: gotime

record timeoutInfo =
  tiDuration :: int
  tiHeight :: int
  tiRound :: int
  tiStep :: RoundStepType

datatype WALMessage =
    WALRoundState EventDataRoundState
  | WALMsgInfo msgInfo
  | WALTimeout timeoutInfo
  | WALEndHeight int

record MsgInfoProto =
  pmiMsg :: cons_wrapped
  pmiPeerID :: string
  pmiReceiveTime :: "gotime option"

record TimeoutInfoProto =
  ptiDuration :: int
  ptiHeight :: int
  ptiRound :: int
  ptiStep :: "32 word"

datatype wal_pb =
    PWALRoundState EventDataRoundState
  | PWALMsgInfo MsgInfoProto
  | PWALTimeout TimeoutInfoProto
  | PWALEndHeight int

fun WALToProto :: "WALMessage \<Rightarrow> wal_pb outcome" where
  "WALToProto (WALRoundState e) = Ok (PWALRoundState e)"
| "WALToProto (WALMsgInfo mi) =
     bindo (MsgToWrappedProto (miMsg mi)) (\<lambda>cm.
     Ok (PWALMsgInfo \<lparr>pmiMsg = cm, pmiPeerID = miPeerID mi,
           pmiReceiveTime = (if Time_IsZero (miReceiveTime mi) then None else Some (miReceiveTime mi))\<rparr>))"
| "WALToProto (WALTimeout ti) =
     Ok (PWALTimeout \<lparr>ptiDuration = tiDuration ti, ptiHeight = tiHeight ti, ptiRound = tiRound ti,
           ptiStep = ucast (tiStep ti)\<rparr>)"
| "WALToProto (WALEndHeight h) = Ok (PWALEndHeight h)"

text \<open>The argument is the message's \<^verbatim>\<open>Sum\<close>: the outer option is the pointer, the inner one the interface.\<close>

fun WALFromProto :: "wal_pb option option \<Rightarrow> WALMessage outcome" where
  "WALFromProto None = Err ErrNilMessage"
| "WALFromProto (Some None) = Err (ErrNew ''from proto: wal message not recognized'')"
| "WALFromProto (Some (Some (PWALRoundState e))) = Ok (WALRoundState e)"
| "WALFromProto (Some (Some (PWALMsgInfo mi))) =
     bindo (on_err (ErrWrap ''unwrap message'') (cons_Unwrap (pmiMsg mi))) (\<lambda>um.
     bindo (on_err (ErrMsgFromProto ''MsgInfo'') (MsgFromProto (Some um))) (\<lambda>walMsg.
     Ok (WALMsgInfo \<lparr>miMsg = Some walMsg, miPeerID = pmiPeerID mi,
           miReceiveTime = (case pmiReceiveTime mi of None \<Rightarrow> zero_time | Some t \<Rightarrow> t)\<rparr>)))"
| "WALFromProto (Some (Some (PWALTimeout ti))) =
     bindo (on_err ErrDenyMessageOverflow (SafeConvertUint8 (uint (ptiStep ti)))) (\<lambda>tis.
     Ok (WALTimeout \<lparr>tiDuration = ptiDuration ti, tiHeight = ptiHeight ti, tiRound = ptiRound ti, tiStep = tis\<rparr>))"
| "WALFromProto (Some (Some (PWALEndHeight h))) = Ok (WALEndHeight h)"

section \<open>State sync\<close>

text \<open>
  Height, format and index of a chunk, its bytes and whether it is missing; height, format, number of
  chunks, hash and metadata of a snapshot. A chunk is a slice that may be nil, which validation
  distinguishes from an empty one.
\<close>

datatype ss_pb =
    ChunkRequest "64 word" "32 word" "32 word"
  | ChunkResponse "64 word" "32 word" "32 word" "bytes option" bool
  | SnapshotsRequest
  | SnapshotsResponse "64 word" "32 word" "32 word" bytes bytes

type_synonym ss_wrapped = "ss_pb option"

definition ss_Wrap :: "ss_pb \<Rightarrow> ss_wrapped" where
  "ss_Wrap m = Some m"

definition ss_Unwrap :: "ss_wrapped \<Rightarrow> ss_pb outcome" where
  "ss_Unwrap m = (case m of Some pb \<Rightarrow> Ok pb | None \<Rightarrow> Err (ErrNew ''unknown message''))"

definition snapshotMsgSize :: int where "snapshotMsgSize = 4000000"
definition chunkMsgSize :: int where "chunkMsgSize = 16000000"

fun validateMsg :: "ss_pb option \<Rightarrow> unit outcome" where
  "validateMsg None = Err (ErrNew ''message cannot be nil'')"
| "validateMsg (Some (ChunkRequest h f i)) =
     (if h = 0 then Err (ErrNew ''height cannot be 0'') else Ok ())"
| "validateMsg (Some (ChunkResponse h f i c missing)) =
     (if h = 0 then Err (ErrNew ''height cannot be 0'')
      else if missing \<and> c \<noteq> None \<and> the c \<noteq> [] then Err (ErrNew ''missing chunk cannot have contents'')
      else if \<not> missing \<and> c = None then Err (ErrNew ''chunk cannot be nil'')
      else Ok ())"
| "validateMsg (Some SnapshotsRequest) = Ok ()"
| "validateMsg (Some (SnapshotsResponse h f n hash meta)) =
     (if h = 0 then Err (ErrNew ''height cannot be 0'')
      else if length hash = 0 then Err (ErrNew ''snapshot has no hash'')
      else if n = 0 then Err (ErrNew ''snapshot has no chunks'')
      else Ok ())"

end
