(* ===== verification/Consensus_Wire.thy ===== *)
theory Consensus_Wire
  imports Consensus_Msgs
begin

text \<open>
  What the codec of the consensus messages guarantees: validation is what decoding enforces, valid
  messages survive the wire and the write-ahead log, and exactly one encoding makes the decoder panic.
\<close>

section \<open>What decoding enforces\<close>

lemma wrong_field_Ok [simp]: "wrong_field f r = Ok x \<longleftrightarrow> r = Ok x"
  by (cases r) (simp_all add: wrong_field_def)

lemma wrong_field_Panic [simp]: "wrong_field f r = Panic s \<longleftrightarrow> r = Panic s"
  by (cases r) (simp_all add: wrong_field_def)

lemma on_err_Ok [simp]: "on_err f r = Ok x \<longleftrightarrow> r = Ok x"
  by (cases r) (simp_all add: on_err_def)

lemma on_err_Panic [simp]: "on_err f r = Panic s \<longleftrightarrow> r = Panic s"
  by (cases r) (simp_all add: on_err_def)

lemma deref_simps [simp]: "deref (Some x) = Ok x" "deref p = Ok x \<longleftrightarrow> p = Some x" "deref (Some x) \<noteq> Panic s"
  by (auto simp: deref_def split: option.splits)

lemma bindo_Panic_iff:
  "bindo r f = Panic s \<longleftrightarrow> r = Panic s \<or> (\<exists>x. r = Ok x \<and> f x = Panic s)"
  by (cases r) auto

lemma SafeConvertUint8_no_panic [simp]: "SafeConvertUint8 a \<noteq> Panic s"
  by (simp add: SafeConvertUint8_def)

lemma PartSetHeader_no_panic [simp]:
  "PartSetHeader_ValidateBasic h \<noteq> Panic s" "PartSetHeaderFromProto (Some h) \<noteq> Panic s"
  by (auto simp: PartSetHeader_ValidateBasic_def PartSetHeaderFromProto_def Let_def bindo_Panic_iff
      split: outcome.splits)

lemma Proposal_no_panic [simp]:
  "Proposal_ValidateBasic p \<noteq> Panic s" "ProposalFromProto (Some p) \<noteq> Panic s"
  by (auto simp: Proposal_ValidateBasic_def ProposalFromProto_def Let_def bindo_Panic_iff BlockIDFromProto_no_panic
      split: outcome.splits)

lemma Vote_no_panic [simp]: "Vote_ValidateBasic v \<noteq> Panic s" "VoteFromProto (Some v) \<noteq> Panic s"
  by (auto simp: Vote_ValidateBasic_def VoteFromProto_def Let_def bindo_Panic_iff BlockIDFromProto_no_panic
      split: outcome.splits)

lemma aunts_check_no_panic [simp]: "aunts_check i hs \<noteq> Panic s"
  by (induction hs arbitrary: i) auto

lemma Proof_no_panic [simp]: "Proof_ValidateBasic p \<noteq> Panic s" "ProofFromProto (Some p) \<noteq> Panic s"
  by (auto simp: Proof_ValidateBasic_def ProofFromProto_def Let_def bindo_Panic_iff)

lemma Part_no_panic [simp]: "Part_ValidateBasic p \<noteq> Panic s" "PartFromProto (Some p) \<noteq> Panic s"
  by (auto simp: Part_ValidateBasic_def PartFromProto_def Let_def bindo_Panic_iff split: outcome.splits)

fun msg_typed :: "cons_msg \<Rightarrow> bool" where
  "msg_typed (NewRoundStepMsg m) \<longleftrightarrow> 0 \<le> nrsHeight m \<and> 0 \<le> nrsRound m \<and> nrsStep m \<in> {1..8} \<and> -1 \<le> nrsLastCommitRound m"
| "msg_typed (NewValidBlockMsg m) \<longleftrightarrow> 0 \<le> nvbHeight m \<and> 0 \<le> nvbRound m \<and>
     BitArray_Size (nvbParts m) = uint (phTotal (nvbPSH m)) \<and> BitArray_Size (nvbParts m) \<in> {1..MaxBlockPartsCount}"
| "msg_typed (ProposalMsg p) \<longleftrightarrow>
     (case p of None \<Rightarrow> False
      | Some q \<Rightarrow> 0 < prHeight q \<and> -1 \<le> prPOLRound q \<and> prPOLRound q < prRound q \<and> BlockID_IsComplete (prBlockID q))"
| "msg_typed (ProposalPOLMsg m) \<longleftrightarrow> 0 \<le> polHeight m \<and> 0 \<le> polRound m \<and>
     BitArray_Size (polBits m) \<noteq> 0 \<and> BitArray_Size (polBits m) \<le> MaxVotesCount"
| "msg_typed (BlockPartMsg m) \<longleftrightarrow> 0 \<le> bpHeight m \<and> 0 \<le> bpRound m \<and>
     (case bpPart m of None \<Rightarrow> False
      | Some p \<Rightarrow> int (length (ptBytes p)) \<le> uint BlockPartSizeBytes \<and> uint (ptIndex p) = pfIndex (ptProof p))"
| "msg_typed (VoteMsg v) \<longleftrightarrow>
     (case v of None \<Rightarrow> False
      | Some x \<Rightarrow> IsVoteTypeValid (vType x) \<and> 0 < vHeight x \<and> 0 \<le> vRound x \<and> 0 \<le> vValIndex x \<and>
          (BlockID_IsNil (vBlockID x) \<or> BlockID_IsComplete (vBlockID x)))"
| "msg_typed (HasVoteMsg m) \<longleftrightarrow> 0 \<le> hvHeight m \<and> 0 \<le> hvRound m \<and> 0 \<le> hvIndex m \<and> IsVoteTypeValid (hvType m)"
| "msg_typed (HasProposalBlockPartMsg m) \<longleftrightarrow> 0 < hpbHeight m \<and> 0 \<le> hpbRound m \<and> 0 \<le> hpbIndex m"
| "msg_typed (VoteSetMaj23Msg m) \<longleftrightarrow> 0 \<le> vsmHeight m \<and> 0 \<le> vsmRound m \<and> IsVoteTypeValid (vsmType m)"
| "msg_typed (VoteSetBitsMsg m) \<longleftrightarrow> 0 \<le> vsbHeight m \<and> IsVoteTypeValid (vsbType m) \<and> BitArray_Size (vsbVotes m) \<le> MaxVotesCount"

lemma RoundStepType_IsValid_iff: "RoundStepType_IsValid s \<longleftrightarrow> s \<in> {1..8}"
  by (simp add: RoundStepType_IsValid_def)

lemma Proposal_valid:
  "Proposal_ValidateBasic q = Ok () \<Longrightarrow>
     0 < prHeight q \<and> -1 \<le> prPOLRound q \<and> prPOLRound q < prRound q \<and> BlockID_IsComplete (prBlockID q)"
  by (auto simp: Proposal_ValidateBasic_def split: if_splits outcome.splits)

lemma Vote_valid:
  "Vote_ValidateBasic x = Ok () \<Longrightarrow>
     IsVoteTypeValid (vType x) \<and> 0 < vHeight x \<and> 0 \<le> vRound x \<and> 0 \<le> vValIndex x \<and>
     (BlockID_IsNil (vBlockID x) \<or> BlockID_IsComplete (vBlockID x))"
  by (auto simp: Vote_ValidateBasic_def split: if_splits outcome.splits)

lemma Part_valid:
  "Part_ValidateBasic p = Ok () \<Longrightarrow>
     int (length (ptBytes p)) \<le> uint BlockPartSizeBytes \<and> uint (ptIndex p) = pfIndex (ptProof p)"
  by (auto simp: Part_ValidateBasic_def split: if_splits outcome.splits)

lemmas message_validate_defs = NewRoundStepMessage_ValidateBasic_def NewValidBlockMessage_ValidateBasic_def
  ProposalMessage_ValidateBasic_def ProposalPOLMessage_ValidateBasic_def BlockPartMessage_ValidateBasic_def
  VoteMessage_ValidateBasic_def HasVoteMessage_ValidateBasic_def VoteSetMaj23Message_ValidateBasic_def
  VoteSetBitsMessage_ValidateBasic_def HasProposalBlockPartMessage_ValidateBasic_def

lemma uint_pos: "uint (w :: 'a::len word) \<noteq> 0 \<Longrightarrow> 1 \<le> uint w"
  using uint_ge_0 [of w] by linarith

lemma valid_typed: "Message_ValidateBasic m = Ok () \<Longrightarrow> msg_typed m"
proof (cases m)
  case (NewValidBlockMsg x)
  then show "Message_ValidateBasic m = Ok () \<Longrightarrow> msg_typed m"
    by (auto simp: message_validate_defs bindo_Ok_iff uint_pos simp del: PartSetHeader_ValidateBasic_Ok split: if_splits)
qed (auto simp: message_validate_defs bindo_Ok_iff RoundStepType_IsValid_iff dest: Proposal_valid Vote_valid Part_valid
      split: if_splits option.splits)

lemma validate_panic:
  "Message_ValidateBasic m = Panic s \<Longrightarrow>
     m = ProposalMsg None \<or> m = VoteMsg None \<or> (\<exists>x. m = BlockPartMsg x \<and> bpPart x = None)"
  by (cases m) (auto simp: message_validate_defs bindo_Panic_iff deref_def split: if_splits option.splits)

lemma validate_no_panic: "msg_of_pb pb = Ok m \<Longrightarrow> Message_ValidateBasic m \<noteq> Panic s"
  by (cases pb) (auto simp: bindo_Ok_iff dest!: validate_panic)

lemma VoteFromProto_None [simp]: "VoteFromProto None = Panic nil_deref"
  by (simp add: VoteFromProto_def)

lemma msg_of_pb_panic: "msg_of_pb pb = Panic s \<longleftrightarrow> pb = PVote None \<and> s = nil_deref"
proof (cases pb)
  case (PVote v)
  then show ?thesis by (cases v) (auto simp: bindo_Panic_iff)
qed (auto simp: bindo_Panic_iff BlockIDFromProto_no_panic)

lemma MsgFromProto_Ok:
  "MsgFromProto p = Ok m \<longleftrightarrow> (\<exists>pb. p = Some pb \<and> msg_of_pb pb = Ok m \<and> Message_ValidateBasic m = Ok ())"
  by (auto simp: MsgFromProto_def bindo_Ok_iff split: option.splits)

lemma MsgFromProto_Panic: "MsgFromProto p = Panic s \<longleftrightarrow> p = Some (PVote None) \<and> s = nil_deref"
  by (cases p) (auto simp: MsgFromProto_def bindo_Panic_iff msg_of_pb_panic validate_no_panic)

section \<open>Round trips\<close>

text \<open>
  A bit array without elements is sent as nil, so its size is lost. A message is sendable when it is
  valid and its bit arrays have elements unless they are empty; a nil array of votes comes back empty.
\<close>

fun msg_sendable :: "cons_msg \<Rightarrow> bool" where
  "msg_sendable (NewValidBlockMsg m) \<longleftrightarrow> (case nvbParts m of None \<Rightarrow> False | Some b \<Rightarrow> Elems b \<noteq> [])"
| "msg_sendable (ProposalPOLMsg m) \<longleftrightarrow> (case polBits m of None \<Rightarrow> False | Some b \<Rightarrow> Elems b \<noteq> [])"
| "msg_sendable (VoteSetBitsMsg m) \<longleftrightarrow>
     (case vsbVotes m of None \<Rightarrow> True | Some b \<Rightarrow> Elems b = [] \<longrightarrow> Bits b = 0)"
| "msg_sendable m \<longleftrightarrow> True"

fun msg_received :: "cons_msg \<Rightarrow> cons_msg" where
  "msg_received (VoteSetBitsMsg m) =
     VoteSetBitsMsg (m\<lparr>vsbVotes := Some (case vsbVotes m of None \<Rightarrow> empty_bits | Some b \<Rightarrow> b)\<rparr>)"
| "msg_received m = m"

lemma step_roundtrip [simp]: "SafeConvertUint8 (uint (ucast s :: 32 word)) = Ok (s :: byte)"
proof -
  have "uint (ucast s :: 32 word) = uint s" by (simp add: uint_up_ucast is_up)
  moreover have "0 \<le> uint s" "uint s < 256" using uint_lt2p [of s] by simp_all
  ultimately show ?thesis by (simp add: SafeConvertUint8_def)
qed

lemma BitArray_wire [simp]: "Elems b \<noteq> [] \<Longrightarrow> BitArray_FromProto empty_bits (BitArray_ToProto (Some b)) = b"
  by (cases b) (simp add: BitArray_ToProto_def BitArray_FromProto_def empty_bits_def Let_def)

lemma BitArray_FromProto_Some [simp]: "BitArray_FromProto empty_bits (Some b) = b"
  by (cases b) (simp add: BitArray_FromProto_def empty_bits_def Let_def)

lemma empty_bits_eq: "empty_bits = b \<longleftrightarrow> Bits b = 0 \<and> Elems b = []"
  by (cases b) (auto simp: empty_bits_def)

lemma Proof_ToProto_id [simp]: "Proof_ToProto (Some p) = Some p"
  by (simp add: Proof_ToProto_def)

lemma ProofFromProto_eta: "ProofFromProto (Some p) = bindo (Proof_ValidateBasic p) (\<lambda>_. Ok p)"
  by (cases p) (simp add: ProofFromProto_def Let_def)

lemma Part_wire: "Part_ValidateBasic p = Ok () \<Longrightarrow>
    Part_ToProto (Some p) = Ok p \<and> PartFromProto (Some p) = Ok p"
  by (auto simp: Part_ToProto_def PartFromProto_def ProofFromProto_eta Let_def bindo_Ok_iff Part_ValidateBasic_def
      split: if_splits outcome.splits)

lemma Proposal_ToProto_id [simp]: "Proposal_ToProto (Some p) = p"
  by (simp add: Proposal_ToProto_def)

lemma part_message_wire:
  assumes "BlockPartMessage_ValidateBasic x = Ok ()"
  shows "\<exists>pb. msg_to_pb (BlockPartMsg x) = Ok pb \<and> msg_of_pb pb = Ok (BlockPartMsg x)"
proof -
  obtain p where "bpPart x = Some p" "Part_ValidateBasic p = Ok ()"
    using assms by (auto simp: BlockPartMessage_ValidateBasic_def bindo_Ok_iff split: if_splits)
  then show ?thesis by (cases x) (simp add: Part_wire on_err_def)
qed

lemma msg_wire:
  assumes "Message_ValidateBasic m = Ok ()" "msg_sendable m"
  shows "\<exists>pb. msg_to_pb m = Ok pb \<and> msg_of_pb pb = Ok (msg_received m)"
proof (cases m)
  case (BlockPartMsg x)
  then show ?thesis using part_message_wire assms by simp
next
  case (NewValidBlockMsg x)
  then show ?thesis using assms by (cases x) (auto simp: message_validate_defs bindo_Ok_iff PartSetHeaderFromProto_Ok split: option.splits if_splits)
next
  case (ProposalMsg x)
  then show ?thesis using assms by (auto simp: message_validate_defs bindo_Ok_iff ProposalFromProto_Ok)
next
  case (ProposalPOLMsg x)
  then show ?thesis using assms by (cases x) (auto simp: BitArray_ToProto_def split: option.splits)
next
  case (VoteMsg x)
  then show ?thesis using assms by (auto simp: message_validate_defs bindo_Ok_iff VoteFromProto_Ok Vote_ValidateBasic_BlockID)
next
  case (VoteSetMaj23Msg x)
  then show ?thesis using assms by (cases x) (auto simp: message_validate_defs bindo_Ok_iff BlockIDFromProto_Ok split: if_splits)
next
  case (VoteSetBitsMsg x)
  then show ?thesis using assms by (cases x) (auto simp: message_validate_defs bindo_Ok_iff BlockIDFromProto_Ok BitArray_ToProto_def empty_bits_eq split: if_splits option.splits)
qed (use assms in \<open>auto simp: bindo_Ok_iff\<close>)

lemma received_valid: "Message_ValidateBasic m = Ok () \<Longrightarrow> Message_ValidateBasic (msg_received m) = Ok ()"
  by (cases m) (auto simp: message_validate_defs BitArray_Size_def empty_bits_def MaxVotesCount_def bindo_Ok_iff
      split: option.splits if_splits)

lemma wire_roundtrip:
  assumes "Message_ValidateBasic m = Ok ()" "msg_sendable m"
  shows "\<exists>pb. MsgToWrappedProto (Some m) = Ok (cons_Wrap pb) \<and> MsgFromProto (Some pb) = Ok (msg_received m)"
  using msg_wire [OF assms] received_valid [OF assms(1)] by (auto simp: MsgToWrappedProto_def MsgFromProto_def)

fun wal_writable :: "WALMessage \<Rightarrow> bool" where
  "wal_writable (WALMsgInfo mi) \<longleftrightarrow>
     (case miMsg mi of None \<Rightarrow> False | Some m \<Rightarrow> Message_ValidateBasic m = Ok () \<and> msg_sendable m)"
| "wal_writable w \<longleftrightarrow> True"

fun wal_read :: "WALMessage \<Rightarrow> WALMessage" where
  "wal_read (WALMsgInfo mi) =
     WALMsgInfo (mi\<lparr>miMsg := map_option msg_received (miMsg mi),
                   miReceiveTime := (if Time_IsZero (miReceiveTime mi) then zero_time else miReceiveTime mi)\<rparr>)"
| "wal_read w = w"

lemma wal_message_roundtrip:
  assumes "Message_ValidateBasic m = Ok ()" "msg_sendable m" "miMsg mi = Some m"
  shows "bindo (WALToProto (WALMsgInfo mi)) (\<lambda>pb. WALFromProto (Some (Some pb))) = Ok (wal_read (WALMsgInfo mi))"
proof -
  obtain pb where "MsgToWrappedProto (Some m) = Ok (cons_Wrap pb)" "MsgFromProto (Some pb) = Ok (msg_received m)"
    using wire_roundtrip [OF assms(1,2)] by blast
  then show ?thesis using assms(3) by (cases mi) (simp add: cons_Wrap_def cons_Unwrap_def on_err_def)
qed

section \<open>Properties\<close>

text \<open>C29. Decoding a consensus message either fails with an error, or panics, or gives a message that
  passes its own validation and is well-typed: heights, rounds, indices and steps are in range,
  nothing that later code dereferences is nil, bit arrays are within their limits and the bit array
  of a valid block has the size its header announces. The only encoding that panics is a vote
  message without a vote.\<close>

theorem consensus_decode_typed:
  "(MsgFromProto p = Panic s \<longleftrightarrow> p = Some (PVote None) \<and> s = nil_deref) \<and>
   (MsgFromProto p = Ok m \<longrightarrow> Message_ValidateBasic m = Ok () \<and> msg_typed m)"
  using valid_typed by (auto simp: MsgFromProto_Panic MsgFromProto_Ok)

definition sample_step :: NewRoundStepMessage where
  "sample_step = \<lparr>nrsHeight = 5, nrsRound = 1, nrsStep = RoundStepPropose, nrsSeconds = -3, nrsLastCommitRound = 0\<rparr>"

definition sample_step_pb :: cons_pb where
  "sample_step_pb = PNewRoundStep \<lparr>pnrHeight = 5, pnrRound = 1, pnrStep = 3, pnrSeconds = -3, pnrLastCommitRound = 0\<rparr>"

lemma sample_step_decodes: "MsgFromProto (Some sample_step_pb) = Ok (NewRoundStepMsg sample_step)"
  by (simp add: MsgFromProto_def sample_step_pb_def sample_step_def SafeConvertUint8_def on_err_def
      NewRoundStepMessage_ValidateBasic_def RoundStepType_IsValid_def round_steps)

theorem consensus_decode_typed_witness:
  "MsgFromProto (Some (PVote None)) = Panic nil_deref \<and> msg_typed (NewRoundStepMsg sample_step)"
  using consensus_decode_typed [of "Some (PVote None)" nil_deref "NewRoundStepMsg sample_step"]
    consensus_decode_typed [of "Some sample_step_pb" nil_deref "NewRoundStepMsg sample_step"]
  by (simp add: sample_step_decodes)

text \<open>C30. Every entry that consensus writes to its write-ahead log is read back as written: round states,
  timeouts and end-of-height marks exactly, and a received message whenever it is valid and its bit
  arrays have elements, up to a nil array of votes, which comes back empty, and the representation
  of the zero time.\<close>

theorem wal_roundtrip:
  assumes "wal_writable w"
  shows "bindo (WALToProto w) (\<lambda>pb. WALFromProto (Some (Some pb))) = Ok (wal_read w)"
proof (cases w)
  case (WALMsgInfo mi)
  then obtain m where "miMsg mi = Some m" "Message_ValidateBasic m = Ok ()" "msg_sendable m"
    using assms by (auto split: option.splits)
  then show ?thesis unfolding WALMsgInfo by (intro wal_message_roundtrip)
next
  case (WALTimeout ti)
  then show ?thesis by (cases ti) (simp add: on_err_def)
qed simp_all

definition sample_entry :: WALMessage where
  "sample_entry = WALMsgInfo \<lparr>miMsg = Some (NewRoundStepMsg sample_step), miPeerID = ''peer'', miReceiveTime = zero_time\<rparr>"

theorem wal_roundtrip_witness:
  "wal_writable sample_entry \<and> bindo (WALToProto sample_entry) (\<lambda>pb. WALFromProto (Some (Some pb))) = Ok sample_entry"
proof -
  have w: "wal_writable sample_entry"
    by (simp add: sample_entry_def sample_step_def NewRoundStepMessage_ValidateBasic_def RoundStepType_IsValid_def round_steps)
  then show ?thesis using wal_roundtrip [OF w] by (simp add: sample_entry_def Time_IsZero_def zero_time_def)
qed

end
