(* ===== verification/Peer_State.thy ===== *)
theory Peer_State
  imports Consensus_Wire
begin

text \<open>
  What a node records about each peer: \<^verbatim>\<open>PeerState\<close> of
  \<^verbatim>\<open>internal/consensus/reactor.go\<close> and \<^verbatim>\<open>PeerRoundState\<close> of
  \<^verbatim>\<open>internal/consensus/types/peer_round_state.go\<close>. The state holds pointers to bit arrays that
  it shares: the commit a peer catches up on is the array of its precommits, and the last commit is
  the array of the precommits of the height before. The arrays live in an explicit store, a list
  whose positions are the addresses, so that a vote recorded through one pointer is seen through the
  other. Each method holds the mutex for its whole body and is one definition. The theory shows that
  no sequence of operations panics while the bit arrays that peers send are well-formed, that a
  validated message with a malformed array breaks this, and that a vote picked for a peer is one
  that the peer is not known to have.
\<close>

type_synonym ptr = "nat option"

record PeerRoundState =
  prsHeight :: int
  prsRound :: int
  prsStep :: RoundStepType
  prsStartTime :: gotime
  prsProposal :: bool
  prsPSH :: PartSetHeader
  prsParts :: ptr
  prsPOLRound :: int
  prsPOL :: ptr
  prsPrevotes :: ptr
  prsPrecommits :: ptr
  prsLastCommitRound :: int
  prsLastCommit :: ptr
  prsCatchupRound :: int
  prsCatchup :: ptr

record PeerState =
  psPRS :: PeerRoundState
  psVotes :: int
  psBlockParts :: int
  psMem :: "bit_array list"

definition NewPeerState :: PeerState where
  "NewPeerState =
     \<lparr>psPRS = \<lparr>prsHeight = 0, prsRound = -1, prsStep = 0, prsStartTime = zero_time, prsProposal = False,
        prsPSH = nil_PartSetHeader, prsParts = None, prsPOLRound = -1, prsPOL = None, prsPrevotes = None,
        prsPrecommits = None, prsLastCommitRound = -1, prsLastCommit = None, prsCatchupRound = -1,
        prsCatchup = None\<rparr>,
      psVotes = 0, psBlockParts = 0, psMem = []\<rparr>"

section \<open>The store\<close>

definition array_at :: "PeerState \<Rightarrow> ptr \<Rightarrow> bit_array option" where
  "array_at ps p = map_option (\<lambda>a. psMem ps ! a) p"

definition put_array :: "PeerState \<Rightarrow> ptr \<Rightarrow> bit_array option \<Rightarrow> PeerState" where
  "put_array ps p b = (case (p, b) of (Some a, Some x) \<Rightarrow> ps\<lparr>psMem := (psMem ps)[a := x]\<rparr> | _ \<Rightarrow> ps)"

definition alloc :: "PeerState \<Rightarrow> bit_array option \<Rightarrow> ptr \<times> PeerState" where
  "alloc ps b = (case b of None \<Rightarrow> (None, ps) | Some x \<Rightarrow> (Some (length (psMem ps)), ps\<lparr>psMem := psMem ps @ [x]\<rparr>))"

definition new_array :: "PeerState \<Rightarrow> int \<Rightarrow> (ptr \<times> PeerState) outcome" where
  "new_array ps n = bindo (NewBitArray n) (\<lambda>b. Ok (alloc ps b))"

definition set_bit :: "PeerState \<Rightarrow> ptr \<Rightarrow> int \<Rightarrow> PeerState outcome" where
  "set_bit ps p i = bindo (BitArray_SetIndex (array_at ps p) i True) (\<lambda>(_, b). Ok (put_array ps p b))"

section \<open>Operations\<close>

definition PeerState_GetRoundState :: "PeerState \<Rightarrow> PeerRoundState" where
  "PeerState_GetRoundState ps = psPRS ps"

definition PeerState_GetHeight :: "PeerState \<Rightarrow> int" where
  "PeerState_GetHeight ps = prsHeight (psPRS ps)"

definition PeerState_SetHasProposal :: "PeerState \<Rightarrow> Proposal \<Rightarrow> PeerState outcome" where
  "PeerState_SetHasProposal ps proposal =
     (let prs = psPRS ps in
      if prsHeight prs \<noteq> prHeight proposal \<or> prsRound prs \<noteq> prRound proposal then Ok ps
      else if prsProposal prs then Ok ps
      else if prsParts prs \<noteq> None then Ok (ps\<lparr>psPRS := prs\<lparr>prsProposal := True\<rparr>\<rparr>)
      else bindo (new_array ps (uint (phTotal (bidPSH (prBlockID proposal))))) (\<lambda>(p, ps').
        Ok (ps'\<lparr>psPRS := prs\<lparr>prsProposal := True, prsPSH := bidPSH (prBlockID proposal), prsParts := p,
              prsPOLRound := prPOLRound proposal, prsPOL := None\<rparr>\<rparr>)))"

definition PeerState_InitProposalBlockParts :: "PeerState \<Rightarrow> PartSetHeader \<Rightarrow> PeerState outcome" where
  "PeerState_InitProposalBlockParts ps psh =
     (if prsParts (psPRS ps) \<noteq> None then Ok ps
      else bindo (new_array ps (uint (phTotal psh))) (\<lambda>(p, ps').
        Ok (ps'\<lparr>psPRS := (psPRS ps)\<lparr>prsPSH := psh, prsParts := p\<rparr>\<rparr>)))"

definition PeerState_setHasProposalBlockPart :: "PeerState \<Rightarrow> int \<Rightarrow> int \<Rightarrow> int \<Rightarrow> PeerState outcome" where
  "PeerState_setHasProposalBlockPart ps height round index =
     (if prsHeight (psPRS ps) \<noteq> height \<or> prsRound (psPRS ps) \<noteq> round then Ok ps
      else set_bit ps (prsParts (psPRS ps)) index)"

definition PeerState_SetHasProposalBlockPart :: "PeerState \<Rightarrow> int \<Rightarrow> int \<Rightarrow> int \<Rightarrow> PeerState outcome" where
  "PeerState_SetHasProposalBlockPart ps height round index = PeerState_setHasProposalBlockPart ps height round index"

text \<open>
  \<open>sent\<close> is the answer of \<^verbatim>\<open>peer.Send\<close>. \<open>prs\<close> is the copy of the round state the caller took earlier.
\<close>

definition PeerState_SendPartSetHasPart ::
    "bool \<Rightarrow> PeerState \<Rightarrow> Part option \<Rightarrow> PeerRoundState \<Rightarrow> (bool \<times> PeerState) outcome" where
  "PeerState_SendPartSetHasPart sent ps part prs =
     bindo (deref part) (\<lambda>p.
     case Part_ToProto part of
        Err _ \<Rightarrow> Ok (False, ps)
      | Panic s \<Rightarrow> Panic s
      | Ok pp \<Rightarrow>
          if sent
          then bindo (PeerState_SetHasProposalBlockPart ps (prsHeight prs) (prsRound prs) (uint (ptIndex p))) (\<lambda>ps'.
               Ok (True, ps'))
          else Ok (False, ps))"

definition PeerState_getVoteBitArray :: "PeerState \<Rightarrow> int \<Rightarrow> int \<Rightarrow> SignedMsgType \<Rightarrow> ptr" where
  "PeerState_getVoteBitArray ps height round votesType =
     (let prs = psPRS ps in
      if \<not> IsVoteTypeValid votesType then None
      else if prsHeight prs = height then
        (if prsRound prs = round
           then (if votesType = PrevoteType then prsPrevotes prs else prsPrecommits prs)
         else if prsCatchupRound prs = round
           then (if votesType = PrevoteType then None else prsCatchup prs)
         else if prsPOLRound prs = round
           then (if votesType = PrevoteType then prsPOL prs else None)
         else None)
      else if prsHeight prs = wrap64 (height + 1) then
        (if prsLastCommitRound prs = round
           then (if votesType = PrevoteType then None else prsLastCommit prs)
         else None)
      else None)"

definition PeerState_ensureCatchupCommitRound :: "PeerState \<Rightarrow> int \<Rightarrow> int \<Rightarrow> int \<Rightarrow> PeerState outcome" where
  "PeerState_ensureCatchupCommitRound ps height round numValidators =
     (let prs = psPRS ps in
      if prsHeight prs \<noteq> height then Ok ps
      else if prsCatchupRound prs = round then Ok ps
      else if round = prsRound prs
        then Ok (ps\<lparr>psPRS := prs\<lparr>prsCatchupRound := round, prsCatchup := prsPrecommits prs\<rparr>\<rparr>)
      else bindo (new_array ps numValidators) (\<lambda>(p, ps').
        Ok (ps'\<lparr>psPRS := prs\<lparr>prsCatchupRound := round, prsCatchup := p\<rparr>\<rparr>)))"

text \<open>\<^verbatim>\<open>if p == nil { p = bits.NewBitArray(n) }\<close> for one of the pointers.\<close>

definition ensure_array ::
    "(PeerRoundState \<Rightarrow> ptr) \<Rightarrow> (ptr \<Rightarrow> PeerRoundState \<Rightarrow> PeerRoundState) \<Rightarrow> int \<Rightarrow> PeerState \<Rightarrow> PeerState outcome" where
  "ensure_array get upd n ps =
     (if get (psPRS ps) = None
      then bindo (new_array ps n) (\<lambda>(p, ps'). Ok (ps'\<lparr>psPRS := upd p (psPRS ps')\<rparr>))
      else Ok ps)"

definition PeerState_ensureVoteBitArrays :: "PeerState \<Rightarrow> int \<Rightarrow> int \<Rightarrow> PeerState outcome" where
  "PeerState_ensureVoteBitArrays ps height numValidators =
     (if prsHeight (psPRS ps) = height then
        bindo (ensure_array prsPrevotes (\<lambda>p r. r\<lparr>prsPrevotes := p\<rparr>) numValidators ps) (\<lambda>ps1.
        bindo (ensure_array prsPrecommits (\<lambda>p r. r\<lparr>prsPrecommits := p\<rparr>) numValidators ps1) (\<lambda>ps2.
        bindo (ensure_array prsCatchup (\<lambda>p r. r\<lparr>prsCatchup := p\<rparr>) numValidators ps2) (\<lambda>ps3.
        ensure_array prsPOL (\<lambda>p r. r\<lparr>prsPOL := p\<rparr>) numValidators ps3)))
      else if prsHeight (psPRS ps) = wrap64 (height + 1) then
        ensure_array prsLastCommit (\<lambda>p r. r\<lparr>prsLastCommit := p\<rparr>) numValidators ps
      else Ok ps)"

definition PeerState_EnsureVoteBitArrays :: "PeerState \<Rightarrow> int \<Rightarrow> int \<Rightarrow> PeerState outcome" where
  "PeerState_EnsureVoteBitArrays ps height numValidators = PeerState_ensureVoteBitArrays ps height numValidators"

text \<open>The interface \<^verbatim>\<open>VoteSetReader\<close> by the answers of its methods.\<close>

record VoteSetReader =
  rdHeight :: int
  rdRound :: int
  rdType :: SignedMsgType
  rdSize :: int
  rdBits :: "bit_array option"
  rdVote :: "int \<Rightarrow> Vote option"
  rdIsCommit :: bool

definition PeerState_PickVoteToSend ::
    "(int \<Rightarrow> int) \<Rightarrow> PeerState \<Rightarrow> VoteSetReader \<Rightarrow> (Vote option \<times> PeerState) outcome" where
  "PeerState_PickVoteToSend rng ps votes =
     (if rdSize votes = 0 then Ok (None, ps)
      else
        bindo (if rdIsCommit votes
               then PeerState_ensureCatchupCommitRound ps (rdHeight votes) (rdRound votes) (rdSize votes)
               else Ok ps) (\<lambda>ps1.
        bindo (PeerState_ensureVoteBitArrays ps1 (rdHeight votes) (rdSize votes)) (\<lambda>ps2.
        case PeerState_getVoteBitArray ps2 (rdHeight votes) (rdRound votes) (rdType votes) of
          None \<Rightarrow> Ok (None, ps2)
        | Some a \<Rightarrow>
            bindo (BitArray_Sub (rdBits votes) (array_at ps2 (Some a))) (\<lambda>d.
            bindo (BitArray_PickRandom rng d) (\<lambda>(index, ok).
            Ok (if ok then rdVote votes (wrap32 index) else None, ps2))))))"

definition PeerState_RecordVote :: "PeerState \<Rightarrow> int \<times> PeerState" where
  "PeerState_RecordVote ps = (let n = wrap64 (psVotes ps + 1) in (n, ps\<lparr>psVotes := n\<rparr>))"

definition PeerState_VotesSent :: "PeerState \<Rightarrow> int" where
  "PeerState_VotesSent ps = psVotes ps"

definition PeerState_RecordBlockPart :: "PeerState \<Rightarrow> int \<times> PeerState" where
  "PeerState_RecordBlockPart ps = (let n = wrap64 (psBlockParts ps + 1) in (n, ps\<lparr>psBlockParts := n\<rparr>))"

definition PeerState_BlockPartsSent :: "PeerState \<Rightarrow> int" where
  "PeerState_BlockPartsSent ps = psBlockParts ps"

definition PeerState_setHasVote :: "PeerState \<Rightarrow> int \<Rightarrow> int \<Rightarrow> SignedMsgType \<Rightarrow> int \<Rightarrow> PeerState outcome" where
  "PeerState_setHasVote ps height round voteType index =
     (case PeerState_getVoteBitArray ps height round voteType of
        None \<Rightarrow> Ok ps
      | Some a \<Rightarrow> set_bit ps (Some a) index)"

definition PeerState_SetHasVote :: "PeerState \<Rightarrow> Vote \<Rightarrow> PeerState outcome" where
  "PeerState_SetHasVote ps vote = PeerState_setHasVote ps (vHeight vote) (vRound vote) (vType vote) (vValIndex vote)"

definition PeerState_SetHasVoteFromPeer :: "PeerState \<Rightarrow> Vote \<Rightarrow> int \<Rightarrow> int \<Rightarrow> int \<Rightarrow> PeerState outcome" where
  "PeerState_SetHasVoteFromPeer ps vote csHeight valSize lastCommitSize =
     bindo (PeerState_ensureVoteBitArrays ps csHeight valSize) (\<lambda>ps1.
     bindo (PeerState_ensureVoteBitArrays ps1 (wrap64 (csHeight - 1)) lastCommitSize) (\<lambda>ps2.
     PeerState_setHasVote ps2 (vHeight vote) (vRound vote) (vType vote) (vValIndex vote)))"

definition PeerState_sendVoteSetHasVote :: "bool \<Rightarrow> PeerState \<Rightarrow> Vote \<Rightarrow> (bool \<times> PeerState) outcome" where
  "PeerState_sendVoteSetHasVote sent ps vote =
     (if sent then bindo (PeerState_SetHasVote ps vote) (\<lambda>ps'. Ok (True, ps')) else Ok (False, ps))"

text \<open>
  \<open>sent\<close> is the answer of the peer to the proposal; \<open>prevotes\<close> is the bit array of the prevotes of the
  proof-of-lock round, whose pointer the second message dereferences. The answer to the second message is not used.
\<close>

definition PeerState_SendProposalSetHasProposal :: "bool \<Rightarrow> PeerState \<Rightarrow> Proposal option \<Rightarrow> bit_array option \<Rightarrow> PeerState outcome" where
  "PeerState_SendProposalSetHasProposal sent ps proposal prevotes =
     (case proposal of None \<Rightarrow> Panic nil_deref
      | Some p \<Rightarrow>
          bindo (if sent then PeerState_SetHasProposal ps p else Ok ps) (\<lambda>ps'.
          if 0 \<le> prPOLRound p
          then (case BitArray_ToProto prevotes of None \<Rightarrow> Panic nil_deref | Some _ \<Rightarrow> Ok ps')
          else Ok ps'))"

definition CompareHRS :: "int \<Rightarrow> int \<Rightarrow> RoundStepType \<Rightarrow> int \<Rightarrow> int \<Rightarrow> RoundStepType \<Rightarrow> int" where
  "CompareHRS h1 r1 s1 h2 r2 s2 =
     (if h1 < h2 then -1 else if h1 > h2 then 1
      else if r1 < r2 then -1 else if r1 > r2 then 1
      else if s1 < s2 then -1 else if s1 > s2 then 1
      else 0)"

text \<open>\<open>now\<close> is the clock; the product is computed in 64 bits.\<close>

definition PeerState_ApplyNewRoundStepMessage :: "gotime \<Rightarrow> PeerState \<Rightarrow> NewRoundStepMessage \<Rightarrow> PeerState" where
  "PeerState_ApplyNewRoundStepMessage now ps msg =
     (let prs = psPRS ps in
      if CompareHRS (nrsHeight msg) (nrsRound msg) (nrsStep msg) (prsHeight prs) (prsRound prs) (prsStep prs) \<le> 0 then ps
      else
        let startTime = now\<lparr>tmNs := tmNs now + wrap64 (wrap64 (- nrsSeconds msg) * 1000000000)\<rparr>;
            p1 = prs\<lparr>prsHeight := nrsHeight msg, prsRound := nrsRound msg, prsStep := nrsStep msg,
                     prsStartTime := startTime\<rparr>;
            p2 = (if prsHeight prs \<noteq> nrsHeight msg \<or> prsRound prs \<noteq> nrsRound msg
                  then p1\<lparr>prsProposal := False, prsPSH := nil_PartSetHeader, prsParts := None, prsPOLRound := -1,
                          prsPOL := None, prsPrevotes := None, prsPrecommits := None\<rparr>
                  else p1);
            p3 = (if prsHeight prs = nrsHeight msg \<and> prsRound prs \<noteq> nrsRound msg \<and> nrsRound msg = prsCatchupRound prs
                  then p2\<lparr>prsPrecommits := prsCatchup prs\<rparr>
                  else p2);
            p4 = (if prsHeight prs \<noteq> nrsHeight msg
                  then (if wrap64 (prsHeight prs + 1) = nrsHeight msg \<and> prsRound prs = nrsLastCommitRound msg
                        then p3\<lparr>prsLastCommitRound := nrsLastCommitRound msg, prsLastCommit := prsPrecommits prs\<rparr>
                        else p3\<lparr>prsLastCommitRound := nrsLastCommitRound msg, prsLastCommit := None\<rparr>)
                         \<lparr>prsCatchupRound := -1, prsCatchup := None\<rparr>
                  else p3)
        in ps\<lparr>psPRS := p4\<rparr>)"

text \<open>The bit array of a decoded message is a fresh object; storing it makes it part of the store.\<close>

definition PeerState_ApplyNewValidBlockMessage :: "PeerState \<Rightarrow> NewValidBlockMessage \<Rightarrow> PeerState" where
  "PeerState_ApplyNewValidBlockMessage ps msg =
     (let prs = psPRS ps in
      if prsHeight prs \<noteq> nvbHeight msg then ps
      else if prsRound prs \<noteq> nvbRound msg \<and> \<not> nvbIsCommit msg then ps
      else let (p, ps') = alloc ps (nvbParts msg)
           in ps'\<lparr>psPRS := prs\<lparr>prsPSH := nvbPSH msg, prsParts := p\<rparr>\<rparr>)"

definition PeerState_ApplyProposalPOLMessage :: "PeerState \<Rightarrow> ProposalPOLMessage \<Rightarrow> PeerState" where
  "PeerState_ApplyProposalPOLMessage ps msg =
     (let prs = psPRS ps in
      if prsHeight prs \<noteq> polHeight msg then ps
      else if prsPOLRound prs \<noteq> polRound msg then ps
      else let (p, ps') = alloc ps (polBits msg) in ps'\<lparr>psPRS := prs\<lparr>prsPOL := p\<rparr>\<rparr>)"

definition PeerState_ApplyHasVoteMessage :: "PeerState \<Rightarrow> HasVoteMessage \<Rightarrow> PeerState outcome" where
  "PeerState_ApplyHasVoteMessage ps msg =
     (if prsHeight (psPRS ps) \<noteq> hvHeight msg then Ok ps
      else PeerState_setHasVote ps (hvHeight msg) (hvRound msg) (hvType msg) (hvIndex msg))"

definition PeerState_ApplyHasProposalBlockPartMessage :: "PeerState \<Rightarrow> HasProposalBlockPartMessage \<Rightarrow> PeerState outcome" where
  "PeerState_ApplyHasProposalBlockPartMessage ps msg =
     (if prsHeight (psPRS ps) \<noteq> hpbHeight msg then Ok ps
      else PeerState_setHasProposalBlockPart ps (hpbHeight msg) (hpbRound msg) (hpbIndex msg))"

definition PeerState_ApplyVoteSetBitsMessage ::
    "PeerState \<Rightarrow> VoteSetBitsMessage \<Rightarrow> bit_array option \<Rightarrow> PeerState outcome" where
  "PeerState_ApplyVoteSetBitsMessage ps msg ourVotes =
     (case PeerState_getVoteBitArray ps (vsbHeight msg) (vsbRound msg) (vsbType msg) of
        None \<Rightarrow> Ok ps
      | Some a \<Rightarrow>
          let votes = array_at ps (Some a) in
          if ourVotes = None then Ok (put_array ps (Some a) (BitArray_Update votes (vsbVotes msg)))
          else
            bindo (BitArray_Sub votes ourVotes) (\<lambda>otherVotes.
            bindo (BitArray_Or otherVotes (vsbVotes msg)) (\<lambda>hasVotes.
            Ok (put_array ps (Some a) (BitArray_Update votes hasVotes)))))"

section \<open>The invariant\<close>

definition ptr_ok :: "nat \<Rightarrow> ptr \<Rightarrow> bool" where
  "ptr_ok n p = (case p of None \<Rightarrow> True | Some a \<Rightarrow> a < n)"

definition prs_ok :: "nat \<Rightarrow> PeerRoundState \<Rightarrow> bool" where
  "prs_ok n prs \<longleftrightarrow> ptr_ok n (prsParts prs) \<and> ptr_ok n (prsPOL prs) \<and> ptr_ok n (prsPrevotes prs) \<and>
     ptr_ok n (prsPrecommits prs) \<and> ptr_ok n (prsLastCommit prs) \<and> ptr_ok n (prsCatchup prs)"

definition ps_wf :: "PeerState \<Rightarrow> bool" where
  "ps_wf ps \<longleftrightarrow> prs_ok (length (psMem ps)) (psPRS ps) \<and> (\<forall>b\<in>set (psMem ps). wf_ba b)"

definition opt_wf :: "bit_array option \<Rightarrow> bool" where
  "opt_wf b = (case b of None \<Rightarrow> True | Some x \<Rightarrow> wf_ba x)"

lemma ptr_ok_simps [simp]: "ptr_ok n None" "ptr_ok n (Some a) \<longleftrightarrow> a < n"
  by (simp_all add: ptr_ok_def)

lemma opt_wf_simps [simp]: "opt_wf None" "opt_wf (Some b) \<longleftrightarrow> wf_ba b"
  by (simp_all add: opt_wf_def)

lemma ptr_ok_mono: "ptr_ok m p \<Longrightarrow> m \<le> n \<Longrightarrow> ptr_ok n p"
  by (cases p) auto

lemma prs_ok_mono: "prs_ok m prs \<Longrightarrow> m \<le> n \<Longrightarrow> prs_ok n prs"
  by (auto simp: prs_ok_def intro: ptr_ok_mono)

lemma ps_wf_NewPeerState: "ps_wf NewPeerState"
  by (simp add: ps_wf_def prs_ok_def NewPeerState_def)

lemma alloc_wf:
  assumes "ps_wf ps" "opt_wf b"
  shows "\<exists>p mem. alloc ps b = (p, ps\<lparr>psMem := mem\<rparr>) \<and> length (psMem ps) \<le> length mem \<and>
    ptr_ok (length mem) p \<and> (\<forall>x\<in>set mem. wf_ba x)"
  using assms by (cases b; cases ps) (auto simp: alloc_def ps_wf_def)

lemma new_array_wf:
  assumes "ps_wf ps" "n \<le> MaxInt64 - 63"
  shows "\<exists>p mem. new_array ps n = Ok (p, ps\<lparr>psMem := mem\<rparr>) \<and> length (psMem ps) \<le> length mem \<and>
    ptr_ok (length mem) p \<and> (\<forall>x\<in>set mem. wf_ba x)"
proof -
  have "\<exists>b. NewBitArray n = Ok b \<and> opt_wf b"
    using NewBitArray_abs [of n] assms(2) by (cases "0 < n") (auto simp: NewBitArray_def)
  then show ?thesis using alloc_wf [OF assms(1)] by (auto simp: new_array_def)
qed

lemma set_bit_wf:
  assumes "ps_wf ps" "ptr_ok (length (psMem ps)) p" "0 \<le> i"
  shows "\<exists>ps'. set_bit ps p i = Ok ps' \<and> ps_wf ps'"
proof (cases p)
  case None
  then show ?thesis using assms(1) by (simp add: set_bit_def array_at_def BitArray_SetIndex_def put_array_def)
next
  case (Some a)
  then have a: "a < length (psMem ps)" "wf_ba (psMem ps ! a)" using assms by (auto simp: ps_wf_def)
  obtain ok b where "BitArray_setIndex (psMem ps ! a) i True = Ok (ok, b)" "wf_ba b"
    using ba.put_total [OF a(2) assms(3)] by blast
  then show ?thesis using assms(1) a(1) Some set_update_subset_insert [of "psMem ps" a b]
    by (auto simp: set_bit_def array_at_def BitArray_SetIndex_def put_array_def ps_wf_def)
qed

lemma getVoteBitArray_ok: "ps_wf ps \<Longrightarrow> ptr_ok (length (psMem ps)) (PeerState_getVoteBitArray ps h r t)"
  by (simp add: PeerState_getVoteBitArray_def Let_def ps_wf_def prs_ok_def)

lemma setHasVote_wf: "ps_wf ps \<Longrightarrow> 0 \<le> i \<Longrightarrow> \<exists>ps'. PeerState_setHasVote ps h r t i = Ok ps' \<and> ps_wf ps'"
  using getVoteBitArray_ok [of ps h r t] set_bit_wf [of ps "PeerState_getVoteBitArray ps h r t" i]
  by (auto simp: PeerState_setHasVote_def split: option.splits)

lemma setHasProposalBlockPart_wf:
  "ps_wf ps \<Longrightarrow> 0 \<le> i \<Longrightarrow> \<exists>ps'. PeerState_setHasProposalBlockPart ps h r i = Ok ps' \<and> ps_wf ps'"
  using set_bit_wf [of ps "prsParts (psPRS ps)" i]
  by (auto simp: PeerState_setHasProposalBlockPart_def ps_wf_def prs_ok_def)

lemma ensure_array_wf:
  assumes "ps_wf ps" "n \<le> MaxInt64 - 63"
    and upd: "\<And>k p r. prs_ok k r \<Longrightarrow> ptr_ok k p \<Longrightarrow> prs_ok k (upd p r)"
  shows "\<exists>ps'. ensure_array get upd n ps = Ok ps' \<and> ps_wf ps'"
proof (cases "get (psPRS ps) = None")
  case True
  obtain p mem where m: "new_array ps n = Ok (p, ps\<lparr>psMem := mem\<rparr>)" "length (psMem ps) \<le> length mem"
    "ptr_ok (length mem) p" "\<forall>x\<in>set mem. wf_ba x" using new_array_wf [OF assms(1,2)] by blast
  have "prs_ok (length mem) (upd p (psPRS ps))"
    using assms(1) m by (intro upd) (auto simp: ps_wf_def intro: prs_ok_mono)
  with True m show ?thesis by (simp add: ensure_array_def ps_wf_def)
qed (use assms in \<open>auto simp: ensure_array_def\<close>)

lemma ensureVoteBitArrays_wf:
  assumes "ps_wf ps" "n \<le> MaxInt64 - 63"
  shows "\<exists>ps'. PeerState_ensureVoteBitArrays ps h n = Ok ps' \<and> ps_wf ps'"
proof -
  note e = ensure_array_wf [OF _ assms(2)]
  have "\<exists>ps'. bindo (ensure_array prsPrevotes (\<lambda>p r. r\<lparr>prsPrevotes := p\<rparr>) n ps) (\<lambda>ps1.
        bindo (ensure_array prsPrecommits (\<lambda>p r. r\<lparr>prsPrecommits := p\<rparr>) n ps1) (\<lambda>ps2.
        bindo (ensure_array prsCatchup (\<lambda>p r. r\<lparr>prsCatchup := p\<rparr>) n ps2) (\<lambda>ps3.
        ensure_array prsPOL (\<lambda>p r. r\<lparr>prsPOL := p\<rparr>) n ps3))) = Ok ps' \<and> ps_wf ps'"
  proof -
    obtain ps1 where 1: "ensure_array prsPrevotes (\<lambda>p r. r\<lparr>prsPrevotes := p\<rparr>) n ps = Ok ps1" "ps_wf ps1"
      using e [OF assms(1), where get = prsPrevotes and upd = "\<lambda>p r. r\<lparr>prsPrevotes := p\<rparr>"] by (auto simp: prs_ok_def)
    obtain ps2 where 2: "ensure_array prsPrecommits (\<lambda>p r. r\<lparr>prsPrecommits := p\<rparr>) n ps1 = Ok ps2" "ps_wf ps2"
      using e [OF 1(2), where get = prsPrecommits and upd = "\<lambda>p r. r\<lparr>prsPrecommits := p\<rparr>"] by (auto simp: prs_ok_def)
    obtain ps3 where 3: "ensure_array prsCatchup (\<lambda>p r. r\<lparr>prsCatchup := p\<rparr>) n ps2 = Ok ps3" "ps_wf ps3"
      using e [OF 2(2), where get = prsCatchup and upd = "\<lambda>p r. r\<lparr>prsCatchup := p\<rparr>"] by (auto simp: prs_ok_def)
    show ?thesis
      using e [OF 3(2), where get = prsPOL and upd = "\<lambda>p r. r\<lparr>prsPOL := p\<rparr>"] 1 2 3 by (auto simp: prs_ok_def)
  qed
  moreover have "\<exists>ps'. ensure_array prsLastCommit (\<lambda>p r. r\<lparr>prsLastCommit := p\<rparr>) n ps = Ok ps' \<and> ps_wf ps'"
    using e [OF assms(1), where get = prsLastCommit and upd = "\<lambda>p r. r\<lparr>prsLastCommit := p\<rparr>"] by (auto simp: prs_ok_def)
  ultimately show ?thesis using assms(1) unfolding PeerState_ensureVoteBitArrays_def by simp
qed

lemma ensureCatchupCommitRound_wf:
  assumes "ps_wf ps" "n \<le> MaxInt64 - 63"
  shows "\<exists>ps'. PeerState_ensureCatchupCommitRound ps h r n = Ok ps' \<and> ps_wf ps'"
proof -
  obtain p mem where m: "new_array ps n = Ok (p, ps\<lparr>psMem := mem\<rparr>)" "length (psMem ps) \<le> length mem"
    "ptr_ok (length mem) p" "\<forall>x\<in>set mem. wf_ba x" using new_array_wf [OF assms] by blast
  have "prs_ok (length mem) (psPRS ps)" using assms(1) m(2) by (auto simp: ps_wf_def intro: prs_ok_mono)
  with m assms(1) show ?thesis
    by (auto simp: PeerState_ensureCatchupCommitRound_def Let_def ps_wf_def prs_ok_def)
qed

lemma Sub_total: "opt_wf b \<Longrightarrow> opt_wf ob \<Longrightarrow> \<exists>c. BitArray_Sub b ob = Ok c \<and> opt_wf c"
proof (cases b; cases ob)
  fix x y assume "opt_wf b" "opt_wf ob" and [simp]: "b = Some x" "ob = Some y"
  then have "wf_ba x" "wf_ba y" by simp_all
  then show ?thesis using Sub_exact [of x y] by (auto intro: exI [of _ "Some _"])
qed (simp_all add: BitArray_Sub_def)

text \<open>\<^verbatim>\<open>Or\<close> reads no more elements of its argument than it has, so the argument need not be well-formed.\<close>

lemma Or_total:
  assumes "wf_ba b" "BitArray_Size ob \<le> MaxInt64 - 63"
  shows "\<exists>c. BitArray_Or (Some b) ob = Ok c"
proof (cases ob)
  case (Some x)
  have "0 < max (Bits b) (Bits x)" "max (Bits b) (Bits x) \<le> MaxInt64 - 63"
    using assms Some by (auto simp: wf_ba_def BitArray_Size_def)
  then obtain c where c: "BitArray_copyBits b (max (Bits b) (Bits x)) = Ok c" "Bits c = max (Bits b) (Bits x)" "wf_ba c"
    by (rule copyBits_ok) blast
  have "length (Elems b) \<le> length (Elems c)" using wf_ba_mono_elems [OF assms(1) c(3)] c(2) by simp
  then have "\<forall>i\<in>set [0..<min (length (Elems b)) (length (Elems x))]. i < length (Elems c) \<and> i < length (Elems x)"
    by auto
  from elems_loop_ok [OF distinct_upt this, of "(OR)"] show ?thesis
    using c Some by (auto simp: BitArray_Or_def Let_def)
qed (simp add: BitArray_Or_def)

lemma Update_wf: "wf_ba b \<Longrightarrow> \<exists>c. BitArray_Update (Some b) ob = Some c \<and> wf_ba c"
  by (cases ob) (auto simp: BitArray_Update_def wf_ba_def)

lemma put_array_wf: "ps_wf ps \<Longrightarrow> opt_wf b \<Longrightarrow> ps_wf (put_array ps p b)"
  using set_update_subset_insert [of "psMem ps" "the p" "the b"]
  by (cases p; cases b) (auto simp: put_array_def ps_wf_def)

lemma ApplyVoteSetBitsMessage_wf:
  assumes "ps_wf ps" "BitArray_Size (vsbVotes msg) \<le> MaxInt64 - 63" "opt_wf ours"
  shows "\<exists>ps'. PeerState_ApplyVoteSetBitsMessage ps msg ours = Ok ps' \<and> ps_wf ps'"
proof (cases "PeerState_getVoteBitArray ps (vsbHeight msg) (vsbRound msg) (vsbType msg)")
  case (Some a)
  then have a: "wf_ba (psMem ps ! a)"
    using getVoteBitArray_ok [OF assms(1), of "vsbHeight msg" "vsbRound msg" "vsbType msg"] assms(1) by (auto simp: ps_wf_def)
  show ?thesis
  proof (cases ours)
    case None
    obtain c where "BitArray_Update (Some (psMem ps ! a)) (vsbVotes msg) = Some c" "wf_ba c" using Update_wf [OF a] by blast
    with None Some put_array_wf [OF assms(1), of "Some c" "Some a"] show ?thesis
      by (simp add: PeerState_ApplyVoteSetBitsMessage_def array_at_def)
  next
    case (Some o')
    then obtain d where d: "BitArray_Sub (Some (psMem ps ! a)) ours = Ok (Some d)" "wf_ba d"
      using Sub_exact [OF a, of o'] assms(3) by auto
    obtain e where e: "BitArray_Or (Some d) (vsbVotes msg) = Ok e" using Or_total [OF d(2) assms(2)] by blast
    obtain c where "BitArray_Update (Some (psMem ps ! a)) e = Some c" "wf_ba c" using Update_wf [OF a] by blast
    with Some d e put_array_wf [OF assms(1), of "Some c" "Some a"] \<open>PeerState_getVoteBitArray ps _ _ _ = Some a\<close>
    show ?thesis by (simp add: PeerState_ApplyVoteSetBitsMessage_def array_at_def)
  qed
qed (use assms in \<open>simp add: PeerState_ApplyVoteSetBitsMessage_def\<close>)

lemma SetHasProposal_wf: "ps_wf ps \<Longrightarrow> \<exists>ps'. PeerState_SetHasProposal ps pr = Ok ps' \<and> ps_wf ps'"
proof -
  assume ps: "ps_wf ps"
  have "uint (phTotal (bidPSH (prBlockID pr))) \<le> MaxInt64 - 63"
    using uint_lt2p [of "phTotal (bidPSH (prBlockID pr))"] by simp
  then obtain p mem where m: "new_array ps (uint (phTotal (bidPSH (prBlockID pr)))) = Ok (p, ps\<lparr>psMem := mem\<rparr>)"
    "length (psMem ps) \<le> length mem" "ptr_ok (length mem) p" "\<forall>x\<in>set mem. wf_ba x" using new_array_wf [OF ps] by blast
  have "prs_ok (length mem) (psPRS ps)" using ps m(2) by (auto simp: ps_wf_def intro: prs_ok_mono)
  with m ps show ?thesis by (auto simp: PeerState_SetHasProposal_def Let_def ps_wf_def prs_ok_def)
qed

lemma InitProposalBlockParts_wf: "ps_wf ps \<Longrightarrow> \<exists>ps'. PeerState_InitProposalBlockParts ps psh = Ok ps' \<and> ps_wf ps'"
proof -
  assume ps: "ps_wf ps"
  have "uint (phTotal psh) \<le> MaxInt64 - 63" using uint_lt2p [of "phTotal psh"] by simp
  then obtain p mem where m: "new_array ps (uint (phTotal psh)) = Ok (p, ps\<lparr>psMem := mem\<rparr>)"
    "length (psMem ps) \<le> length mem" "ptr_ok (length mem) p" "\<forall>x\<in>set mem. wf_ba x" using new_array_wf [OF ps] by blast
  have "prs_ok (length mem) (psPRS ps)" using ps m(2) by (auto simp: ps_wf_def intro: prs_ok_mono)
  with m ps show ?thesis by (auto simp: PeerState_InitProposalBlockParts_def ps_wf_def prs_ok_def)
qed

lemma ApplyNewRoundStepMessage_wf: "ps_wf ps \<Longrightarrow> ps_wf (PeerState_ApplyNewRoundStepMessage now ps msg)"
  by (auto simp: PeerState_ApplyNewRoundStepMessage_def Let_def ps_wf_def prs_ok_def)

lemma ApplyNewValidBlockMessage_wf: "ps_wf ps \<Longrightarrow> opt_wf (nvbParts msg) \<Longrightarrow> ps_wf (PeerState_ApplyNewValidBlockMessage ps msg)"
  using alloc_wf [of ps "nvbParts msg"]
  by (auto simp: PeerState_ApplyNewValidBlockMessage_def Let_def ps_wf_def prs_ok_def intro: ptr_ok_mono)

lemma ApplyProposalPOLMessage_wf: "ps_wf ps \<Longrightarrow> opt_wf (polBits msg) \<Longrightarrow> ps_wf (PeerState_ApplyProposalPOLMessage ps msg)"
  using alloc_wf [of ps "polBits msg"]
  by (auto simp: PeerState_ApplyProposalPOLMessage_def Let_def ps_wf_def prs_ok_def intro: ptr_ok_mono)

lemma PickVoteToSend_wf:
  assumes "ps_wf ps" "rdSize votes \<le> MaxInt64 - 63" "opt_wf (rdBits votes)"
    and rng: "\<And>m. 0 < m \<Longrightarrow> 0 \<le> rng m \<and> rng m < m"
  shows "\<exists>v ps'. PeerState_PickVoteToSend rng ps votes = Ok (v, ps') \<and> ps_wf ps'"
proof (cases "rdSize votes = 0")
  case False
  obtain ps1 where 1: "(if rdIsCommit votes
      then PeerState_ensureCatchupCommitRound ps (rdHeight votes) (rdRound votes) (rdSize votes) else Ok ps) = Ok ps1" "ps_wf ps1"
    using ensureCatchupCommitRound_wf [OF assms(1,2)] assms(1) by (cases "rdIsCommit votes") auto
  obtain ps2 where 2: "PeerState_ensureVoteBitArrays ps1 (rdHeight votes) (rdSize votes) = Ok ps2" "ps_wf ps2"
    using ensureVoteBitArrays_wf [OF 1(2) assms(2)] by blast
  let ?p = "PeerState_getVoteBitArray ps2 (rdHeight votes) (rdRound votes) (rdType votes)"
  show ?thesis
  proof (cases ?p)
    case (Some a)
    then have "opt_wf (array_at ps2 (Some a))"
      using getVoteBitArray_ok [OF 2(2), of "rdHeight votes" "rdRound votes" "rdType votes"] 2(2) by (auto simp: ps_wf_def array_at_def)
    then obtain d where d: "BitArray_Sub (rdBits votes) (array_at ps2 (Some a)) = Ok d" "opt_wf d"
      using Sub_total [OF assms(3)] by blast
    have "\<exists>r. BitArray_PickRandom rng d = Ok r"
      using d(2) PickRandom_spec [OF _ rng] by (cases d) (auto simp: BitArray_PickRandom_def)
    with False 1 2 Some d(1) show ?thesis by (auto simp: PeerState_PickVoteToSend_def split: prod.splits)
  qed (use False 1 2 in \<open>simp add: PeerState_PickVoteToSend_def\<close>)
qed (use assms in \<open>simp add: PeerState_PickVoteToSend_def\<close>)

section \<open>Sequences of operations\<close>

datatype peer_op =
    OpSetHasProposal Proposal
  | OpInitProposalBlockParts PartSetHeader
  | OpSetHasProposalBlockPart int int int
  | OpSendPartSetHasPart bool "Part option" PeerRoundState
  | OpEnsureVoteBitArrays int int
  | OpPickVoteToSend "int \<Rightarrow> int" VoteSetReader
  | OpRecordVote
  | OpRecordBlockPart
  | OpSetHasVote Vote
  | OpSetHasVoteFromPeer Vote int int int
  | OpSendVoteSetHasVote bool Vote
  | OpSendProposalSetHasProposal bool "Proposal option" "bit_array option"
  | OpApplyNewRoundStep gotime NewRoundStepMessage
  | OpApplyNewValidBlock NewValidBlockMessage
  | OpApplyProposalPOL ProposalPOLMessage
  | OpApplyHasVote HasVoteMessage
  | OpApplyHasProposalBlockPart HasProposalBlockPartMessage
  | OpApplyVoteSetBits VoteSetBitsMessage "bit_array option"

definition second :: "('a \<times> 'b) outcome \<Rightarrow> 'b outcome" where
  "second r = bindo r (\<lambda>x. Ok (snd x))"

fun peer_do :: "peer_op \<Rightarrow> PeerState \<Rightarrow> PeerState outcome" where
  "peer_do (OpSetHasProposal p) ps = PeerState_SetHasProposal ps p"
| "peer_do (OpInitProposalBlockParts h) ps = PeerState_InitProposalBlockParts ps h"
| "peer_do (OpSetHasProposalBlockPart h r i) ps = PeerState_SetHasProposalBlockPart ps h r i"
| "peer_do (OpSendPartSetHasPart sent part prs) ps = second (PeerState_SendPartSetHasPart sent ps part prs)"
| "peer_do (OpEnsureVoteBitArrays h n) ps = PeerState_EnsureVoteBitArrays ps h n"
| "peer_do (OpPickVoteToSend rng votes) ps = second (PeerState_PickVoteToSend rng ps votes)"
| "peer_do OpRecordVote ps = Ok (snd (PeerState_RecordVote ps))"
| "peer_do OpRecordBlockPart ps = Ok (snd (PeerState_RecordBlockPart ps))"
| "peer_do (OpSetHasVote v) ps = PeerState_SetHasVote ps v"
| "peer_do (OpSetHasVoteFromPeer v h n l) ps = PeerState_SetHasVoteFromPeer ps v h n l"
| "peer_do (OpSendVoteSetHasVote sent v) ps = second (PeerState_sendVoteSetHasVote sent ps v)"
| "peer_do (OpSendProposalSetHasProposal sent proposal bits) ps = PeerState_SendProposalSetHasProposal sent ps proposal bits"
| "peer_do (OpApplyNewRoundStep now m) ps = Ok (PeerState_ApplyNewRoundStepMessage now ps m)"
| "peer_do (OpApplyNewValidBlock m) ps = Ok (PeerState_ApplyNewValidBlockMessage ps m)"
| "peer_do (OpApplyProposalPOL m) ps = Ok (PeerState_ApplyProposalPOLMessage ps m)"
| "peer_do (OpApplyHasVote m) ps = PeerState_ApplyHasVoteMessage ps m"
| "peer_do (OpApplyHasProposalBlockPart m) ps = PeerState_ApplyHasProposalBlockPartMessage ps m"
| "peer_do (OpApplyVoteSetBits m ours) ps = PeerState_ApplyVoteSetBitsMessage ps m ours"

fun peer_run :: "peer_op list \<Rightarrow> PeerState \<Rightarrow> PeerState outcome" where
  "peer_run [] ps = Ok ps"
| "peer_run (x # xs) ps = bindo (peer_do x ps) (peer_run xs)"

text \<open>
  What the callers provide: indices are not negative, sizes are numbers of validators, a part that is
  sent is there, so are a proposal that is sent and the prevotes of its proof-of-lock round, a message has
  passed validation, and the bit arrays of a valid block and of a proof-of-lock are well-formed. Validation does not establish the last condition.
\<close>

fun op_ok :: "peer_op \<Rightarrow> bool" where
  "op_ok (OpSetHasProposalBlockPart h r i) \<longleftrightarrow> 0 \<le> i"
| "op_ok (OpSendPartSetHasPart sent part prs) \<longleftrightarrow> (case part of None \<Rightarrow> False | Some p \<Rightarrow> True)"
| "op_ok (OpEnsureVoteBitArrays h n) \<longleftrightarrow> n \<le> MaxVotesCount"
| "op_ok (OpPickVoteToSend rng votes) \<longleftrightarrow> rdSize votes \<le> MaxVotesCount \<and> opt_wf (rdBits votes) \<and>
     (\<forall>m. 0 < m \<longrightarrow> 0 \<le> rng m \<and> rng m < m)"
| "op_ok (OpSetHasVote v) \<longleftrightarrow> 0 \<le> vValIndex v"
| "op_ok (OpSetHasVoteFromPeer v h n l) \<longleftrightarrow> 0 \<le> vValIndex v \<and> n \<le> MaxVotesCount \<and> l \<le> MaxVotesCount"
| "op_ok (OpSendVoteSetHasVote sent v) \<longleftrightarrow> 0 \<le> vValIndex v"
| "op_ok (OpSendProposalSetHasProposal sent proposal bits) \<longleftrightarrow>
     (case proposal of None \<Rightarrow> False | Some p \<Rightarrow> 0 \<le> prPOLRound p \<longrightarrow> bits \<noteq> None \<and> opt_wf bits)"
| "op_ok (OpApplyNewValidBlock m) \<longleftrightarrow> Message_ValidateBasic (NewValidBlockMsg m) = Ok () \<and> opt_wf (nvbParts m)"
| "op_ok (OpApplyProposalPOL m) \<longleftrightarrow> Message_ValidateBasic (ProposalPOLMsg m) = Ok () \<and> opt_wf (polBits m)"
| "op_ok (OpApplyHasVote m) \<longleftrightarrow> Message_ValidateBasic (HasVoteMsg m) = Ok ()"
| "op_ok (OpApplyHasProposalBlockPart m) \<longleftrightarrow> Message_ValidateBasic (HasProposalBlockPartMsg m) = Ok ()"
| "op_ok (OpApplyVoteSetBits m ours) \<longleftrightarrow> Message_ValidateBasic (VoteSetBitsMsg m) = Ok () \<and> opt_wf ours"
| "op_ok _ \<longleftrightarrow> True"

lemma MaxVotes_le: "n \<le> MaxVotesCount \<Longrightarrow> n \<le> MaxInt64 - 63"
  by (simp add: MaxVotesCount_def)

lemma Part_ToProto_Some [simp]: "Part_ToProto (Some p) = Ok p"
  by (cases p) (simp add: Part_ToProto_def)

lemma SetHasVoteFromPeer_wf:
  assumes "ps_wf ps" "0 \<le> vValIndex v" "n \<le> MaxVotesCount" "l \<le> MaxVotesCount"
  shows "\<exists>ps'. PeerState_SetHasVoteFromPeer ps v h n l = Ok ps' \<and> ps_wf ps'"
proof -
  obtain ps1 where 1: "PeerState_ensureVoteBitArrays ps h n = Ok ps1" "ps_wf ps1"
    using ensureVoteBitArrays_wf [OF assms(1) MaxVotes_le [OF assms(3)]] by blast
  obtain ps2 where 2: "PeerState_ensureVoteBitArrays ps1 (wrap64 (h - 1)) l = Ok ps2" "ps_wf ps2"
    using ensureVoteBitArrays_wf [OF 1(2) MaxVotes_le [OF assms(4)]] by blast
  show ?thesis using setHasVote_wf [OF 2(2) assms(2)] 1(1) 2(1) by (simp add: PeerState_SetHasVoteFromPeer_def)
qed

lemma stats_wf: "ps_wf (ps\<lparr>psVotes := n\<rparr>) = ps_wf ps" "ps_wf (ps\<lparr>psBlockParts := n\<rparr>) = ps_wf ps"
  by (simp_all add: ps_wf_def)

lemma peer_do_wf:
  assumes ps: "ps_wf ps" and "op_ok x"
  shows "\<exists>ps'. peer_do x ps = Ok ps' \<and> ps_wf ps'"
proof (cases x)
  case (OpSendPartSetHasPart sent part prs)
  then obtain p where "part = Some p" using assms by (cases part) auto
  then show ?thesis using setHasProposalBlockPart_wf [OF ps, of "uint (ptIndex p)" "prsHeight prs" "prsRound prs"] OpSendPartSetHasPart ps
    by (auto simp: second_def PeerState_SendPartSetHasPart_def PeerState_SetHasProposalBlockPart_def)
next
  case (OpPickVoteToSend rng votes)
  then show ?thesis using PickVoteToSend_wf [OF ps, of votes rng] assms(2) MaxVotes_le by (force simp: second_def)
next
  case (OpSendVoteSetHasVote sent v)
  then show ?thesis using setHasVote_wf [OF ps, of "vValIndex v" "vHeight v" "vRound v" "vType v"] assms
    by (auto simp: second_def PeerState_sendVoteSetHasVote_def PeerState_SetHasVote_def)
next
  case (OpSendProposalSetHasProposal sent proposal bits)
  then obtain p where p: "proposal = Some p" "0 \<le> prPOLRound p \<Longrightarrow> BitArray_ToProto bits \<noteq> None"
    using assms(2) by (auto simp: BitArray_ToProto_def wf_elems_ne split: option.splits)
  then show ?thesis using SetHasProposal_wf [OF ps, of p] ps OpSendProposalSetHasProposal
    by (auto simp: PeerState_SendProposalSetHasProposal_def split: option.splits)
next
  case (OpApplyHasVote m)
  then have "0 \<le> hvIndex m" using assms(2) valid_typed [of "HasVoteMsg m"] by simp
  then show ?thesis using setHasVote_wf [OF ps] ps OpApplyHasVote by (simp add: PeerState_ApplyHasVoteMessage_def)
next
  case (OpApplyHasProposalBlockPart m)
  then have "0 \<le> hpbIndex m" using assms(2) valid_typed [of "HasProposalBlockPartMsg m"] by simp
  then show ?thesis using setHasProposalBlockPart_wf [OF ps] ps OpApplyHasProposalBlockPart
    by (simp add: PeerState_ApplyHasProposalBlockPartMessage_def)
next
  case (OpApplyVoteSetBits m ours)
  then have "BitArray_Size (vsbVotes m) \<le> MaxVotesCount" using assms(2) valid_typed [of "VoteSetBitsMsg m"] by simp
  then show ?thesis using ApplyVoteSetBitsMessage_wf [OF ps MaxVotes_le] assms(2) OpApplyVoteSetBits by simp
next
  case (OpSetHasProposalBlockPart h r i)
  then show ?thesis using setHasProposalBlockPart_wf [OF ps] assms(2) by (simp add: PeerState_SetHasProposalBlockPart_def)
next
  case (OpEnsureVoteBitArrays h n)
  then show ?thesis using ensureVoteBitArrays_wf [OF ps MaxVotes_le] assms(2) by (simp add: PeerState_EnsureVoteBitArrays_def)
next
  case (OpSetHasVote v)
  then show ?thesis using setHasVote_wf [OF ps] assms(2) by (simp add: PeerState_SetHasVote_def)
next
  case (OpSetHasVoteFromPeer v h n l)
  then show ?thesis using SetHasVoteFromPeer_wf [OF ps] assms(2) by simp
next
  case (OpApplyNewValidBlock m)
  then show ?thesis using ApplyNewValidBlockMessage_wf [OF ps] assms(2) by simp
next
  case (OpApplyProposalPOL m)
  then show ?thesis using ApplyProposalPOLMessage_wf [OF ps] assms(2) by simp
qed (use ps in \<open>simp_all add: SetHasProposal_wf InitProposalBlockParts_wf ApplyNewRoundStepMessage_wf
      PeerState_RecordVote_def PeerState_RecordBlockPart_def Let_def stats_wf\<close>)

lemma peer_run_wf: "ps_wf ps \<Longrightarrow> \<forall>x\<in>set xs. op_ok x \<Longrightarrow> \<exists>ps'. peer_run xs ps = Ok ps' \<and> ps_wf ps'"
proof (induction xs arbitrary: ps)
  case (Cons x xs)
  then obtain ps1 where "peer_do x ps = Ok ps1" "ps_wf ps1" using peer_do_wf [of ps x] by auto
  then show ?case using Cons by simp
qed simp

section \<open>Gossiping a vote\<close>

definition peer_knows :: "PeerState \<Rightarrow> Vote \<Rightarrow> bool outcome" where
  "peer_knows ps v =
     BitArray_GetIndex (array_at ps (PeerState_getVoteBitArray ps (vHeight v) (vRound v) (vType v))) (vValIndex v)"

definition reader_coherent :: "VoteSetReader \<Rightarrow> bool" where
  "reader_coherent votes \<longleftrightarrow>
     (\<forall>i v. rdVote votes i = Some v \<longrightarrow>
        vHeight v = rdHeight votes \<and> vRound v = rdRound votes \<and> vType v = rdType votes \<and> vValIndex v = i)"

lemma Sub_bit_unknown:
  assumes "wf_ba x" "wf_ba y" "BitArray_Sub (Some x) (Some y) = Ok (Some d)" "n \<in> set (ba_trues d)"
  shows "BitArray_GetIndex (Some y) (int n) = Ok False \<and> n < nat (Bits x)"
proof -
  obtain c where c: "BitArray_Sub (Some x) (Some y) = Ok (Some c)" "wf_ba c" "Bits c = Bits x"
    "\<forall>n. n div 64 < length (Elems x) \<longrightarrow> ba_bit c n \<longleftrightarrow> ba_bit x n \<and> \<not> (n div 64 < length (Elems y) \<and> ba_bit y n)"
    using Sub_exact [OF assms(1,2)] by blast
  then have d: "d = c" using assms(3) by simp
  have n: "n < nat (Bits x)" "ba_bit c n" using assms(4) c(3) by (auto simp: ba_trues_def d)
  have "\<not> (n div 64 < length (Elems y) \<and> ba_bit y n)" using c(4) n wf_index [OF assms(1) n(1)] by blast
  then have "\<not> (n < nat (Bits y) \<and> ba_bit y n)" using wf_index [OF assms(2)] by blast
  then show ?thesis using getIndex_abs [OF assms(2), of "int n"] n(1) by (auto simp: BitArray_GetIndex_def)
qed

lemma set_bit_reads:
  assumes "ps_wf ps" "p = Some a" "ptr_ok (length (psMem ps)) p" "0 \<le> i" "i < BitArray_Size (array_at ps p)" "set_bit ps p i = Ok ps'"
  shows "psPRS ps' = psPRS ps \<and> BitArray_GetIndex (array_at ps' p) i = Ok True"
proof -
  have a: "a < length (psMem ps)" "wf_ba (psMem ps ! a)" using assms(1-3) by (auto simp: ps_wf_def)
  have i: "i < Bits (psMem ps ! a)" "nat i < length (ba_abs (psMem ps ! a))"
    using assms(2,4,5) by (auto simp: array_at_def BitArray_Size_def)
  obtain b where b: "BitArray_setIndex (psMem ps ! a) i True = Ok (True, b)"
    using ba.put_abs [OF a(2) assms(4) i(2), of True] by blast
  have "BitArray_getIndex b i = Ok True" using ba.get_put [OF a(2) assms(4,4) i(2) b] by simp
  then show ?thesis using assms(2,6) a(1) b
    by (auto simp: set_bit_def array_at_def BitArray_SetIndex_def put_array_def BitArray_GetIndex_def)
qed

lemma PickVoteToSend_Some:
  assumes "PeerState_PickVoteToSend rng ps votes = Ok (Some v, ps')" "ps_wf ps" "rdSize votes \<le> MaxVotesCount"
    "opt_wf (rdBits votes)" "BitArray_Size (rdBits votes) \<le> MaxVotesCount"
    and rng: "\<And>m. 0 < m \<Longrightarrow> 0 \<le> rng m \<and> rng m < m"
  shows "\<exists>n a. PeerState_getVoteBitArray ps' (rdHeight votes) (rdRound votes) (rdType votes) = Some a \<and> ps_wf ps' \<and>
    rdVote votes (int n) = Some v \<and> BitArray_GetIndex (array_at ps' (Some a)) (int n) = Ok False \<and> int n < BitArray_Size (rdBits votes)"
proof -
  let ?p = "PeerState_getVoteBitArray ps' (rdHeight votes) (rdRound votes) (rdType votes)"
  have wf: "ps_wf ps'" using PickVoteToSend_wf [OF assms(2) MaxVotes_le [OF assms(3)] assms(4) rng] assms(1) by auto
  from assms(1) obtain a d where a: "?p = Some a" and d: "BitArray_Sub (rdBits votes) (array_at ps' (Some a)) = Ok d"
    and pick: "\<exists>i. BitArray_PickRandom rng d = Ok (i, True) \<and> rdVote votes (wrap32 i) = Some v"
    by (auto simp: PeerState_PickVoteToSend_def bindo_Ok_iff split: if_splits option.splits prod.splits)
  have y: "wf_ba (psMem ps' ! a)" using getVoteBitArray_ok [OF wf, of "rdHeight votes" "rdRound votes" "rdType votes"] a wf
    by (auto simp: ps_wf_def)
  obtain i where i: "BitArray_PickRandom rng d = Ok (i, True)" "rdVote votes (wrap32 i) = Some v" using pick by blast
  obtain x where x: "rdBits votes = Some x" "wf_ba x"
    using i d assms(4) by (cases "rdBits votes") (auto simp: BitArray_Sub_def BitArray_PickRandom_def)
  obtain e where e: "d = Some e" "wf_ba e" using d x Sub_exact [OF x(2) y] by (auto simp: array_at_def)
  let ?k = "nat (rng (int (length (ba_trues e))))"
  have ne: "ba_trues e \<noteq> []" using i PickRandom_spec [OF e(2) rng] e(1) by (auto split: if_splits)
  then have ii: "i = int (ba_trues e ! ?k)" using i PickRandom_spec [OF e(2) rng] e(1) by auto
  have "?k < length (ba_trues e)" using ne rng [of "int (length (ba_trues e))"] by (simp add: nat_less_iff)
  then have mem: "ba_trues e ! ?k \<in> set (ba_trues e)" by simp
  have u: "BitArray_GetIndex (Some (psMem ps' ! a)) i = Ok False \<and> ba_trues e ! ?k < nat (Bits x)"
    unfolding ii by (rule Sub_bit_unknown [OF x(2) y _ mem]) (use d x e in \<open>simp add: array_at_def\<close>)
  have "in32 i" using u ii x assms(5) by (auto simp: in32_def BitArray_Size_def MaxVotesCount_def)
  moreover have "i < BitArray_Size (rdBits votes)" using u ii x by (auto simp: BitArray_Size_def zless_nat_eq_int_zless)
  ultimately show ?thesis using a wf i(2) u ii by (intro exI [of _ "ba_trues e ! ?k"] exI [of _ a]) (simp add: array_at_def i64)
qed

lemma SetHasVote_known:
  assumes "ps_wf ps" "0 \<le> vValIndex v"
    "vValIndex v < BitArray_Size (array_at ps (PeerState_getVoteBitArray ps (vHeight v) (vRound v) (vType v)))"
  shows "\<exists>ps'. PeerState_SetHasVote ps v = Ok ps' \<and> peer_knows ps' v = Ok True"
proof -
  let ?p = "PeerState_getVoteBitArray ps (vHeight v) (vRound v) (vType v)"
  obtain a where a: "?p = Some a" using assms(2,3) by (cases ?p) (auto simp: array_at_def BitArray_Size_def)
  obtain ps' where ps': "set_bit ps ?p (vValIndex v) = Ok ps'"
    using set_bit_wf [OF assms(1) getVoteBitArray_ok [OF assms(1)] assms(2)] by blast
  have r: "psPRS ps' = psPRS ps" "BitArray_GetIndex (array_at ps' ?p) (vValIndex v) = Ok True"
    using set_bit_reads [OF assms(1) a getVoteBitArray_ok [OF assms(1)] assms(2,3) ps'] by auto
  have "PeerState_getVoteBitArray ps' (vHeight v) (vRound v) (vType v) = ?p" by (simp add: PeerState_getVoteBitArray_def r(1))
  then show ?thesis using ps' a r(2) by (auto simp: PeerState_SetHasVote_def PeerState_setHasVote_def peer_knows_def)
qed

lemma SetHasVote_beyond:
  assumes "PeerState_getVoteBitArray ps (vHeight v) (vRound v) (vType v) = Some a"
    and "BitArray_Size (array_at ps (Some a)) \<le> vValIndex v"
  shows "PeerState_SetHasVote ps v = Ok ps"
  using assms
  by (simp add: PeerState_SetHasVote_def PeerState_setHasVote_def set_bit_def array_at_def BitArray_Size_def
      BitArray_SetIndex_def BitArray_setIndex_def put_array_def)

section \<open>Properties\<close>

text \<open>C27. Starting from the state of a new peer, no sequence of operations on a peer's state panics, and
  every pointer stays valid and every bit array well-formed, as long as the messages passed
  validation and the bit arrays they bring for blocks and proofs-of-lock are well-formed.\<close>

theorem peer_state_safe:
  assumes "\<forall>x\<in>set xs. op_ok x"
  shows "\<exists>ps. peer_run xs NewPeerState = Ok ps \<and> ps_wf ps"
  using peer_run_wf [OF ps_wf_NewPeerState assms] .

definition sample_ops :: "peer_op list" where
  "sample_ops =
     [OpApplyNewRoundStep zero_time \<lparr>nrsHeight = 3, nrsRound = 0, nrsStep = 1, nrsSeconds = 0, nrsLastCommitRound = 1\<rparr>,
      OpEnsureVoteBitArrays 3 4,
      OpApplyHasVote \<lparr>hvHeight = 3, hvRound = 0, hvType = PrecommitType, hvIndex = 2\<rparr>,
      OpApplyNewValidBlock \<lparr>nvbHeight = 3, nvbRound = 0, nvbPSH = \<lparr>phTotal = 2, phHash = []\<rparr>,
        nvbParts = Some \<lparr>Bits = 2, Elems = [1]\<rparr>, nvbIsCommit = False\<rparr>,
      OpSetHasProposalBlockPart 3 0 1]"

theorem peer_state_safe_witness:
  "\<exists>ps. peer_run sample_ops NewPeerState = Ok ps \<and> ps_wf ps"
proof (rule peer_state_safe)
  show "\<forall>x\<in>set sample_ops. op_ok x"
    by (simp add: sample_ops_def MaxVotesCount_def message_validate_defs msg_types IsVoteTypeValid_def BitArray_Size_def
        MaxBlockPartsCount_def MaxBlockSizeBytes_def BlockPartSizeBytes_def wf_ba_def wrong_field_def
        PartSetHeader_ValidateBasic_def ValidateHash_def)
qed

text \<open>C26. Validation is not enough to keep a node from panicking: for every peer at a valid height and round
  and every number of parts a block may have, there is a message announcing a valid block that
  decodes and passes validation, after which recording any part of that block for the peer, as the
  node does when it gossips the part, panics with an index out of range. The message announces a bit
  array without elements, and neither decoding nor validation compares the size of a bit array with
  its elements.\<close>

definition hollow_block :: "int \<Rightarrow> int \<Rightarrow> 32 word \<Rightarrow> NewValidBlockMessage" where
  "hollow_block h r t = \<lparr>nvbHeight = h, nvbRound = r, nvbPSH = \<lparr>phTotal = t, phHash = []\<rparr>,
     nvbParts = Some \<lparr>Bits = uint t, Elems = []\<rparr>, nvbIsCommit = False\<rparr>"

lemma hollow_block_accepted:
  "0 \<le> h \<Longrightarrow> 0 \<le> r \<Longrightarrow> 0 < uint t \<Longrightarrow> uint t \<le> MaxBlockPartsCount \<Longrightarrow>
     MsgFromProto (Some (PNewValidBlock (hollow_block h r t))) = Ok (NewValidBlockMsg (hollow_block h r t))"
  by (simp add: MsgFromProto_def hollow_block_def PartSetHeaderFromProto_def Let_def PartSetHeader_ValidateBasic_def
      ValidateHash_def on_err_def message_validate_defs wrong_field_def BitArray_Size_def)

theorem valid_block_can_panic:
  fixes t :: "32 word"
  assumes "0 \<le> prsHeight (psPRS ps)" "0 \<le> prsRound (psPRS ps)" "0 < uint t" "uint t \<le> MaxBlockPartsCount"
    and "0 \<le> i" "i < uint t"
  shows "\<exists>pb m. MsgFromProto (Some pb) = Ok (NewValidBlockMsg m) \<and>
    PeerState_SetHasProposalBlockPart (PeerState_ApplyNewValidBlockMessage ps m) (prsHeight (psPRS ps)) (prsRound (psPRS ps)) i =
    Panic index_panic"
proof (intro exI conjI)
  let ?m = "hollow_block (prsHeight (psPRS ps)) (prsRound (psPRS ps)) t"
  show "MsgFromProto (Some (PNewValidBlock ?m)) = Ok (NewValidBlockMsg ?m)" using hollow_block_accepted assms(1-4) by simp
  show "PeerState_SetHasProposalBlockPart (PeerState_ApplyNewValidBlockMessage ps ?m) (prsHeight (psPRS ps)) (prsRound (psPRS ps)) i =
    Panic index_panic"
    using assms(5,6)
    by (simp add: PeerState_SetHasProposalBlockPart_def PeerState_setHasProposalBlockPart_def
        PeerState_ApplyNewValidBlockMessage_def Let_def alloc_def hollow_block_def set_bit_def array_at_def
        BitArray_SetIndex_def BitArray_setIndex_def index_at_def)
qed

definition sample_peer :: PeerState where
  "sample_peer = PeerState_ApplyNewRoundStepMessage zero_time NewPeerState
     \<lparr>nrsHeight = 3, nrsRound = 0, nrsStep = 1, nrsSeconds = 0, nrsLastCommitRound = 1\<rparr>"

lemma sample_peer_at: "prsHeight (psPRS sample_peer) = 3" "prsRound (psPRS sample_peer) = 0"
  by (simp_all add: sample_peer_def PeerState_ApplyNewRoundStepMessage_def NewPeerState_def CompareHRS_def Let_def)

theorem valid_block_can_panic_witness:
  "\<exists>pb m. MsgFromProto (Some pb) = Ok (NewValidBlockMsg m) \<and>
    PeerState_SetHasProposalBlockPart (PeerState_ApplyNewValidBlockMessage sample_peer m) 3 0 4 = Panic index_panic"
  using valid_block_can_panic [of sample_peer 5 4]
  by (simp add: sample_peer_at MaxBlockPartsCount_def MaxBlockSizeBytes_def BlockPartSizeBytes_def)

text \<open>C28. A vote that the node picks for a peer is one of the node's votes that the peer is not known to have. Recording
  it as sent makes it known when its index is within the bit array the node keeps for the peer at that height, round and
  type, as it is when that array is as long as the array of the votes. When it is not, recording changes nothing: the
  array can be shorter, because one that a peer sends for a proof-of-lock is kept whatever its size, and then
  the vote can be picked again.\<close>

theorem peer_vote_gossip:
  assumes "ps_wf ps" "PeerState_PickVoteToSend rng ps votes = Ok (Some v, ps')" "reader_coherent votes"
    and "rdSize votes \<le> MaxVotesCount" "opt_wf (rdBits votes)" "BitArray_Size (rdBits votes) \<le> MaxVotesCount"
    and "\<forall>m. 0 < m \<longrightarrow> 0 \<le> rng m \<and> rng m < m"
  shows "peer_knows ps' v = Ok False \<and> 0 \<le> vValIndex v \<and> vValIndex v < BitArray_Size (rdBits votes) \<and>
    (let size = BitArray_Size (array_at ps' (PeerState_getVoteBitArray ps' (vHeight v) (vRound v) (vType v))) in
     (vValIndex v < size \<longrightarrow> (\<exists>ps''. PeerState_SetHasVote ps' v = Ok ps'' \<and> peer_knows ps'' v = Ok True)) \<and>
     (size \<le> vValIndex v \<longrightarrow> PeerState_SetHasVote ps' v = Ok ps'))"
proof -
  obtain n a where na: "PeerState_getVoteBitArray ps' (rdHeight votes) (rdRound votes) (rdType votes) = Some a" "ps_wf ps'"
    "rdVote votes (int n) = Some v" "BitArray_GetIndex (array_at ps' (Some a)) (int n) = Ok False" "int n < BitArray_Size (rdBits votes)"
    using PickVoteToSend_Some [OF assms(2,1,4,5,6)] assms(7) by blast
  then have v: "vHeight v = rdHeight votes" "vRound v = rdRound votes" "vType v = rdType votes" "vValIndex v = int n"
    using assms(3) by (auto simp: reader_coherent_def)
  show ?thesis using na v SetHasVote_known [OF na(2), of v] SetHasVote_beyond [of ps' v a] by (auto simp: peer_knows_def Let_def)
qed

definition sample_vote :: "int \<Rightarrow> Vote" where
  "sample_vote i = \<lparr>vType = PrecommitType, vHeight = 3, vRound = 0, vBlockID = nil_BlockID, vTimestamp = zero_time,
     vValAddr = [], vValIndex = i, vSignature = [], vExtension = [], vExtSig = []\<rparr>"

definition sample_votes :: VoteSetReader where
  "sample_votes = \<lparr>rdHeight = 3, rdRound = 0, rdType = PrecommitType, rdSize = 4,
     rdBits = Some \<lparr>Bits = 4, Elems = [4]\<rparr>, rdVote = (\<lambda>i. Some (sample_vote i)), rdIsCommit = False\<rparr>"

lemma sample_pick: "BitArray_PickRandom (\<lambda>_. 0) (Some \<lparr>Bits = 4, Elems = [4]\<rparr>) = Ok (2, True)"
proof -
  have wf: "wf_ba \<lparr>Bits = 4, Elems = [4]\<rparr>" by (simp add: wf_ba_def)
  have "[0..<4] = [0, 1, 2, 3 :: nat]" by code_simp
  moreover have "bit (4 :: 64 word) 2" "\<not> bit (4 :: 64 word) 0" "\<not> bit (4 :: 64 word) 1" "\<not> bit (4 :: 64 word) 3"
    by code_simp+
  ultimately have "ba_trues \<lparr>Bits = 4, Elems = [4]\<rparr> = [2]" by (simp add: ba_trues_def ba_bit_def)
  then show ?thesis using PickRandom_spec [OF wf, of "\<lambda>_. 0"] by simp
qed

lemma sample_NewBitArray: "NewBitArray 4 = Ok (Some \<lparr>Bits = 4, Elems = [0]\<rparr>)"
  by (simp add: NewBitArray_def words_for_def wrap64_def quot_def make_slice_def)

lemma sample_Sub: "BitArray_Sub (Some \<lparr>Bits = 4, Elems = [4]\<rparr>) (Some \<lparr>Bits = 4, Elems = [0]\<rparr>) = Ok (Some \<lparr>Bits = 4, Elems = [4]\<rparr>)"
  by (simp add: BitArray_Sub_def BitArray_copyBits_def words_for_def wrap64_def quot_def make_slice_def copy_into_def)

definition sample_peer_ready :: PeerState where
  "sample_peer_ready = sample_peer\<lparr>psMem := replicate 4 \<lparr>Bits = 4, Elems = [0]\<rparr>,
     psPRS := (psPRS sample_peer)\<lparr>prsPrevotes := Some 0, prsPrecommits := Some 1, prsCatchup := Some 2, prsPOL := Some 3\<rparr>\<rparr>"

lemma sample_picked:
  "PeerState_PickVoteToSend (\<lambda>_. 0) sample_peer sample_votes = Ok (Some (sample_vote 2), sample_peer_ready)"
  by (simp add: PeerState_PickVoteToSend_def sample_votes_def PeerState_ensureVoteBitArrays_def ensure_array_def new_array_def
      sample_NewBitArray alloc_def sample_peer_ready_def sample_peer_def PeerState_ApplyNewRoundStepMessage_def NewPeerState_def
      CompareHRS_def Let_def PeerState_getVoteBitArray_def IsVoteTypeValid_def msg_types array_at_def sample_Sub sample_pick wrap32_def
      eval_nat_numeral)

theorem peer_vote_gossip_witness:
  "PeerState_PickVoteToSend (\<lambda>_. 0) sample_peer sample_votes = Ok (Some (sample_vote 2), sample_peer_ready) \<and>
   peer_knows sample_peer_ready (sample_vote 2) = Ok False \<and>
   (\<exists>ps''. PeerState_SetHasVote sample_peer_ready (sample_vote 2) = Ok ps'' \<and> peer_knows ps'' (sample_vote 2) = Ok True)"
proof -
  have wf: "ps_wf sample_peer"
    unfolding sample_peer_def by (rule ApplyNewRoundStepMessage_wf [OF ps_wf_NewPeerState])
  have "reader_coherent sample_votes" by (simp add: reader_coherent_def sample_votes_def sample_vote_def)
  moreover have "BitArray_Size (array_at sample_peer_ready (PeerState_getVoteBitArray sample_peer_ready 3 0 PrecommitType)) = 4"
    by (simp add: sample_peer_ready_def sample_peer_def PeerState_ApplyNewRoundStepMessage_def NewPeerState_def CompareHRS_def Let_def
        PeerState_getVoteBitArray_def IsVoteTypeValid_def msg_types array_at_def BitArray_Size_def eval_nat_numeral)
  ultimately show ?thesis
    using wf sample_picked peer_vote_gossip [of sample_peer "\<lambda>_. 0" sample_votes "sample_vote 2" sample_peer_ready]
    by (simp add: sample_votes_def sample_vote_def MaxVotesCount_def wf_ba_def BitArray_Size_def Let_def)
qed

text \<open>
  A peer in round 1 announces a proof-of-lock array of one bit for round 0: the third prevote of round 0 is picked, and
  recording it leaves the state as it was.
\<close>

definition short_pol_peer :: PeerState where
  "short_pol_peer = PeerState_ApplyProposalPOLMessage
     (sample_peer\<lparr>psPRS := (psPRS sample_peer)\<lparr>prsRound := 1, prsPOLRound := 0, prsCatchupRound := -1\<rparr>\<rparr>)
     \<lparr>polHeight = 3, polRound = 0, polBits = Some \<lparr>Bits = 1, Elems = [0]\<rparr>\<rparr>"

lemma short_pol_not_recorded:
  "\<exists>ps'. PeerState_PickVoteToSend (\<lambda>_. 0) short_pol_peer (sample_votes\<lparr>rdType := PrevoteType, rdVote := (\<lambda>i. Some ((sample_vote i)\<lparr>vType := PrevoteType\<rparr>))\<rparr>) =
       Ok (Some ((sample_vote 2)\<lparr>vType := PrevoteType\<rparr>), ps') \<and>
     PeerState_SetHasVote ps' ((sample_vote 2)\<lparr>vType := PrevoteType\<rparr>) = Ok ps'"
proof -
  have "BitArray_Sub (Some \<lparr>Bits = 4, Elems = [4]\<rparr>) (Some \<lparr>Bits = 1, Elems = [0]\<rparr>) = Ok (Some \<lparr>Bits = 4, Elems = [4]\<rparr>)"
    by (simp add: BitArray_Sub_def BitArray_copyBits_def words_for_def wrap64_def quot_def make_slice_def copy_into_def)
  then show ?thesis
    by (simp add: PeerState_PickVoteToSend_def sample_votes_def PeerState_ensureVoteBitArrays_def ensure_array_def new_array_def
      sample_NewBitArray alloc_def short_pol_peer_def sample_peer_def PeerState_ApplyNewRoundStepMessage_def NewPeerState_def
      PeerState_ApplyProposalPOLMessage_def CompareHRS_def Let_def PeerState_getVoteBitArray_def IsVoteTypeValid_def msg_types array_at_def
      sample_pick wrap32_def eval_nat_numeral sample_vote_def PeerState_SetHasVote_def PeerState_setHasVote_def set_bit_def
      BitArray_SetIndex_def BitArray_setIndex_def put_array_def)
qed

end
