(* ===== verification/Go_Text.thy ===== *)
theory Go_Text
  imports Prelude "HOL-Library.Sublist"
begin

text \<open>
  The parts of Go's standard library that the controller mediation uses on text: decimal printing and
  \<^verbatim>\<open>strconv.ParseUint\<close>, \<^verbatim>\<open>hex.DecodeString\<close>, the standard base64 encoding,
  \<^verbatim>\<open>net.SplitHostPort\<close>, big-endian 32-bit integers, and JSON values with the decoding of
  \<^verbatim>\<open>encoding/json\<close> into strings and byte slices. The theory shows the round trips.
\<close>

section \<open>Numbers\<close>

definition digit_char :: "nat \<Rightarrow> char" where
  "digit_char d = char_of (48 + d)"

definition digit_val :: "char \<Rightarrow> nat option" where
  "digit_val c = (let v = of_char c in if 48 \<le> v \<and> v \<le> 57 then Some (v - 48) else None)"

fun dec :: "nat \<Rightarrow> string" where
  "dec n = (if n < 10 then [digit_char n] else dec (n div 10) @ [digit_char (n mod 10)])"

declare dec.simps [simp del]

abbreviation MaxUint64 :: nat where "MaxUint64 \<equiv> 18446744073709551615"

fun parse_digits :: "nat \<Rightarrow> string \<Rightarrow> nat option" where
  "parse_digits n [] = Some n"
| "parse_digits n (c # cs) =
     (case digit_val c of None \<Rightarrow> None
      | Some d \<Rightarrow> if n * 10 + d > MaxUint64 then None else parse_digits (n * 10 + d) cs)"

text \<open>\<^verbatim>\<open>strconv.ParseUint(s, 10, 64)\<close>; None is an error.\<close>

definition ParseUint :: "string \<Rightarrow> nat option" where
  "ParseUint s = (if s = [] then None else parse_digits 0 s)"

lemma digit_val_char [simp]: "d < 10 \<Longrightarrow> digit_val (digit_char d) = Some d"
  by (simp add: digit_val_def digit_char_def of_char_of)

lemma dec_not_Nil [simp]: "dec n \<noteq> []"
  by (subst dec.simps) simp

lemma parse_digits_append:
  "parse_digits n (xs @ ys) = (case parse_digits n xs of None \<Rightarrow> None | Some m \<Rightarrow> parse_digits m ys)"
  by (induction xs arbitrary: n) (auto split: option.splits)

lemma parse_dec: "n \<le> MaxUint64 \<Longrightarrow> parse_digits 0 (dec n) = Some n"
proof (induction n rule: dec.induct)
  case (1 n)
  show ?case
  proof (cases "n < 10")
    case True
    then show ?thesis by (subst dec.simps) simp
  next
    case False
    have "n div 10 \<le> MaxUint64" using "1.prems" by simp
    then have "parse_digits 0 (dec (n div 10)) = Some (n div 10)" using 1 False by blast
    then show ?thesis using False "1.prems" by (subst dec.simps) (simp add: parse_digits_append)
  qed
qed

lemma ParseUint_dec [simp]: "n \<le> MaxUint64 \<Longrightarrow> ParseUint (dec n) = Some n"
  by (simp add: ParseUint_def parse_dec)

lemma dec_length: "n < 10 ^ k \<Longrightarrow> 0 < k \<Longrightarrow> length (dec n) \<le> k"
proof (induction n arbitrary: k rule: dec.induct)
  case (1 n)
  show ?case
  proof (cases "n < 10")
    case True
    then show ?thesis using 1 by (subst dec.simps) simp
  next
    case False
    then obtain j where k: "k = Suc j" "0 < j"
      using 1(2,3) by (cases k; cases "k - 1") auto
    then have "n div 10 < 10 ^ j" using 1(2) by (simp add: less_mult_imp_div_less mult.commute)
    then have "length (dec (n div 10)) \<le> j" using 1(1) False k(2) by blast
    then show ?thesis using False k by (subst dec.simps) simp
  qed
qed

lemma dec_digits: "c \<in> set (dec n) \<Longrightarrow> \<exists>d<10. c = digit_char d"
proof (induction n rule: dec.induct)
  case (1 n)
  then show ?case by (cases "n < 10") (auto simp: dec.simps [of n] intro: exI [of _ "n mod 10"])
qed

lemma dec_inj: "dec m = dec n \<Longrightarrow> m = n"
proof (induction m arbitrary: n rule: dec.induct)
  case (1 m)
  have d: "digit_char a = digit_char b \<Longrightarrow> a < 10 \<Longrightarrow> b < 10 \<Longrightarrow> a = b" for a b
    using digit_val_char by (metis option.inject)
  show ?case
  proof (cases "m < 10")
    case True
    then show ?thesis using 1(2) d [of m n] dec_not_Nil [of "n div 10"]
      by (cases "n < 10") (auto simp: dec.simps [of m] dec.simps [of n])
  next
    case False
    then have n: "\<not> n < 10" using 1(2) by (cases "n < 10") (auto simp: dec.simps [of m] dec.simps [of n])
    then have "dec (m div 10) = dec (n div 10)" "digit_char (m mod 10) = digit_char (n mod 10)"
      using 1(2) False by (auto simp: dec.simps [of m] dec.simps [of n])
    then have "m div 10 = n div 10" "m mod 10 = n mod 10" using 1(1) False d by auto
    then show ?thesis by (metis div_mult_mod_eq)
  qed
qed

section \<open>Hexadecimal\<close>

definition hex_val :: "char \<Rightarrow> nat option" where
  "hex_val c =
     (let v = of_char c in
      if 48 \<le> v \<and> v \<le> 57 then Some (v - 48)
      else if 97 \<le> v \<and> v \<le> 102 then Some (v - 87)
      else if 65 \<le> v \<and> v \<le> 70 then Some (v - 55)
      else None)"

fun hex_decode :: "string \<Rightarrow> bytes outcome" where
  "hex_decode [] = Ok []"
| "hex_decode [a] = Err (ErrNew ''encoding/hex: odd length hex string'')"
| "hex_decode (a # b # r) =
     (case (hex_val a, hex_val b) of
        (Some x, Some y) \<Rightarrow> bindo (hex_decode r) (\<lambda>bs. Ok (of_nat (16 * x + y) # bs))
      | _ \<Rightarrow> Err (ErrNew ''encoding/hex: invalid byte''))"

definition hex_chars :: string where "hex_chars = ''0123456789abcdef''"

definition hex_char :: "nat \<Rightarrow> char" where
  "hex_char d = (if d < 10 then char_of (48 + d) else char_of (87 + d))"

fun hex_encode :: "bytes \<Rightarrow> string" where
  "hex_encode [] = []"
| "hex_encode (b # bs) = hex_char (unat b div 16) # hex_char (unat b mod 16) # hex_encode bs"

lemma hex_val_char [simp]: "d < 16 \<Longrightarrow> hex_val (hex_char d) = Some d"
  by (auto simp: hex_val_def hex_char_def of_char_of)

lemma unat_byte_less: "unat (b :: byte) < 256"
  using unsigned_less [of b] by simp

lemma hex_decode_encode [simp]: "hex_decode (hex_encode bs) = Ok bs"
proof (induction bs)
  case (Cons b bs)
  have "unat b div 16 < 16" using unat_byte_less [of b] by simp
  then show ?case using Cons by simp
qed simp

lemma hex_encode_length [simp]: "length (hex_encode bs) = 2 * length bs"
  by (induction bs) auto

lemma hex_decode_chars: "hex_decode s = Ok bs \<Longrightarrow> c \<in> set s \<Longrightarrow> \<exists>d. hex_val c = Some d"
  by (induction s arbitrary: bs rule: hex_decode.induct) (auto simp: bindo_Ok_iff split: option.splits)

section \<open>Base64\<close>

definition b64_char :: "nat \<Rightarrow> char" where
  "b64_char n =
     (if n < 26 then char_of (65 + n) else if n < 52 then char_of (71 + n)
      else if n < 62 then char_of (n - 4) else if n = 62 then CHR ''+'' else CHR ''/'')"

definition b64_val :: "char \<Rightarrow> nat option" where
  "b64_val c =
     (let v = of_char c in
      if 65 \<le> v \<and> v \<le> 90 then Some (v - 65)
      else if 97 \<le> v \<and> v \<le> 122 then Some (v - 71)
      else if 48 \<le> v \<and> v \<le> 57 then Some (v + 4)
      else if c = CHR ''+'' then Some 62
      else if c = CHR ''/'' then Some 63
      else None)"

fun b64_encode :: "bytes \<Rightarrow> string" where
  "b64_encode [] = []"
| "b64_encode [a] = [b64_char (unat a div 4), b64_char (unat a mod 4 * 16), CHR ''='', CHR ''='']"
| "b64_encode [a, b] =
     [b64_char (unat a div 4), b64_char (unat a mod 4 * 16 + unat b div 16), b64_char (unat b mod 16 * 4), CHR ''='']"
| "b64_encode (a # b # c # r) =
     b64_char (unat a div 4) # b64_char (unat a mod 4 * 16 + unat b div 16) #
     b64_char (unat b mod 16 * 4 + unat c div 64) # b64_char (unat c mod 64) # b64_encode r"

text \<open>
  Decoding skips line breaks, wants padding to a multiple of four, allows padding at the end only, and
  ignores the unused low bits of the last symbol.
\<close>

definition b64_err :: "bytes outcome" where "b64_err = Err (ErrNew ''illegal base64 data'')"

fun b64_quanta :: "string \<Rightarrow> bytes outcome" where
  "b64_quanta [] = Ok []"
| "b64_quanta (w # x # y # z # r) =
     (case (b64_val w, b64_val x) of
        (Some a, Some b) \<Rightarrow>
          if y = CHR ''='' then
            (if z = CHR ''='' \<and> r = [] then Ok [of_nat (a * 4 + b div 16)] else b64_err)
          else (case b64_val y of None \<Rightarrow> b64_err
            | Some c \<Rightarrow>
                if z = CHR ''='' then
                  (if r = [] then Ok [of_nat (a * 4 + b div 16), of_nat (b mod 16 * 16 + c div 4)] else b64_err)
                else (case b64_val z of None \<Rightarrow> b64_err
                  | Some d \<Rightarrow> bindo (b64_quanta r) (\<lambda>bs.
                      Ok (of_nat (a * 4 + b div 16) # of_nat (b mod 16 * 16 + c div 4) # of_nat (c mod 4 * 64 + d) # bs))))
      | _ \<Rightarrow> b64_err)"
| "b64_quanta _ = b64_err"

definition b64_decode :: "string \<Rightarrow> bytes outcome" where
  "b64_decode s = b64_quanta (filter (\<lambda>c. c \<noteq> CHR 0x0A \<and> c \<noteq> CHR 0x0D) s)"

definition EncodedLen :: "nat \<Rightarrow> nat" where
  "EncodedLen n = (n + 2) div 3 * 4"

lemma b64_val_char [simp]: "n < 64 \<Longrightarrow> b64_val (b64_char n) = Some n"
proof -
  assume n: "n < 64"
  consider "n < 26" | "26 \<le> n" "n < 52" | "52 \<le> n" "n < 62" | "n = 62" | "n = 63" using n by linarith
  then show ?thesis by cases (auto simp: b64_val_def b64_char_def of_char_of Let_def)
qed

lemma b64_char_plain:
  assumes "n < 64"
  shows "b64_char n \<noteq> CHR ''=''" "b64_char n \<noteq> CHR 0x0A" "b64_char n \<noteq> CHR 0x0D"
proof -
  have "b64_val (b64_char n) = Some n" using assms by simp
  moreover have "b64_val (CHR ''='') = None" "b64_val (CHR 0x0A) = None" "b64_val (CHR 0x0D) = None"
    by (simp_all add: b64_val_def)
  ultimately show "b64_char n \<noteq> CHR ''=''" "b64_char n \<noteq> CHR 0x0A" "b64_char n \<noteq> CHR 0x0D" by auto
qed

lemma b64_sextets:
  assumes "a < 256" "b < 256" "c < (256 :: nat)"
  shows "a div 4 < 64" "a mod 4 * 16 < 64" "a mod 4 * 16 + b div 16 < 64" "b mod 16 * 4 < 64"
    "b mod 16 * 4 + c div 64 < 64" "c mod 64 < 64"
  using assms by linarith+

lemma low_part: "(y :: nat) < k \<Longrightarrow> (x * k + y) div k = x" "y < k \<Longrightarrow> (x * k + y) mod k = y"
  by simp_all

lemma b64_regroup:
  fixes a b c :: nat
  shows "a div 4 * 4 + a mod 4 * 16 div 16 = a"
    and "b < 256 \<Longrightarrow> a div 4 * 4 + (a mod 4 * 16 + b div 16) div 16 = a"
    and "b < 256 \<Longrightarrow> (a mod 4 * 16 + b div 16) mod 16 * 16 + b mod 16 * 4 div 4 = b"
    and "b < 256 \<Longrightarrow> c < 256 \<Longrightarrow> (a mod 4 * 16 + b div 16) mod 16 * 16 + (b mod 16 * 4 + c div 64) div 4 = b"
    and "c < 256 \<Longrightarrow> (b mod 16 * 4 + c div 64) mod 4 * 64 + c mod 64 = c"
proof -
  have q: "b < 256 \<Longrightarrow> b div 16 < 16" "c < 256 \<Longrightarrow> c div 64 < 4" by auto
  show "a div 4 * 4 + a mod 4 * 16 div 16 = a" by simp
  show "b < 256 \<Longrightarrow> a div 4 * 4 + (a mod 4 * 16 + b div 16) div 16 = a" using q(1) by (simp add: low_part del: div_mult_self3)
  show "b < 256 \<Longrightarrow> (a mod 4 * 16 + b div 16) mod 16 * 16 + b mod 16 * 4 div 4 = b" using q(1) by (simp add: low_part)
  show "b < 256 \<Longrightarrow> c < 256 \<Longrightarrow> (a mod 4 * 16 + b div 16) mod 16 * 16 + (b mod 16 * 4 + c div 64) div 4 = b"
    using q by (simp add: low_part)
  show "c < 256 \<Longrightarrow> (b mod 16 * 4 + c div 64) mod 4 * 64 + c mod 64 = c" using q(2) by (simp add: low_part)
qed

lemma byte_regroup:
  fixes a b c :: byte
  shows "of_nat (unat a div 4 * 4 + unat a mod 4 * 16 div 16) = a"
    and "of_nat (unat a div 4 * 4 + (unat a mod 4 * 16 + unat b div 16) div 16) = a"
    and "of_nat ((unat a mod 4 * 16 + unat b div 16) mod 16 * 16 + unat b mod 16 * 4 div 4) = b"
    and "of_nat ((unat a mod 4 * 16 + unat b div 16) mod 16 * 16 + (unat b mod 16 * 4 + unat c div 64) div 4) = b"
    and "of_nat ((unat b mod 16 * 4 + unat c div 64) mod 4 * 64 + unat c mod 64) = c"
  by (simp_all only: b64_regroup unat_byte_less) simp_all

lemmas b64_eval = b64_encode.simps b64_quanta.simps option.case prod.case bindo.simps simp_thms if_True if_False byte_regroup

lemma b64_quanta_encode: "b64_quanta (b64_encode bs) = Ok bs"
proof (induction bs rule: b64_encode.induct)
  case (2 a)
  note l = b64_sextets [OF unat_byte_less [of a] unat_byte_less [of a] unat_byte_less [of a]]
  show ?case by (simp only: b64_eval l [THEN b64_val_char])
next
  case (3 a b)
  note l = b64_sextets [OF unat_byte_less [of a] unat_byte_less [of b] unat_byte_less [of b]]
  show ?case by (simp only: b64_eval l [THEN b64_val_char] l [THEN b64_char_plain(1)])
next
  case (4 a b c r)
  note l = b64_sextets [OF unat_byte_less [of a] unat_byte_less [of b] unat_byte_less [of c]]
  show ?case by (simp only: b64_eval l [THEN b64_val_char] l [THEN b64_char_plain(1)] 4)
qed simp

lemma b64_encode_plain: "c \<in> set (b64_encode bs) \<Longrightarrow> c \<noteq> CHR 0x0A \<and> c \<noteq> CHR 0x0D"
proof (induction bs rule: b64_encode.induct)
  case (2 a)
  note l = b64_sextets [OF unat_byte_less [of a] unat_byte_less [of a] unat_byte_less [of a]]
  show ?case using 2 l by (auto simp: b64_char_plain)
next
  case (3 a b)
  note l = b64_sextets [OF unat_byte_less [of a] unat_byte_less [of b] unat_byte_less [of b]]
  show ?case using 3 l by (auto simp: b64_char_plain)
next
  case (4 a b c r)
  note l = b64_sextets [OF unat_byte_less [of a] unat_byte_less [of b] unat_byte_less [of c]]
  show ?case using 4 l by (auto simp: b64_char_plain)
qed simp

lemma b64_roundtrip [simp]: "b64_decode (b64_encode bs) = Ok bs"
proof -
  have "filter (\<lambda>c. c \<noteq> CHR 0x0A \<and> c \<noteq> CHR 0x0D) (b64_encode bs) = b64_encode bs"
    by (rule filter_True) (use b64_encode_plain in blast)
  then show ?thesis by (simp add: b64_decode_def b64_quanta_encode)
qed

lemma b64_encode_length [simp]: "length (b64_encode bs) = EncodedLen (length bs)"
proof (induction bs rule: b64_encode.induct)
  case (4 a b c r)
  have "(5 + length r) div 3 = Suc (Suc (length r)) div 3 + 1" by linarith
  then show ?case using 4 by (simp add: EncodedLen_def)
qed (simp_all add: EncodedLen_def)

section \<open>Big-endian integers\<close>

definition PutUint32 :: "32 word \<Rightarrow> bytes" where
  "PutUint32 v = [ucast (drop_bit 24 v), ucast (drop_bit 16 v), ucast (drop_bit 8 v), ucast v]"

definition Uint32 :: "bytes \<Rightarrow> 32 word" where
  "Uint32 b = ucast (b ! 3) OR push_bit 8 (ucast (b ! 2)) OR push_bit 16 (ucast (b ! 1)) OR push_bit 24 (ucast (b ! 0))"

lemma PutUint32_length [simp]: "length (PutUint32 v) = 4"
  by (simp add: PutUint32_def)

lemma Uint32_PutUint32 [simp]: "Uint32 (PutUint32 v @ r) = v"
proof (rule bit_word_eqI)
  fix n assume "n < LENGTH(32)"
  then have "n < 8 \<or> 8 \<le> n \<and> n < 16 \<or> 16 \<le> n \<and> n < 24 \<or> 24 \<le> n \<and> n < 32" by auto
  then show "bit (Uint32 (PutUint32 v @ r)) n = bit v n"
    by (auto simp: Uint32_def PutUint32_def bit_or_iff bit_push_bit_iff bit_ucast_iff bit_drop_bit_eq nth_append)
qed

section \<open>Host and port\<close>

fun index_byte :: "char \<Rightarrow> string \<Rightarrow> int" where
  "index_byte c [] = -1"
| "index_byte c (x # xs) = (if x = c then 0 else let i = index_byte c xs in if i < 0 then -1 else i + 1)"

fun last_index_byte :: "char \<Rightarrow> string \<Rightarrow> int" where
  "last_index_byte c [] = -1"
| "last_index_byte c (x # xs) =
     (let i = last_index_byte c xs in if 0 \<le> i then i + 1 else if x = c then 0 else -1)"

definition SplitHostPort :: "string \<Rightarrow> (string \<times> string) outcome" where
  "SplitHostPort hostport =
     (let i = last_index_byte (CHR '':'') hostport in
      if i < 0 then Err (ErrNew ''missing port in address'')
      else if hostport ! 0 = CHR ''['' then
        (let e = index_byte (CHR '']'') hostport in
         if e < 0 then Err (ErrNew ''missing ']' in address'')
         else if e + 1 = int (length hostport) then Err (ErrNew ''missing port in address'')
         else if e + 1 \<noteq> i then
           (if hostport ! nat (e + 1) = CHR '':'' then Err (ErrNew ''too many colons in address'')
            else Err (ErrNew ''missing port in address''))
         else if 0 \<le> index_byte (CHR ''['') (drop 1 hostport) then Err (ErrNew ''unexpected '[' in address'')
         else if 0 \<le> index_byte (CHR '']'') (drop (nat (e + 1)) hostport) then Err (ErrNew ''unexpected ']' in address'')
         else Ok (take (nat e - 1) (drop 1 hostport), drop (nat i + 1) hostport))
      else
        (let host = take (nat i) hostport in
         if 0 \<le> index_byte (CHR '':'') host then Err (ErrNew ''too many colons in address'')
         else if 0 \<le> index_byte (CHR ''['') hostport then Err (ErrNew ''unexpected '[' in address'')
         else if 0 \<le> index_byte (CHR '']'') hostport then Err (ErrNew ''unexpected ']' in address'')
         else Ok (host, drop (nat i + 1) hostport)))"

section \<open>JSON values\<close>

text \<open>
  A number is its literal. A decoder reads a sequence of values from its input; what follows them is
  the end of the input, a byte that is not JSON, or the limit of the reader.
\<close>

datatype json =
    JNull
  | JBool bool
  | JNum string
  | JStr string
  | JArr "json list"
  | JObj "(string \<times> json) list"

datatype json_rest = JEnd | JSyntaxError | JTooLarge

record json_input =
  jiValues :: "json list"
  jiRest :: json_rest

definition json_eof :: err where "json_eof = ErrNew ''EOF''"
definition json_syntax :: err where "json_syntax = ErrNew ''syntax error''"
definition json_too_large :: err where "json_too_large = ErrNew ''http: request body too large''"

text \<open>\<^verbatim>\<open>Decode(&v)\<close> into an interface: the next value and the input behind it.\<close>

definition json_next :: "json_input \<Rightarrow> (json \<times> json_input) outcome" where
  "json_next inp =
     (case jiValues inp of
        v # vs \<Rightarrow> Ok (v, inp\<lparr>jiValues := vs\<rparr>)
      | [] \<Rightarrow> Err (case jiRest inp of JEnd \<Rightarrow> json_eof | JSyntaxError \<Rightarrow> json_syntax | JTooLarge \<Rightarrow> json_too_large))"

text \<open>
  Into a map: null gives the nil map and the last of equal keys wins. Into a string or a byte slice:
  null leaves the zero value, a byte slice is base64 text or an array of bytes.
\<close>

definition json_map :: "json \<Rightarrow> (string \<times> json) list outcome" where
  "json_map v =
     (case v of JObj kvs \<Rightarrow> Ok kvs | JNull \<Rightarrow> Ok [] | _ \<Rightarrow> Err (ErrNew ''cannot unmarshal into map''))"

definition json_lookup :: "(string \<times> json) list \<Rightarrow> string \<Rightarrow> json option" where
  "json_lookup kvs k = map_of (rev kvs) k"

definition json_keys :: "(string \<times> json) list \<Rightarrow> string list" where
  "json_keys kvs = remdups (map fst kvs)"

definition json_string :: "json \<Rightarrow> string outcome" where
  "json_string v =
     (case v of JStr s \<Rightarrow> Ok s | JNull \<Rightarrow> Ok [] | _ \<Rightarrow> Err (ErrNew ''cannot unmarshal into string''))"

definition json_uint8 :: "json \<Rightarrow> byte outcome" where
  "json_uint8 v =
     (case v of
        JNum s \<Rightarrow> (case ParseUint s of Some n \<Rightarrow> if n < 256 then Ok (of_nat n) else Err (ErrNew ''cannot unmarshal number into uint8'')
                 | None \<Rightarrow> Err (ErrNew ''cannot unmarshal number into uint8''))
      | JNull \<Rightarrow> Ok 0
      | _ \<Rightarrow> Err (ErrNew ''cannot unmarshal into uint8''))"

fun json_array :: "json list \<Rightarrow> bytes outcome" where
  "json_array [] = Ok []"
| "json_array (v # vs) = bindo (json_uint8 v) (\<lambda>b. bindo (json_array vs) (\<lambda>bs. Ok (b # bs)))"

definition json_bytes :: "json \<Rightarrow> bytes outcome" where
  "json_bytes v =
     (case v of JStr s \<Rightarrow> b64_decode s | JNull \<Rightarrow> Ok [] | JArr vs \<Rightarrow> json_array vs
      | _ \<Rightarrow> Err (ErrNew ''cannot unmarshal into []byte''))"

end
