(* ===== verification/Mediation_Codec.thy ===== *)
theory Mediation_Codec
  imports Go_Text Consensus_Wire "HOL-Library.AList"
begin

text \<open>
  The messages of the controller mediation, from \<^verbatim>\<open>node/controller_mediation.go\<close>: the adapter
  payload, the outer JSON object and its strict decoding, identities and message identifiers with
  their counters, and the binding of native messages to labels and channels. JSON is modelled at the
  level of values: an input is the sequence of values its bytes parse to. The theory shows that the
  adapter codec is a bijection with its valid inputs, that the identifiers a node assigns are
  consecutive, distinct and accepted by the destination, and that what a node submits is what the
  destination decodes.
\<close>

section \<open>Channels and labels\<close>

definition StateChannel :: byte where "StateChannel = 0x20"
definition DataChannel :: byte where "DataChannel = 0x21"
definition VoteChannel :: byte where "VoteChannel = 0x22"
definition VoteSetBitsChannel :: byte where "VoteSetBitsChannel = 0x23"
definition SnapshotChannel :: byte where "SnapshotChannel = 0x60"
definition ChunkChannel :: byte where "ChunkChannel = 0x61"

lemmas channel_defs = StateChannel_def DataChannel_def VoteChannel_def VoteSetBitsChannel_def SnapshotChannel_def
  ChunkChannel_def

definition controllerAdapterVersion :: byte where "controllerAdapterVersion = 1"
definition controllerAdapterHeader :: nat where "controllerAdapterHeader = 6"
definition controllerIDMaxBytes :: nat where "controllerIDMaxBytes = 128"
definition IDByteLength :: nat where "IDByteLength = 20"

definition selectedControllerRoutes :: "byte list" where
  "selectedControllerRoutes =
     [StateChannel, DataChannel, VoteChannel, VoteSetBitsChannel, SnapshotChannel, ChunkChannel]"

text \<open>
  An unwrapped protobuf message: one of the consensus reactor, one of the state sync reactor, or one of
  another reactor, of which only the type matters here.
\<close>

datatype native = NCons cons_pb | NSync ss_pb | NOther string

text \<open>\<^verbatim>\<open>selectedMessageBinding\<close> returns a label, a channel and whether the message is selected.\<close>

fun selectedMessageBinding :: "native \<Rightarrow> string \<times> byte \<times> bool" where
  "selectedMessageBinding (NCons (PNewRoundStep _)) = (''NewRoundStep'', StateChannel, True)"
| "selectedMessageBinding (NCons (PNewValidBlock _)) = (''NewValidBlock'', StateChannel, True)"
| "selectedMessageBinding (NCons (PHasVote _)) = (''HasVote'', StateChannel, True)"
| "selectedMessageBinding (NCons (PHasProposalBlockPart _)) = (''HasProposalBlockPart'', StateChannel, True)"
| "selectedMessageBinding (NCons (PVoteSetMaj23 _)) = (''VoteSetMaj23'', StateChannel, True)"
| "selectedMessageBinding (NCons (PProposal _)) = (''Proposal'', DataChannel, True)"
| "selectedMessageBinding (NCons (PProposalPOL _)) = (''ProposalPOL'', DataChannel, True)"
| "selectedMessageBinding (NCons (PBlockPart _)) = (''BlockPart'', DataChannel, True)"
| "selectedMessageBinding (NCons (PVote _)) = (''Vote'', VoteChannel, True)"
| "selectedMessageBinding (NCons (PVoteSetBits _)) = (''VoteSetBits'', VoteSetBitsChannel, True)"
| "selectedMessageBinding (NSync SnapshotsRequest) = (''SnapshotsRequest'', SnapshotChannel, True)"
| "selectedMessageBinding (NSync (SnapshotsResponse _ _ _ _ _)) = (''SnapshotsResponse'', SnapshotChannel, True)"
| "selectedMessageBinding (NSync (ChunkRequest _ _ _)) = (''ChunkRequest'', ChunkChannel, True)"
| "selectedMessageBinding (NSync (ChunkResponse _ _ _ _ _)) = (''ChunkResponse'', ChunkChannel, True)"
| "selectedMessageBinding (NOther _) = ([], 0, False)"

definition Selected :: "byte \<Rightarrow> native \<Rightarrow> bool" where
  "Selected ch message = snd (snd (selectedMessageBinding message))"

definition SelectedRoute :: "byte \<Rightarrow> bool" where
  "SelectedRoute ch = list_ex (\<lambda>selected. ch = selected) selectedControllerRoutes"

fun validateSelectedMessage :: "native \<Rightarrow> unit outcome" where
  "validateSelectedMessage (NCons m) = bindo (MsgFromProto (Some m)) (\<lambda>_. Ok ())"
| "validateSelectedMessage (NSync m) = validateMsg (Some m)"
| "validateSelectedMessage (NOther _) = Err (ErrNew ''unselected native message'')"

section \<open>The adapter payload\<close>

record adapterPayload =
  apVersion :: byte
  apChannelID :: byte
  apWrapped :: bytes

definition encodeAdapterPayload :: "byte \<Rightarrow> bytes \<Rightarrow> bytes outcome" where
  "encodeAdapterPayload ch wrapped =
     (if length wrapped > 0xFFFFFFFF then Err (ErrNew ''native payload length exceeds adapter field'')
      else Ok ([controllerAdapterVersion, ch] @ PutUint32 (of_nat (length wrapped)) @ wrapped))"

definition decodeAdapterPayload :: "bytes \<Rightarrow> adapterPayload outcome" where
  "decodeAdapterPayload data =
     (if length data < controllerAdapterHeader then Err (ErrNew ''adapter payload is truncated'')
      else if data ! 0 \<noteq> controllerAdapterVersion then Err (ErrFmt ''unsupported adapter version'' [uint (data ! 0)])
      else if uint (Uint32 (take 4 (drop 2 data))) \<noteq> int (length data) - int controllerAdapterHeader
        then Err (ErrNew ''adapter payload length mismatch'')
      else Ok \<lparr>apVersion = data ! 0, apChannelID = data ! 1, apWrapped = drop 6 data\<rparr>)"

section \<open>The outer object\<close>

record controllerMessage =
  cmFrom :: string
  cmTo :: string
  cmData :: bytes
  cmType :: string
  cmID :: string

definition empty_message :: controllerMessage where
  "empty_message = \<lparr>cmFrom = [], cmTo = [], cmData = [], cmType = [], cmID = []\<rparr>"

text \<open>
  \<^verbatim>\<open>json.Marshal(item.message)\<close> as a value. Strings are taken as they are: the fields of a message the
  service sends are hexadecimal identifiers, labels and decimal numbers, on which the replacement of invalid UTF-8 by
  \<^verbatim>\<open>json.Marshal\<close> does nothing.
\<close>

definition message_json :: "controllerMessage \<Rightarrow> json" where
  "message_json m =
     JObj [(''From'', JStr (cmFrom m)), (''To'', JStr (cmTo m)), (''Data'', JStr (b64_encode (cmData m))),
           (''Type'', JStr (cmType m)), (''ID'', JStr (cmID m))]"

definition ensureJSONEOF :: "json_input \<Rightarrow> unit outcome" where
  "ensureJSONEOF decoder =
     (case json_next decoder of
        Ok _ \<Rightarrow> Err (ErrNew ''multiple JSON values'')
      | Err e \<Rightarrow> if e = json_eof then Ok () else Err e
      | Panic s \<Rightarrow> Panic s)"

definition required_fields :: "string list" where
  "required_fields = [''From'', ''To'', ''Data'', ''Type'', ''ID'']"

definition json_field :: "(string \<times> json) list \<Rightarrow> string \<Rightarrow> json" where
  "json_field raw k = (case json_lookup raw k of None \<Rightarrow> JNull | Some v \<Rightarrow> v)"

definition decodeControllerMessage :: "json_input \<Rightarrow> controllerMessage outcome" where
  "decodeControllerMessage reader =
     bindo (json_next reader) (\<lambda>(v, decoder).
     bindo (json_map v) (\<lambda>raw.
     bindo (ensureJSONEOF decoder) (\<lambda>_.
     if length (json_keys raw) \<noteq> length required_fields
       then Err (ErrNew ''outer object must contain exactly five fields'')
     else
       bindo (each (\<lambda>name. if json_lookup raw name = None then Err (ErrNew (''missing exact outer field '' @ name)) else Ok ())
                required_fields) (\<lambda>_.
       bindo (json_string (json_field raw ''From'')) (\<lambda>from.
       bindo (json_string (json_field raw ''To'')) (\<lambda>to.
       bindo (json_bytes (json_field raw ''Data'')) (\<lambda>data.
       bindo (json_string (json_field raw ''Type'')) (\<lambda>type.
       bindo (json_string (json_field raw ''ID'')) (\<lambda>mid.
       Ok \<lparr>cmFrom = from, cmTo = to, cmData = data, cmType = type, cmID = mid\<rparr>)))))))))"

section \<open>Identities and identifiers\<close>

definition validateControllerID :: "string \<Rightarrow> unit outcome" where
  "validateControllerID value =
     (if length value \<noteq> IDByteLength * 2 then Err (ErrNew ''source identity has invalid length'')
      else bindo (hex_decode value) (\<lambda>_. Ok ()))"

definition id_prefix :: "string \<Rightarrow> string \<Rightarrow> string" where
  "id_prefix from to = from @ ''_'' @ to @ ''_''"

definition validateControllerMessageID :: "controllerMessage \<Rightarrow> unit outcome" where
  "validateControllerMessageID message =
     (let pre = id_prefix (cmFrom message) (cmTo message);
          counter = drop (length pre) (cmID message)
      in if cmID message = [] \<or> length (cmID message) > controllerIDMaxBytes
           then Err (ErrNew ''message ID is empty or oversized'')
         else if \<not> prefix pre (cmID message) then Err (ErrNew ''message ID does not match From and To'')
         else if counter = [] then Err (ErrNew ''message ID counter is empty'')
         else case ParseUint counter of
             None \<Rightarrow> Err (ErrNew ''message ID counter is invalid'')
           | Some _ \<Rightarrow> Ok ())"

text \<open>The map of counters is an association list without duplicate keys.\<close>

type_synonym counters = "(string \<times> 64 word) list"

definition nextID :: "string \<Rightarrow> int \<Rightarrow> counters \<Rightarrow> string \<Rightarrow> (string \<times> counters) outcome" where
  "nextID localID capacity counters destination =
     (case map_of counters destination of
        None \<Rightarrow>
          if int (length counters) \<ge> capacity then Err (ErrNew ''counter registry exhausted'')
          else Ok (id_prefix localID destination @ dec 0, AList.update destination 1 counters)
      | Some nxt \<Rightarrow>
          if nxt = - 1 then Err (ErrNew ''message counter exhausted'')
          else Ok (id_prefix localID destination @ dec (unat nxt), AList.update destination (nxt + 1) counters))"

section \<open>The adapter codec\<close>

lemma PutUint32_Uint32:
  assumes "length b = 4"
  shows "PutUint32 (Uint32 b) = b"
proof -
  obtain x0 x1 x2 x3 where b: "b = [x0, x1, x2, x3]"
    using assms by (auto simp: length_Suc_conv eval_nat_numeral)
  have "ucast (drop_bit 24 (Uint32 b)) = x0" "ucast (drop_bit 16 (Uint32 b)) = x1"
    "ucast (drop_bit 8 (Uint32 b)) = x2" "ucast (Uint32 b) = x3"
    by (rule bit_word_eqI; auto simp: b Uint32_def bit_ucast_iff bit_drop_bit_eq bit_or_iff bit_push_bit_iff
        dest: bit_imp_le_length)+
  then show ?thesis by (simp add: PutUint32_def b)
qed

lemma uint_of_nat32: "n \<le> 0xFFFFFFFF \<Longrightarrow> uint (of_nat n :: 32 word) = int n"
proof -
  assume "n \<le> 0xFFFFFFFF"
  then have "unat (of_nat n :: 32 word) = n" by (simp add: unat_of_nat)
  then show ?thesis by (metis int_nat_eq uint_ge_0 unat_eq_nat_uint)
qed

lemma encode_shape:
  "encodeAdapterPayload ch w = Ok d \<longleftrightarrow>
     length w \<le> 0xFFFFFFFF \<and> d = [controllerAdapterVersion, ch] @ PutUint32 (of_nat (length w)) @ w"
  by (auto simp: encodeAdapterPayload_def)

lemma decode_encode:
  assumes "encodeAdapterPayload ch w = Ok d"
  shows "decodeAdapterPayload d = Ok \<lparr>apVersion = controllerAdapterVersion, apChannelID = ch, apWrapped = w\<rparr>"
proof -
  have w: "length w \<le> 0xFFFFFFFF" and d: "d = [controllerAdapterVersion, ch] @ PutUint32 (of_nat (length w)) @ w"
    using assms by (simp_all add: encode_shape)
  have "take 4 (drop 2 d) = PutUint32 (of_nat (length w)) @ []" by (simp add: d)
  then have "Uint32 (take 4 (drop 2 d)) = of_nat (length w)" by (simp only: Uint32_PutUint32)
  then show ?thesis using uint_of_nat32 [OF w] by (simp add: decodeAdapterPayload_def d controllerAdapterHeader_def)
qed

lemma encode_decode:
  assumes "decodeAdapterPayload d = Ok p"
  shows "apVersion p = controllerAdapterVersion \<and> encodeAdapterPayload (apChannelID p) (apWrapped p) = Ok d"
proof -
  have len: "6 \<le> length d" and v: "d ! 0 = controllerAdapterVersion"
    and n: "uint (Uint32 (take 4 (drop 2 d))) = int (length d) - 6"
    and p: "p = \<lparr>apVersion = d ! 0, apChannelID = d ! 1, apWrapped = drop 6 d\<rparr>"
    using assms by (auto simp: decodeAdapterPayload_def controllerAdapterHeader_def split: if_splits)
  have "uint (Uint32 (take 4 (drop 2 d))) < 2 ^ 32" using uint_lt2p [of "Uint32 (take 4 (drop 2 d))"] by simp
  then have l: "length d - 6 \<le> 0xFFFFFFFF" using n by simp
  have "int (length d - 6) = uint (Uint32 (take 4 (drop 2 d)))" using n len by simp
  then have "of_nat (length d - 6) = Uint32 (take 4 (drop 2 d))"
    using uint_of_nat32 [OF l] by (simp add: word_uint_eq_iff)
  then have "PutUint32 (of_nat (length d - 6)) = take 4 (drop 2 d)" using len by (simp add: PutUint32_Uint32)
  moreover have "d = [d ! 0, d ! 1] @ take 4 (drop 2 d) @ drop 6 d"
  proof -
    have "take 4 (drop 2 d) @ drop 4 (drop 2 d) = drop 2 d" by (rule append_take_drop_id)
    then have "take 4 (drop 2 d) @ drop 6 d = drop 2 d" by simp
    then have "d = take 2 d @ take 4 (drop 2 d) @ drop 6 d" by (metis append_take_drop_id)
    moreover have "take 2 d = [d ! 0, d ! 1]" using len by (cases d; cases "tl d") (auto simp: eval_nat_numeral)
    ultimately show ?thesis by simp
  qed
  ultimately show ?thesis using v l by (simp add: p encode_shape)
qed

section \<open>Consecutive identifiers\<close>

fun issue :: "string \<Rightarrow> int \<Rightarrow> counters \<Rightarrow> string list \<Rightarrow> (string list \<times> counters) outcome" where
  "issue localID capacity cs [] = Ok ([], cs)"
| "issue localID capacity cs (d # ds) =
     bindo (nextID localID capacity cs d) (\<lambda>(i, cs1).
     bindo (issue localID capacity cs1 ds) (\<lambda>(is, cs2). Ok (i # is, cs2)))"

definition counted :: "counters \<Rightarrow> string list \<Rightarrow> bool" where
  "counted cs ds \<longleftrightarrow> distinct (map fst cs) \<and> fst ` set cs = set ds \<and>
     (\<forall>d\<in>set ds. map_of cs d = Some (of_nat (count_list ds d)))"

lemma counted_length: "counted cs ds \<Longrightarrow> length cs = card (set ds)"
  unfolding counted_def by (metis distinct_card length_map list.set_map)

lemma counted_lookup: "counted cs ds \<Longrightarrow> map_of cs d = (if d \<in> set ds then Some (of_nat (count_list ds d)) else None)"
  by (auto simp: counted_def map_of_eq_None_iff)

lemma count_list_snoc: "count_list (ds @ [d]) e = count_list ds e + (if d = e then 1 else 0)"
  by (induction ds) auto

lemma counted_update:
  assumes "counted cs ds"
  shows "counted (AList.update d (of_nat (count_list ds d + 1)) cs) (ds @ [d])"
  using assms unfolding counted_def
  by (auto simp: update_conv' distinct_update dom_update count_list_snoc image_iff)

lemma nextID_counted:
  assumes "counted cs ds" "int (card (set (ds @ [d]))) \<le> capacity" "length ds < MaxUint64"
  shows "\<exists>cs'. nextID L capacity cs d = Ok (id_prefix L d @ dec (count_list ds d), cs') \<and> counted cs' (ds @ [d])"
proof (cases "d \<in> set ds")
  case True
  let ?n = "of_nat (count_list ds d) :: 64 word"
  have c: "count_list ds d < MaxUint64" using count_le_length [of ds d] assms(3) by simp
  then have u: "unat ?n = count_list ds d" by (simp add: unat_of_nat)
  have "?n \<noteq> - 1"
  proof
    assume "?n = - 1"
    then have "unat ?n = unat (- 1 :: 64 word)" by simp
    then show False using u c by (simp add: unsigned_minus_1_eq_mask mask_eq_exp_minus_1)
  qed
  then show ?thesis using True counted_lookup [OF assms(1), of d] counted_update [OF assms(1), of d] u
    by (simp add: nextID_def add.commute)
next
  case False
  then have "int (length cs) < capacity" using assms(2) counted_length [OF assms(1)] by simp
  then show ?thesis using False counted_lookup [OF assms(1), of d] counted_update [OF assms(1), of d]
    by (simp add: nextID_def)
qed

lemma issue_counted:
  assumes "counted cs ds" "int (card (set (ds @ es))) \<le> capacity" "length (ds @ es) < MaxUint64"
  shows "\<exists>cs'. issue L capacity cs es =
    Ok (map (\<lambda>i. id_prefix L (es ! i) @ dec (count_list (ds @ take i es) (es ! i))) [0..<length es], cs') \<and> counted cs' (ds @ es)"
  using assms
proof (induction es arbitrary: cs ds)
  case (Cons e es)
  have "int (card (set (ds @ [e]))) \<le> int (card (set (ds @ e # es)))" by (intro of_nat_mono card_mono) auto
  then have cap: "int (card (set (ds @ [e]))) \<le> capacity" using Cons.prems(2) by simp
  obtain cs1 where 1: "nextID L capacity cs e = Ok (id_prefix L e @ dec (count_list ds e), cs1)" "counted cs1 (ds @ [e])"
    using nextID_counted [OF Cons.prems(1) cap] Cons.prems(3) by auto
  obtain cs2 where 2: "issue L capacity cs1 es =
      Ok (map (\<lambda>i. id_prefix L (es ! i) @ dec (count_list ((ds @ [e]) @ take i es) (es ! i))) [0..<length es], cs2)"
    "counted cs2 ((ds @ [e]) @ es)"
    using Cons.IH [OF 1(2)] Cons.prems(2,3) by auto
  have "[0..<length (e # es)] = 0 # map Suc [0..<length es]" by (simp only: list.size(4) upt_conv_Cons [OF zero_less_Suc] map_Suc_upt One_nat_def add_Suc_right add_0_right)
  then show ?case using 1 2 by (auto simp: comp_def)
qed (auto simp: counted_def)

lemma validateControllerID_length: "validateControllerID d = Ok () \<Longrightarrow> length d = 40"
  by (simp add: validateControllerID_def IDByteLength_def split: if_splits)

lemma id_inj:
  assumes "length d = length e" "id_prefix L d @ dec m = id_prefix L e @ dec n"
  shows "d = e \<and> m = n"
  using assms dec_inj by (auto simp: id_prefix_def)

lemma id_valid:
  assumes "length (cmFrom x) = 40" "length (cmTo x) = 40" "cmID x = id_prefix (cmFrom x) (cmTo x) @ dec n" "n \<le> MaxUint64"
  shows "validateControllerMessageID x = Ok ()"
proof -
  have "length (dec n) \<le> 20" using assms(4) by (intro dec_length) simp_all
  then show ?thesis
    using assms by (simp add: validateControllerMessageID_def Let_def id_prefix_def controllerIDMaxBytes_def)
qed

lemma count_take_less:
  assumes "i < j" "j < length ds" "ds ! i = ds ! j"
  shows "count_list (take i ds) (ds ! i) < count_list (take j ds) (ds ! j)"
proof -
  have "take j ds = take (Suc i) ds @ take (j - Suc i) (drop (Suc i) ds)" using assms(1)
    by (metis Suc_leI le_add_diff_inverse take_add)
  moreover have "take (Suc i) ds = take i ds @ [ds ! i]" using assms by (simp add: take_Suc_conv_app_nth)
  ultimately show ?thesis using assms(3) by (simp add: count_list_append)
qed

section \<open>Properties\<close>

text \<open>C12. The adapter codec is exact: a payload is accepted precisely when it is the encoding of the channel
  and the native bytes that decoding returns, under version one. In particular decoding inverts
  encoding, no two payloads decode alike, and truncated or extended payloads are rejected.\<close>

theorem adapter_codec_exact:
  "decodeAdapterPayload d = Ok p \<longleftrightarrow>
     apVersion p = controllerAdapterVersion \<and> encodeAdapterPayload (apChannelID p) (apWrapped p) = Ok d"
  using encode_decode [of d p] decode_encode [of "apChannelID p" "apWrapped p" d] by (cases p) auto

text \<open>C9. The identifiers a node assigns to a sequence of submissions are, for each destination, numbered
  consecutively from zero; all of them are distinct, and each is accepted by the check the
  destination makes.\<close>

theorem message_ids_consecutive:
  assumes "validateControllerID L = Ok ()" "\<forall>d\<in>set ds. validateControllerID d = Ok ()"
    and "int (card (set ds)) \<le> capacity" "length ds < MaxUint64"
  shows "\<exists>ids cs. issue L capacity [] ds = Ok (ids, cs) \<and> length ids = length ds \<and> distinct ids \<and>
    (\<forall>i<length ds. ids ! i = id_prefix L (ds ! i) @ dec (count_list (take i ds) (ds ! i)) \<and>
       validateControllerMessageID \<lparr>cmFrom = L, cmTo = ds ! i, cmData = payload, cmType = label, cmID = ids ! i\<rparr> = Ok ())"
proof -
  let ?id = "\<lambda>i. id_prefix L (ds ! i) @ dec (count_list (take i ds) (ds ! i))"
  have "counted [] []" by (simp add: counted_def)
  from issue_counted [OF this, of ds capacity L] assms(3,4)
  obtain cs where cs: "issue L capacity [] ds = Ok (map ?id [0..<length ds], cs)" unfolding append_Nil by blast
  have len: "length (ds ! i) = 40" if "i < length ds" for i using assms(2) that validateControllerID_length by simp
  have ne: "?id i \<noteq> ?id j" if "i < j" "j < length ds" for i j
  proof
    assume "?id i = ?id j"
    then have "ds ! i = ds ! j \<and> count_list (take i ds) (ds ! i) = count_list (take j ds) (ds ! j)"
      using len [of i] len [of j] that by (intro id_inj) auto
    then show False using count_take_less [OF that] by auto
  qed
  have "inj_on ?id {0..<length ds}"
    by (rule inj_onI) (metis atLeastLessThan_iff linorder_neq_iff ne)
  then have "distinct (map ?id [0..<length ds])" by (simp add: distinct_map)
  moreover have "validateControllerMessageID \<lparr>cmFrom = L, cmTo = ds ! i, cmData = payload, cmType = label, cmID = ?id i\<rparr> = Ok ()"
    if "i < length ds" for i
  proof (rule id_valid)
    show "count_list (take i ds) (ds ! i) \<le> MaxUint64" using count_le_length [of "take i ds" "ds ! i"] assms(4) by simp
  qed (use that len validateControllerID_length [OF assms(1)] in simp_all)
  ultimately show ?thesis using cs by (intro exI [of _ "map ?id [0..<length ds]"] exI [of _ cs]) simp
qed

definition sample_id :: string where "sample_id = replicate 40 (CHR ''a'')"
definition other_id :: string where "other_id = replicate 40 (CHR ''b'')"

lemma hex_replicate: "hex_val c = Some x \<Longrightarrow> \<exists>bs. hex_decode (replicate (2 * n) c) = Ok bs"
  by (induction n) auto

lemma sample_ids_valid: "validateControllerID sample_id = Ok ()" "validateControllerID other_id = Ok ()"
proof -
  have "hex_val (CHR ''a'') = Some 10" "hex_val (CHR ''b'') = Some 11" by (simp_all add: hex_val_def)
  then obtain x y where "hex_decode sample_id = Ok x" "hex_decode other_id = Ok y"
    using hex_replicate [of "CHR ''a''" 10 20] hex_replicate [of "CHR ''b''" 11 20]
    by (auto simp: sample_id_def other_id_def)
  then show "validateControllerID sample_id = Ok ()" "validateControllerID other_id = Ok ()"
    by (simp_all add: validateControllerID_def IDByteLength_def sample_id_def other_id_def)
qed

theorem message_ids_consecutive_witness:
  "\<exists>ids cs. issue sample_id 1 [] [other_id, other_id] = Ok (ids, cs) \<and> distinct ids \<and>
     ids ! 1 = id_prefix sample_id other_id @ dec 1"
proof -
  let ?ds = "[other_id, other_id]"
  have "\<forall>d\<in>set ?ds. validateControllerID d = Ok ()" using sample_ids_valid by simp
  then obtain ids cs where 1: "issue sample_id 1 [] ?ds = Ok (ids, cs)" "distinct ids"
    "\<forall>i<length ?ds. ids ! i = id_prefix sample_id (?ds ! i) @ dec (count_list (take i ?ds) (?ds ! i)) \<and>
       validateControllerMessageID \<lparr>cmFrom = sample_id, cmTo = ?ds ! i, cmData = [], cmType = [], cmID = ids ! i\<rparr> = Ok ()"
    using message_ids_consecutive [of sample_id ?ds 1 "[]" "[]"] sample_ids_valid(1) by (auto simp del: dec.simps)
  have "ids ! 1 = id_prefix sample_id other_id @ dec 1" using 1(3) [rule_format, of 1] by simp
  with 1 show ?thesis by blast
qed

lemma decode_message_json: "decodeControllerMessage \<lparr>jiValues = [message_json m], jiRest = JEnd\<rparr> = Ok m"
  by (cases m) (simp add: decodeControllerMessage_def message_json_def json_next_def json_map_def ensureJSONEOF_def
      json_keys_def required_fields_def json_lookup_def json_field_def json_string_def json_bytes_def)

text \<open>C13. The outer object survives transport, and decoding is strict: the object a node submits decodes at
  the destination to the message it was made from, and whatever decodes is a single JSON object, with
  nothing behind it, whose member names are exactly the five of the contract.\<close>

theorem outer_object_strict:
  "decodeControllerMessage \<lparr>jiValues = [message_json m], jiRest = JEnd\<rparr> = Ok m \<and>
   (decodeControllerMessage inp = Ok x \<longrightarrow>
      (\<exists>kvs. jiValues inp = [JObj kvs] \<and> jiRest inp = JEnd \<and> fst ` set kvs = set required_fields))"
proof (intro conjI impI)
  show "decodeControllerMessage \<lparr>jiValues = [message_json m], jiRest = JEnd\<rparr> = Ok m"
    by (rule decode_message_json)
next
  assume "decodeControllerMessage inp = Ok x"
  then obtain v inp' raw where 1: "json_next inp = Ok (v, inp')" "json_map v = Ok raw" "ensureJSONEOF inp' = Ok ()"
    "length (json_keys raw) = 5" "\<forall>k\<in>set required_fields. json_lookup raw k \<noteq> None"
    by (auto simp: decodeControllerMessage_def bindo_Ok_iff each_Ok_iff required_fields_def split: if_splits)
  obtain vs where vs: "jiValues inp = v # vs" "inp' = inp\<lparr>jiValues := vs\<rparr>"
    using 1(1) by (auto simp: json_next_def split: list.splits)
  have "vs = [] \<and> jiRest inp = JEnd"
    using 1(3) vs(2) by (auto simp: ensureJSONEOF_def json_next_def json_eof_def json_syntax_def json_too_large_def
        split: list.splits outcome.splits if_splits json_rest.splits)
  moreover obtain kvs where "v = JObj kvs" "raw = kvs"
    using 1(2,4) by (cases v) (auto simp: json_map_def json_keys_def)
  moreover have "fst ` set raw = set required_fields"
  proof (rule sym, rule card_subset_eq)
    show "set required_fields \<subseteq> fst ` set raw" using 1(5) by (fastforce simp: json_lookup_def map_of_eq_None_iff)
    have "card (fst ` set raw) = 5" using 1(4) by (simp add: json_keys_def length_remdups_card_conv)
    then show "card (set required_fields) = card (fst ` set raw)" by (simp add: required_fields_def)
  qed simp
  ultimately show "\<exists>kvs. jiValues inp = [JObj kvs] \<and> jiRest inp = JEnd \<and> fst ` set kvs = set required_fields" using vs by auto
qed

definition sample_message :: controllerMessage where
  "sample_message = \<lparr>cmFrom = sample_id, cmTo = other_id, cmData = [1, 0x22, 0, 0, 0, 1, 7], cmType = ''Vote'',
     cmID = id_prefix sample_id other_id @ dec 0\<rparr>"

theorem outer_object_strict_witness:
  "\<exists>kvs. [message_json sample_message] = [JObj kvs] \<and> fst ` set kvs = set required_fields"
  using outer_object_strict [of sample_message "\<lparr>jiValues = [message_json sample_message], jiRest = JEnd\<rparr>" sample_message]
  by simp

end
