(* ===== verification/Native_Routes.thy ===== *)
theory Native_Routes
  imports Mediation_Codec
begin

text \<open>
  The boundary between the ordinary P2P stack and the mediation: the frozen registry of native routes
  in \<^verbatim>\<open>p2p/controller_mediation.go\<close>, the channel tables of the switch in
  \<^verbatim>\<open>p2p/switch.go\<close>, the channels of the two reactors whose messages are selected, and the send and
  receive paths of a peer in \<^verbatim>\<open>p2p/peer.go\<close>. Reactors are values of a type variable. The generated
  \<^verbatim>\<open>Marshal\<close> and \<^verbatim>\<open>Unmarshal\<close> are parameters. A send or receive is described by the call
  it makes. The theory shows that every selected channel is bound to its reactor with the capacity that reactor declares;
  what a mediated peer does with selected messages is shown in \<open>Mediation_Flow\<close>, with the service that takes them.
\<close>

section \<open>Decoding\<close>

datatype prototype = PtConsensus | PtStateSync | PtOther string

datatype wrapped_msg = WCons cons_wrapped | WSync ss_wrapped | WOther string

fun unwrap_msg :: "wrapped_msg \<Rightarrow> native outcome" where
  "unwrap_msg (WCons m) = bindo (on_err (ErrWrap ''unwrapping message'') (cons_Unwrap m)) (\<lambda>x. Ok (NCons x))"
| "unwrap_msg (WSync m) = bindo (on_err (ErrWrap ''unwrapping message'') (ss_Unwrap m)) (\<lambda>x. Ok (NSync x))"
| "unwrap_msg (WOther s) = Ok (NOther s)"

fun wrap_msg :: "native \<Rightarrow> wrapped_msg" where
  "wrap_msg (NCons m) = WCons (cons_Wrap m)"
| "wrap_msg (NSync m) = WSync (ss_Wrap m)"
| "wrap_msg (NOther s) = WOther s"

type_synonym unmarshaller = "prototype \<Rightarrow> bytes \<Rightarrow> wrapped_msg outcome"

definition decodeNativeMessage :: "unmarshaller \<Rightarrow> prototype option \<Rightarrow> bytes \<Rightarrow> native outcome" where
  "decodeNativeMessage unm pt wrapped =
     (case pt of None \<Rightarrow> Err (ErrNew ''nil message prototype'')
      | Some p \<Rightarrow> bindo (on_err (ErrWrap ''unmarshaling message'') (unm p wrapped)) unwrap_msg)"

section \<open>Channels\<close>

record ChannelDescriptor =
  cdID :: byte
  cdPriority :: int
  cdSendQueueCapacity :: int
  cdRecvBufferCapacity :: int
  cdRecvMessageCapacity :: int
  cdMessageType :: "prototype option"

definition FillDefaults :: "ChannelDescriptor \<Rightarrow> ChannelDescriptor" where
  "FillDefaults d =
     (let d1 = (if cdSendQueueCapacity d = 0 then d\<lparr>cdSendQueueCapacity := 1\<rparr> else d);
          d2 = (if cdRecvBufferCapacity d1 = 0 then d1\<lparr>cdRecvBufferCapacity := 4096\<rparr> else d1)
      in if cdRecvMessageCapacity d2 = 0 then d2\<lparr>cdRecvMessageCapacity := 22020096\<rparr> else d2)"

definition maxMsgSize :: int where "maxMsgSize = 1048576"

definition consensus_GetChannels :: "ChannelDescriptor list" where
  "consensus_GetChannels =
     [\<lparr>cdID = StateChannel, cdPriority = 6, cdSendQueueCapacity = 100, cdRecvBufferCapacity = 0,
       cdRecvMessageCapacity = maxMsgSize, cdMessageType = Some PtConsensus\<rparr>,
      \<lparr>cdID = DataChannel, cdPriority = 10, cdSendQueueCapacity = 100, cdRecvBufferCapacity = 50 * 4096,
       cdRecvMessageCapacity = maxMsgSize, cdMessageType = Some PtConsensus\<rparr>,
      \<lparr>cdID = VoteChannel, cdPriority = 7, cdSendQueueCapacity = 100, cdRecvBufferCapacity = 100 * 100,
       cdRecvMessageCapacity = maxMsgSize, cdMessageType = Some PtConsensus\<rparr>,
      \<lparr>cdID = VoteSetBitsChannel, cdPriority = 1, cdSendQueueCapacity = 2, cdRecvBufferCapacity = 1024,
       cdRecvMessageCapacity = maxMsgSize, cdMessageType = Some PtConsensus\<rparr>]"

definition statesync_GetChannels :: "ChannelDescriptor list" where
  "statesync_GetChannels =
     [\<lparr>cdID = SnapshotChannel, cdPriority = 5, cdSendQueueCapacity = 10, cdRecvBufferCapacity = 0,
       cdRecvMessageCapacity = snapshotMsgSize, cdMessageType = Some PtStateSync\<rparr>,
      \<lparr>cdID = ChunkChannel, cdPriority = 3, cdSendQueueCapacity = 10, cdRecvBufferCapacity = 0,
       cdRecvMessageCapacity = chunkMsgSize, cdMessageType = Some PtStateSync\<rparr>]"

section \<open>The switch\<close>

record 'r Switch =
  swReactors :: "(string \<times> 'r) list"
  swChDescs :: "ChannelDescriptor list"
  swReactorsByCh :: "byte \<rightharpoonup> 'r"
  swMsgTypeByChID :: "byte \<rightharpoonup> prototype"

definition NewSwitch :: "'r Switch" where
  "NewSwitch = \<lparr>swReactors = [], swChDescs = [], swReactorsByCh = Map.empty, swMsgTypeByChID = Map.empty\<rparr>"

fun add_channels :: "'r Switch \<Rightarrow> 'r \<Rightarrow> ChannelDescriptor list \<Rightarrow> 'r Switch outcome" where
  "add_channels sw reactor [] = Ok sw"
| "add_channels sw reactor (d # ds) =
     (if swReactorsByCh sw (cdID d) \<noteq> None then Panic ''Channel has multiple reactors''
      else add_channels
        (sw\<lparr>swChDescs := swChDescs sw @ [d],
            swReactorsByCh := (swReactorsByCh sw)(cdID d \<mapsto> reactor),
            swMsgTypeByChID := (swMsgTypeByChID sw)(cdID d := cdMessageType d)\<rparr>) reactor ds)"

definition AddReactor :: "'r Switch \<Rightarrow> string \<Rightarrow> 'r \<Rightarrow> ChannelDescriptor list \<Rightarrow> 'r Switch outcome" where
  "AddReactor sw name reactor chans =
     bindo (add_channels sw reactor chans) (\<lambda>sw'.
     Ok (sw'\<lparr>swReactors := AList.update name reactor (swReactors sw')\<rparr>))"

fun remove_desc :: "byte \<Rightarrow> ChannelDescriptor list \<Rightarrow> ChannelDescriptor list" where
  "remove_desc ch [] = []"
| "remove_desc ch (d # ds) = (if ch = cdID d then ds else d # remove_desc ch ds)"

definition RemoveReactor :: "'r Switch \<Rightarrow> string \<Rightarrow> ChannelDescriptor list \<Rightarrow> 'r Switch" where
  "RemoveReactor sw name chans =
     (let sw' = foldl (\<lambda>s d. s\<lparr>swChDescs := remove_desc (cdID d) (swChDescs s),
                             swReactorsByCh := (swReactorsByCh s)(cdID d := None),
                             swMsgTypeByChID := (swMsgTypeByChID s)(cdID d := None)\<rparr>) sw chans
      in sw'\<lparr>swReactors := AList.delete name (swReactors sw')\<rparr>)"

section \<open>The registry\<close>

record 'r NativeRoute =
  nrChannelID :: byte
  nrReceiveCapacity :: int
  nrPrototype :: "prototype option"
  nrReactor :: "'r option"

type_synonym 'r registry = "(byte \<times> 'r NativeRoute) list"

fun find_capacity :: "byte \<Rightarrow> ChannelDescriptor list \<Rightarrow> int" where
  "find_capacity ch [] = 0"
| "find_capacity ch (d # ds) = (if cdID d = ch then cdRecvMessageCapacity (FillDefaults d) else find_capacity ch ds)"

fun freeze_loop :: "'r Switch \<Rightarrow> byte list \<Rightarrow> 'r registry \<Rightarrow> 'r registry outcome" where
  "freeze_loop sw [] routes = Ok routes"
| "freeze_loop sw (ch # chs) routes =
     (if map_of routes ch \<noteq> None then Err (ErrFmt ''duplicate selected channel'' [uint ch])
      else case (swMsgTypeByChID sw ch, swReactorsByCh sw ch) of
          (Some pt, Some reactor) \<Rightarrow>
            (let capacity = find_capacity ch (swChDescs sw) in
             if capacity \<le> 0 then Err (ErrFmt ''selected channel has no receive capacity'' [uint ch])
             else freeze_loop sw chs
               (routes @ [(ch, \<lparr>nrChannelID = ch, nrReceiveCapacity = capacity, nrPrototype = Some pt, nrReactor = Some reactor\<rparr>)]))
        | _ \<Rightarrow> Err (ErrFmt ''selected channel has incomplete native binding'' [uint ch]))"

definition FreezeNativeRoutes :: "'r Switch \<Rightarrow> byte list \<Rightarrow> 'r registry outcome" where
  "FreezeNativeRoutes sw selected = freeze_loop sw selected []"

definition Routes :: "'r registry \<Rightarrow> byte list" where
  "Routes r = sort (map fst r)"

definition ReceiveCapacity :: "'r registry \<Rightarrow> byte \<Rightarrow> int \<times> bool" where
  "ReceiveCapacity r ch = (case map_of r ch of None \<Rightarrow> (0, False) | Some route \<Rightarrow> (nrReceiveCapacity route, True))"

definition Decode :: "unmarshaller \<Rightarrow> 'r registry \<Rightarrow> byte \<Rightarrow> bytes \<Rightarrow> native outcome" where
  "Decode unm r ch wrapped =
     (case map_of r ch of None \<Rightarrow> Err (ErrFmt ''unknown mediated channel'' [uint ch])
      | Some route \<Rightarrow> decodeNativeMessage unm (nrPrototype route) wrapped)"

text \<open>
  \<open>receive\<close> is the reactor's \<^verbatim>\<open>Receive\<close>: None when it returns, Some text when it panics. The
  result is the error, and whether the peer was reported to the switch.
\<close>

definition Dispatch ::
    "('r \<Rightarrow> byte \<Rightarrow> 'p \<Rightarrow> native \<Rightarrow> string option) \<Rightarrow> 'r registry \<Rightarrow> byte \<Rightarrow> 'p \<Rightarrow> native \<Rightarrow> unit outcome \<times> 'p option" where
  "Dispatch receive r ch source message =
     (case map_of r ch of
        None \<Rightarrow> (Err (ErrFmt ''missing mediated route'' [uint ch]), None)
      | Some route \<Rightarrow>
          (case nrReactor route of
             None \<Rightarrow> (Err (ErrFmt ''missing mediated route'' [uint ch]), None)
           | Some reactor \<Rightarrow>
               (case receive reactor ch source message of
                  None \<Rightarrow> (Ok (), None)
                | Some recovered \<Rightarrow> (Err (ErrNew (''native reactor panic: '' @ recovered)), Some source))))"

section \<open>The peer\<close>

datatype SendMode = SendModeBlocking | SendModeNonBlocking

text \<open>
  What \<^verbatim>\<open>send\<close> does with a message: nothing, panic in the encoder, hand it to the ordinary transport, hand it to the
  mediation, or report to the mediation that it could not be encoded.
\<close>

datatype send_call =
    SendNone
  | SendPanic string
  | SendDirect byte bytes SendMode
  | SendSubmit string byte native bytes SendMode
  | SendInvariant err

record peer_conn =
  pcID :: string
  pcRunning :: bool
  pcChannels :: "byte list"
  pcMediated :: bool

definition hasChannel :: "peer_conn \<Rightarrow> byte \<Rightarrow> bool" where
  "hasChannel p ch = list_ex (\<lambda>c. c = ch) (pcChannels p)"

definition peer_send :: "(wrapped_msg \<Rightarrow> bytes outcome) \<Rightarrow> peer_conn \<Rightarrow> byte \<Rightarrow> native \<Rightarrow> SendMode \<Rightarrow> send_call" where
  "peer_send mar p ch msg mode =
     (if \<not> pcRunning p then SendNone
      else if \<not> hasChannel p ch then SendNone
      else
        let selected = (pcMediated p \<and> Selected ch msg) in
        case mar (wrap_msg msg) of
          Ok msgBytes \<Rightarrow> if selected then SendSubmit (pcID p) ch msg msgBytes mode else SendDirect ch msgBytes mode
        | Err e \<Rightarrow> if selected then SendInvariant (ErrWrap ''encoding selected channel'' e) else SendNone
        | Panic s \<Rightarrow> SendPanic s)"

definition peer_Send :: "(wrapped_msg \<Rightarrow> bytes outcome) \<Rightarrow> peer_conn \<Rightarrow> byte \<Rightarrow> native \<Rightarrow> send_call" where
  "peer_Send mar p ch msg = peer_send mar p ch msg SendModeBlocking"

definition peer_TrySend :: "(wrapped_msg \<Rightarrow> bytes outcome) \<Rightarrow> peer_conn \<Rightarrow> byte \<Rightarrow> native \<Rightarrow> send_call" where
  "peer_TrySend mar p ch msg = peer_send mar p ch msg SendModeNonBlocking"

datatype 'r recv_call = RecvRejected | RecvPanic string | RecvDeliver 'r byte native

definition onReceive ::
    "unmarshaller \<Rightarrow> (byte \<rightharpoonup> 'r) \<Rightarrow> (byte \<rightharpoonup> prototype) \<Rightarrow> peer_conn \<Rightarrow> byte \<Rightarrow> bytes \<Rightarrow> 'r recv_call" where
  "onReceive unm reactorsByCh msgTypeByChID p ch msgBytes =
     (if pcMediated p \<and> SelectedRoute ch then RecvRejected
      else case reactorsByCh ch of
          None \<Rightarrow> RecvPanic ''Unknown channel''
        | Some reactor \<Rightarrow>
            (case msgTypeByChID ch of
               None \<Rightarrow> RecvPanic ''unmarshaling message''
             | Some mt \<Rightarrow>
                 (case unm mt msgBytes of
                    Ok w \<Rightarrow> (case unwrap_msg w of Ok msg \<Rightarrow> RecvDeliver reactor ch msg
                              | _ \<Rightarrow> RecvPanic ''unwrapping message'')
                  | _ \<Rightarrow> RecvPanic ''unmarshaling message'')))"

section \<open>Binding the selected channels\<close>

definition sw_ok :: "'r Switch \<Rightarrow> bool" where
  "sw_ok sw \<longleftrightarrow> distinct (map cdID (swChDescs sw)) \<and>
     (\<forall>ch. swReactorsByCh sw ch \<noteq> None \<longleftrightarrow> ch \<in> cdID ` set (swChDescs sw)) \<and>
     (\<forall>d\<in>set (swChDescs sw). swMsgTypeByChID sw (cdID d) = cdMessageType d)"

lemma sw_ok_New [simp]: "sw_ok NewSwitch"
  by (simp add: sw_ok_def NewSwitch_def)

lemma add_channels_ok:
  assumes "add_channels sw r ds = Ok sw'" "sw_ok sw"
  shows "sw_ok sw' \<and> set (swChDescs sw') = set (swChDescs sw) \<union> set ds \<and>
    (\<forall>d\<in>set ds. swReactorsByCh sw' (cdID d) = Some r) \<and>
    (\<forall>ch x. swReactorsByCh sw ch = Some x \<longrightarrow> swReactorsByCh sw' ch = Some x)"
  using assms
proof (induction ds arbitrary: sw)
  case (Cons d ds)
  let ?sw = "sw\<lparr>swChDescs := swChDescs sw @ [d], swReactorsByCh := (swReactorsByCh sw)(cdID d \<mapsto> r),
     swMsgTypeByChID := (swMsgTypeByChID sw)(cdID d := cdMessageType d)\<rparr>"
  have new: "swReactorsByCh sw (cdID d) = None" and rest: "add_channels ?sw r ds = Ok sw'"
    using Cons.prems(1) by (auto split: if_splits)
  have fresh: "cdID d \<notin> cdID ` set (swChDescs sw)" using new Cons.prems(2) unfolding sw_ok_def by blast
  then have "\<forall>x\<in>set (swChDescs sw). cdID x \<noteq> cdID d" by (metis imageI)
  then have "sw_ok ?sw" using Cons.prems(2) fresh by (auto simp: sw_ok_def)
  from Cons.IH [OF rest this]
  have ih: "sw_ok sw'" "set (swChDescs sw') = set (swChDescs ?sw) \<union> set ds" "\<forall>x\<in>set ds. swReactorsByCh sw' (cdID x) = Some r"
    "\<forall>ch x. swReactorsByCh ?sw ch = Some x \<longrightarrow> swReactorsByCh sw' ch = Some x" by blast+
  have "swReactorsByCh sw' (cdID d) = Some r" using ih(4) by simp
  moreover have "swReactorsByCh sw' ch = Some x" if "swReactorsByCh sw ch = Some x" for ch x
    using ih(4) [rule_format, of ch x] that new by (cases "ch = cdID d") auto
  ultimately show ?case using ih by auto
qed simp

fun add_reactors :: "'r Switch \<Rightarrow> (string \<times> 'r \<times> ChannelDescriptor list) list \<Rightarrow> 'r Switch outcome" where
  "add_reactors sw [] = Ok sw"
| "add_reactors sw ((name, r, ds) # rs) = bindo (AddReactor sw name r ds) (\<lambda>sw'. add_reactors sw' rs)"

lemma add_reactors_ok:
  assumes "add_reactors sw rs = Ok sw'" "sw_ok sw"
  shows "sw_ok sw' \<and> set (swChDescs sw) \<subseteq> set (swChDescs sw') \<and>
    (\<forall>ch x. swReactorsByCh sw ch = Some x \<longrightarrow> swReactorsByCh sw' ch = Some x) \<and>
    (\<forall>(name, r, ds)\<in>set rs. \<forall>d\<in>set ds. d \<in> set (swChDescs sw') \<and> swReactorsByCh sw' (cdID d) = Some r)"
  using assms
proof (induction rs arbitrary: sw)
  case (Cons x rs)
  obtain name r ds where x: "x = (name, r, ds)" by (cases x)
  obtain sw1 where 1: "add_channels sw r ds = Ok sw1"
    "add_reactors (sw1\<lparr>swReactors := AList.update name r (swReactors sw1)\<rparr>) rs = Ok sw'"
    using Cons.prems(1) by (auto simp: x AddReactor_def bindo_Ok_iff)
  note a = add_channels_ok [OF 1(1) Cons.prems(2)]
  have "sw_ok (sw1\<lparr>swReactors := AList.update name r (swReactors sw1)\<rparr>)" using a by (simp add: sw_ok_def)
  from Cons.IH [OF 1(2) this] a show ?case by (auto simp: x)
qed simp

lemma find_capacity_member:
  "distinct (map cdID ds) \<Longrightarrow> d \<in> set ds \<Longrightarrow> find_capacity (cdID d) ds = cdRecvMessageCapacity (FillDefaults d)"
  by (induction ds) (auto simp: image_iff)

definition frozen_route :: "'r Switch \<Rightarrow> byte \<Rightarrow> 'r NativeRoute" where
  "frozen_route sw ch = \<lparr>nrChannelID = ch, nrReceiveCapacity = find_capacity ch (swChDescs sw),
     nrPrototype = swMsgTypeByChID sw ch, nrReactor = swReactorsByCh sw ch\<rparr>"

lemma freeze_loop_ok:
  assumes "distinct chs" "set chs \<inter> fst ` set routes = {}"
    and "\<forall>ch\<in>set chs. swMsgTypeByChID sw ch \<noteq> None \<and> swReactorsByCh sw ch \<noteq> None \<and> 0 < find_capacity ch (swChDescs sw)"
  shows "freeze_loop sw chs routes = Ok (routes @ map (\<lambda>ch. (ch, frozen_route sw ch)) chs)"
  using assms
proof (induction chs arbitrary: routes)
  case (Cons ch chs)
  obtain pt r where b: "swMsgTypeByChID sw ch = Some pt" "swReactorsByCh sw ch = Some r" "0 < find_capacity ch (swChDescs sw)"
    using Cons.prems(3) by auto
  have "map_of routes ch = None" using Cons.prems(2) by (auto simp: map_of_eq_None_iff)
  moreover have "freeze_loop sw chs (routes @ [(ch, frozen_route sw ch)]) =
      Ok ((routes @ [(ch, frozen_route sw ch)]) @ map (\<lambda>ch. (ch, frozen_route sw ch)) chs)"
    using Cons.prems by (intro Cons.IH) auto
  ultimately show ?case using b by (simp add: Let_def frozen_route_def)
qed simp

lemma map_of_graph: "ch \<in> set chs \<Longrightarrow> map_of (map (\<lambda>ch. (ch, f ch)) chs) ch = Some (f ch)"
  by (induction chs) auto

lemma binding_route: "selectedMessageBinding m = (l, ch, True) \<Longrightarrow> SelectedRoute ch"
  by (cases m rule: selectedMessageBinding.cases)
    (auto simp: SelectedRoute_def selectedControllerRoutes_def channel_defs)

text \<open>The route each selected channel is bound to on a node whose consensus reactor is \<open>c\<close> and whose state sync reactor is \<open>s\<close>.\<close>

definition native_route :: "'r \<Rightarrow> 'r \<Rightarrow> byte \<Rightarrow> 'r NativeRoute" where
  "native_route c s ch =
     (if ch \<in> {SnapshotChannel, ChunkChannel}
      then \<lparr>nrChannelID = ch, nrReceiveCapacity = (if ch = SnapshotChannel then snapshotMsgSize else chunkMsgSize),
            nrPrototype = Some PtStateSync, nrReactor = Some s\<rparr>
      else \<lparr>nrChannelID = ch, nrReceiveCapacity = maxMsgSize, nrPrototype = Some PtConsensus, nrReactor = Some c\<rparr>)"

lemma frozen_registry:
  assumes "add_reactors NewSwitch rs = Ok sw" "(n1, c, consensus_GetChannels) \<in> set rs" "(n2, s, statesync_GetChannels) \<in> set rs"
  shows "FreezeNativeRoutes sw selectedControllerRoutes = Ok (map (\<lambda>ch. (ch, native_route c s ch)) selectedControllerRoutes)"
proof -
  note a = add_reactors_ok [OF assms(1) sw_ok_New]
  have c: "d \<in> set (swChDescs sw)" "swReactorsByCh sw (cdID d) = Some c" if "d \<in> set consensus_GetChannels" for d
    using a assms(2) that by fastforce+
  have s: "d \<in> set (swChDescs sw)" "swReactorsByCh sw (cdID d) = Some s" if "d \<in> set statesync_GetChannels" for d
    using a assms(3) that by fastforce+
  have cap: "find_capacity (cdID d) (swChDescs sw) = cdRecvMessageCapacity (FillDefaults d)"
    "swMsgTypeByChID sw (cdID d) = cdMessageType d" if "d \<in> set (swChDescs sw)" for d
    using a that by (auto simp: sw_ok_def intro: find_capacity_member)
  have fc: "frozen_route sw (cdID d) = native_route c s (cdID d)" if d: "d \<in> set consensus_GetChannels" for d
  proof -
    have "cdMessageType d = Some PtConsensus" "cdRecvMessageCapacity (FillDefaults d) = maxMsgSize" "cdID d \<notin> {SnapshotChannel, ChunkChannel}"
      using d by (auto simp: consensus_GetChannels_def FillDefaults_def maxMsgSize_def channel_defs)
    then show ?thesis using c [OF d] cap [OF c(1) [OF d]] by (simp add: frozen_route_def native_route_def)
  qed
  have fs: "frozen_route sw (cdID d) = native_route c s (cdID d)" if d: "d \<in> set statesync_GetChannels" for d
  proof -
    have "cdMessageType d = Some PtStateSync" "cdID d \<in> {SnapshotChannel, ChunkChannel}"
      "cdRecvMessageCapacity (FillDefaults d) = (if cdID d = SnapshotChannel then snapshotMsgSize else chunkMsgSize)"
      using d by (auto simp: statesync_GetChannels_def FillDefaults_def snapshotMsgSize_def chunkMsgSize_def channel_defs)
    then show ?thesis using s [OF d] cap [OF s(1) [OF d]] by (simp add: frozen_route_def native_route_def)
  qed
  have "ch \<in> set selectedControllerRoutes \<Longrightarrow> \<exists>d \<in> set consensus_GetChannels \<union> set statesync_GetChannels. cdID d = ch" for ch
    by (auto simp: selectedControllerRoutes_def consensus_GetChannels_def statesync_GetChannels_def channel_defs)
  then have f: "frozen_route sw ch = native_route c s ch" if "ch \<in> set selectedControllerRoutes" for ch
    using that fc fs by blast
  have n: "nrPrototype (native_route c s ch) \<noteq> None" "nrReactor (native_route c s ch) \<noteq> None" "0 < nrReceiveCapacity (native_route c s ch)" for ch
    by (simp_all add: native_route_def maxMsgSize_def snapshotMsgSize_def chunkMsgSize_def)
  have "swMsgTypeByChID sw ch \<noteq> None \<and> swReactorsByCh sw ch \<noteq> None \<and> 0 < find_capacity ch (swChDescs sw)"
    if "ch \<in> set selectedControllerRoutes" for ch
    using f [OF that] n [of ch] by (simp add: frozen_route_def flip: f [OF that])
  moreover have "distinct selectedControllerRoutes" by (simp add: selectedControllerRoutes_def channel_defs)
  ultimately have "FreezeNativeRoutes sw selectedControllerRoutes = Ok (map (\<lambda>ch. (ch, frozen_route sw ch)) selectedControllerRoutes)"
    using freeze_loop_ok [of selectedControllerRoutes "[]" sw] by (auto simp: FreezeNativeRoutes_def)
  then show ?thesis using f by simp
qed

text \<open>The registry a node freezes: its switch has the two reactors among any others, added in any order.\<close>

definition node_registry :: "'r registry \<Rightarrow> 'r \<Rightarrow> 'r \<Rightarrow> bool" where
  "node_registry reg c s \<longleftrightarrow>
     (\<exists>rs sw n1 n2. add_reactors NewSwitch rs = Ok sw \<and> (n1, c, consensus_GetChannels) \<in> set rs \<and>
        (n2, s, statesync_GetChannels) \<in> set rs \<and> FreezeNativeRoutes sw selectedControllerRoutes = Ok reg)"

lemma node_registry_routes:
  assumes "node_registry reg c s" "SelectedRoute ch"
  shows "map_of reg ch = Some (native_route c s ch)" "ReceiveCapacity reg ch = (nrReceiveCapacity (native_route c s ch), True)"
proof -
  have "reg = map (\<lambda>ch. (ch, native_route c s ch)) selectedControllerRoutes" using assms(1) frozen_registry by (fastforce simp: node_registry_def)
  moreover have "ch \<in> set selectedControllerRoutes" using assms(2) by (simp add: SelectedRoute_def list_ex_iff)
  ultimately show m: "map_of reg ch = Some (native_route c s ch)" by (simp add: map_of_graph)
  then show "ReceiveCapacity reg ch = (nrReceiveCapacity (native_route c s ch), True)" by (simp add: ReceiveCapacity_def)
qed

lemma unwrap_wrap_msg [simp]: "unwrap_msg (wrap_msg m) = Ok m"
  by (cases m) (simp_all add: cons_Wrap_def cons_Unwrap_def ss_Wrap_def ss_Unwrap_def on_err_def)

section \<open>Properties\<close>

text \<open>C11. On a switch to which the consensus and the state sync reactor have been added, with any other
  reactors and in any order, freezing the selected routes succeeds; the frozen registry has exactly
  the six selected channels, each owned by its reactor, with a positive receive capacity of at most
  the largest native payload the configuration provides for.\<close>

theorem selected_routes_bound:
  assumes "add_reactors NewSwitch rs = Ok sw" "(n1, c, consensus_GetChannels) \<in> set rs" "(n2, s, statesync_GetChannels) \<in> set rs"
  shows "\<exists>reg. FreezeNativeRoutes sw selectedControllerRoutes = Ok reg \<and> Routes reg = selectedControllerRoutes \<and>
    (\<forall>ch\<in>set selectedControllerRoutes. \<exists>cap route. ReceiveCapacity reg ch = (cap, True) \<and> 0 < cap \<and> cap \<le> 16000000 \<and>
       map_of reg ch = Some route \<and> nrReactor route = Some (if ch \<in> {SnapshotChannel, ChunkChannel} then s else c))"
proof -
  let ?reg = "map (\<lambda>ch. (ch, native_route c s ch)) selectedControllerRoutes"
  have "Routes ?reg = selectedControllerRoutes"
    by (simp add: Routes_def selectedControllerRoutes_def channel_defs comp_def)
  moreover have "map_of ?reg ch = Some (native_route c s ch)" if "ch \<in> set selectedControllerRoutes" for ch
    using map_of_graph [OF that] .
  ultimately show ?thesis using frozen_registry [OF assms]
    by (intro exI [of _ ?reg])
      (simp add: ReceiveCapacity_def native_route_def maxMsgSize_def snapshotMsgSize_def chunkMsgSize_def)
qed

definition sample_reactors :: "(string \<times> nat \<times> ChannelDescriptor list) list" where
  "sample_reactors = [(''MEMPOOL'', 0, [\<lparr>cdID = 0x30, cdPriority = 5, cdSendQueueCapacity = 0, cdRecvBufferCapacity = 0,
       cdRecvMessageCapacity = 0, cdMessageType = Some (PtOther ''mempool'')\<rparr>]),
     (''CONSENSUS'', 1, consensus_GetChannels), (''STATESYNC'', 2, statesync_GetChannels)]"

theorem selected_routes_bound_witness:
  "\<exists>sw reg. add_reactors NewSwitch sample_reactors = Ok sw \<and> FreezeNativeRoutes sw selectedControllerRoutes = Ok reg \<and>
     Routes reg = selectedControllerRoutes"
proof -
  have "\<exists>sw. add_reactors NewSwitch sample_reactors = Ok sw"
    by (simp add: sample_reactors_def AddReactor_def NewSwitch_def consensus_GetChannels_def statesync_GetChannels_def channel_defs)
  then obtain sw where sw: "add_reactors NewSwitch sample_reactors = Ok sw" by blast
  have "(''CONSENSUS'', 1, consensus_GetChannels) \<in> set sample_reactors" "(''STATESYNC'', 2, statesync_GetChannels) \<in> set sample_reactors"
    by (simp_all add: sample_reactors_def)
  from selected_routes_bound [OF sw this] sw show ?thesis by blast
qed

end
