(* ===== verification/Mediation_Config.thy ===== *)
theory Mediation_Config
  imports Native_Routes
begin

text \<open>
  The configuration of the controller mediation, from \<^verbatim>\<open>config/config.go\<close> and the testnet command:
  defaults and validation. Durations are nanoseconds. Go's iteration order over the map literals of
  \<^verbatim>\<open>ValidateBasic\<close> is unspecified; it decides which of several violations is reported, and the
  model reports them in the order written. The theory shows what an accepted configuration guarantees
  for the queues and bodies of the service.
\<close>

record ControllerMediationConfig =
  mcEnabled :: bool
  mcControllerAddress :: string
  mcCallbackListenAddress :: string
  mcCallbackAdvertiseAddress :: string
  mcNodeID :: int
  mcOutboundQueueCapacity :: int
  mcOutboundQueueBytes :: int
  mcCallbackQueueCapacity :: int
  mcCallbackQueueBytes :: int
  mcCallbackMaxBodyBytes :: int
  mcCounterRegistryCapacity :: int
  mcRegistrationAttempts :: int
  mcRegistrationRetryDelay :: int
  mcRequestTimeout :: int
  mcSendTimeout :: int
  mcShutdownTimeout :: int

definition controllerMaxNativePayload :: nat where "controllerMaxNativePayload = 16000000"
definition controllerAdapterOverhead :: nat where "controllerAdapterOverhead = 6"
definition controllerJSONOverhead :: nat where "controllerJSONOverhead = 512"

definition Millisecond :: int where "Millisecond = 1000000"
definition Second :: int where "Second = 1000000000"

definition DefaultControllerMediationConfig :: ControllerMediationConfig where
  "DefaultControllerMediationConfig =
     \<lparr>mcEnabled = False, mcControllerAddress = [], mcCallbackListenAddress = [], mcCallbackAdvertiseAddress = [],
      mcNodeID = 0, mcOutboundQueueCapacity = 1024, mcOutboundQueueBytes = 67108864, mcCallbackQueueCapacity = 256,
      mcCallbackQueueBytes = 67108864, mcCallbackMaxBodyBytes = 22000000, mcCounterRegistryCapacity = 65536,
      mcRegistrationAttempts = 5, mcRegistrationRetryDelay = 250 * Millisecond, mcRequestTimeout = 3 * Second,
      mcSendTimeout = 10 * Second, mcShutdownTimeout = 10 * Second\<rparr>"

definition check_address :: "string \<times> string \<Rightarrow> unit outcome" where
  "check_address na =
     (if snd na = [] then Err (ErrNew (fst na @ '' is required when enabled''))
      else bindo (on_err (ErrWrap (''invalid '' @ fst na)) (SplitHostPort (snd na))) (\<lambda>_. Ok ()))"

definition check_positive :: "string \<times> int \<Rightarrow> unit outcome" where
  "check_positive nv = (if snd nv \<le> 0 then Err (ErrNew (fst nv @ '' must be positive'')) else Ok ())"

definition ControllerMediationConfig_ValidateBasic :: "ControllerMediationConfig option \<Rightarrow> unit outcome" where
  "ControllerMediationConfig_ValidateBasic c =
     (case c of None \<Rightarrow> Ok ()
      | Some cfg \<Rightarrow>
          if \<not> mcEnabled cfg then Ok ()
          else
            bindo (each check_address
              [(''controller_address'', mcControllerAddress cfg), (''callback_listen_address'', mcCallbackListenAddress cfg),
               (''callback_advertise_address'', mcCallbackAdvertiseAddress cfg)]) (\<lambda>_.
            if mcNodeID cfg < 0 then Err (ErrNew ''node_id must be non-negative'')
            else bindo (each check_positive
              [(''outbound_queue_capacity'', mcOutboundQueueCapacity cfg), (''callback_queue_capacity'', mcCallbackQueueCapacity cfg),
               (''counter_registry_capacity'', mcCounterRegistryCapacity cfg), (''registration_attempts'', mcRegistrationAttempts cfg)]) (\<lambda>_.
            let minPayloadBytes = int (controllerAdapterOverhead + controllerMaxNativePayload);
                minBodyBytes = int (EncodedLen (nat minPayloadBytes) + controllerJSONOverhead)
            in if mcOutboundQueueBytes cfg < minPayloadBytes then Err (ErrFmt ''outbound_queue_bytes must be at least'' [minPayloadBytes])
               else if mcCallbackQueueBytes cfg < minPayloadBytes then Err (ErrFmt ''callback_queue_bytes must be at least'' [minPayloadBytes])
               else if mcCallbackMaxBodyBytes cfg < minBodyBytes then Err (ErrFmt ''callback_max_body_bytes must be at least'' [minBodyBytes])
               else bindo (each check_positive
                 [(''registration_retry_delay'', mcRegistrationRetryDelay cfg), (''request_timeout'', mcRequestTimeout cfg),
                  (''send_timeout'', mcSendTimeout cfg), (''shutdown_timeout'', mcShutdownTimeout cfg)]) (\<lambda>_.
               if mcRegistrationRetryDelay cfg > 2 * Second then Err (ErrNew ''registration_retry_delay must not exceed 2s'')
               else if mcSendTimeout cfg > 10 * Second then Err (ErrNew ''send_timeout must not exceed the native 10s send bound'')
               else Ok ()))))"

text \<open>\<^verbatim>\<open>net.JoinHostPort\<close> puts a host with a colon in brackets. \<open>hostnameOrIP\<close> is a parameter.\<close>

definition JoinHostPort :: "string \<Rightarrow> string \<Rightarrow> string" where
  "JoinHostPort host port =
     (if 0 \<le> index_byte (CHR '':'') host then ''['' @ host @ '']:'' @ port else host @ '':'' @ port)"

definition configureControllerMediationForTestnet ::
    "(int \<Rightarrow> string) \<Rightarrow> ControllerMediationConfig option \<Rightarrow> int \<Rightarrow> ControllerMediationConfig option outcome" where
  "configureControllerMediationForTestnet hostnameOrIP controller index =
     (case controller of None \<Rightarrow> Ok None
      | Some c \<Rightarrow>
          if \<not> mcEnabled c then Ok (Some c)
          else
            bindo (on_err (ErrWrap ''invalid experimental controller callback listen address'')
                     (SplitHostPort (mcCallbackListenAddress c))) (\<lambda>(_, port).
            let c' = c\<lparr>mcNodeID := index, mcCallbackAdvertiseAddress := JoinHostPort (hostnameOrIP index) port\<rparr>
            in bindo (on_err (ErrWrap ''invalid generated experimental controller config'')
                        (ControllerMediationConfig_ValidateBasic (Some c'))) (\<lambda>_. Ok (Some c'))))"

section \<open>What an accepted configuration guarantees\<close>

lemma check_positive_Ok [simp]: "check_positive (n, v) = Ok () \<longleftrightarrow> 0 < v"
  by (auto simp: check_positive_def)

lemma valid_config:
  assumes "ControllerMediationConfig_ValidateBasic (Some c) = Ok ()" "mcEnabled c"
  shows "0 < mcOutboundQueueCapacity c \<and> 0 < mcCallbackQueueCapacity c \<and> 0 < mcCounterRegistryCapacity c \<and>
    0 < mcRegistrationAttempts c \<and> 16000006 \<le> mcOutboundQueueBytes c \<and> 16000006 \<le> mcCallbackQueueBytes c \<and>
    21333856 \<le> mcCallbackMaxBodyBytes c \<and> 0 < mcRegistrationRetryDelay c \<and> mcRegistrationRetryDelay c \<le> 2 * Second \<and>
    0 < mcRequestTimeout c \<and> 0 < mcSendTimeout c \<and> mcSendTimeout c \<le> 10 * Second \<and> 0 < mcShutdownTimeout c"
  using assms
  by (auto simp: ControllerMediationConfig_ValidateBasic_def bindo_Ok_iff Let_def controllerAdapterOverhead_def
      controllerMaxNativePayload_def controllerJSONOverhead_def EncodedLen_def each_Ok_iff split: if_splits)

text \<open>
  The text \<^verbatim>\<open>json.Marshal\<close> produces for the outer object when no character of its strings needs an
  escape. The strings of a submitted message are hexadecimal identities, labels, base64 and digits.
\<close>

definition json_plain :: "char \<Rightarrow> bool" where
  "json_plain c \<longleftrightarrow> 32 \<le> (of_char c :: nat) \<and> (of_char c :: nat) < 127 \<and> c \<notin> {CHR 0x22, CHR 0x5C, CHR ''<'', CHR ''>'', CHR ''&''}"

definition json_quote :: "string \<Rightarrow> string" where
  "json_quote s = [CHR 0x22] @ s @ [CHR 0x22]"

definition json_member :: "string \<Rightarrow> string \<Rightarrow> string" where
  "json_member k v = json_quote k @ '':'' @ json_quote v"

definition message_text :: "controllerMessage \<Rightarrow> string" where
  "message_text m = ''{'' @ json_member ''From'' (cmFrom m) @ '','' @ json_member ''To'' (cmTo m) @ '','' @
     json_member ''Data'' (b64_encode (cmData m)) @ '','' @ json_member ''Type'' (cmType m) @ '','' @
     json_member ''ID'' (cmID m) @ ''}''"

lemma message_text_length:
  "length (message_text m) =
     47 + length (cmFrom m) + length (cmTo m) + EncodedLen (length (cmData m)) + length (cmType m) + length (cmID m)"
  by (simp add: message_text_def json_member_def json_quote_def)

lemma label_length: "selectedMessageBinding m = (l, ch, True) \<Longrightarrow> length l \<le> 20"
  by (cases m rule: selectedMessageBinding.cases) auto

lemma label_plain: "selectedMessageBinding m = (l, ch, True) \<Longrightarrow> c \<in> set l \<Longrightarrow> json_plain c"
  by (cases m rule: selectedMessageBinding.cases) (auto simp: json_plain_def)

lemma EncodedLen_mono: "m \<le> n \<Longrightarrow> EncodedLen m \<le> EncodedLen n"
  by (simp add: EncodedLen_def div_le_mono)

lemma hex_plain: "hex_val c = Some d \<Longrightarrow> json_plain c"
  by (auto simp: hex_val_def json_plain_def Let_def split: if_splits)

lemma id_plain: "validateControllerID s = Ok () \<Longrightarrow> c \<in> set s \<Longrightarrow> json_plain c"
  using hex_decode_chars hex_plain by (fastforce simp: validateControllerID_def bindo_Ok_iff split: if_splits)

lemma digit_plain: "d < 10 \<Longrightarrow> json_plain (digit_char d)"
  using digit_val_char [of d] by (auto simp: digit_val_def json_plain_def Let_def split: if_splits)

lemma b64_val_plain: "b64_val c = Some n \<Longrightarrow> json_plain c"
  by (auto simp: b64_val_def json_plain_def Let_def split: if_splits)

lemma b64_char_json: "n < 64 \<Longrightarrow> json_plain (b64_char n)"
  using b64_val_plain b64_val_char by blast

lemma plain_chars: "json_plain (CHR ''='')" "json_plain (CHR ''_'')"
  by (simp_all add: json_plain_def)

lemma b64_plain: "c \<in> set (b64_encode bs) \<Longrightarrow> json_plain c"
proof (induction bs rule: b64_encode.induct)
  case (2 a)
  note l = b64_sextets [OF unat_byte_less [of a] unat_byte_less [of a] unat_byte_less [of a]]
  show ?case using 2 l [THEN b64_char_json] by (auto simp: plain_chars)
next
  case (3 a b)
  note l = b64_sextets [OF unat_byte_less [of a] unat_byte_less [of b] unat_byte_less [of b]]
  show ?case using 3 l [THEN b64_char_json] by (auto simp: plain_chars)
next
  case (4 a b c r)
  note l = b64_sextets [OF unat_byte_less [of a] unat_byte_less [of b] unat_byte_less [of c]]
  show ?case using 4 l [THEN b64_char_json] by auto
qed simp

section \<open>Properties\<close>

text \<open>C15. The limits of an accepted configuration fit together: for a message of any selected type whose
  native bytes are at most the sixteen million that the largest channel admits, between nodes with
  valid identities and with any counter, the outer object needs no JSON escapes and its text fits
  the body limit of the callback, the adapter payload fits the byte limit of an empty outbound queue
  and the native bytes that of an empty callback queue. So no selected message is ever too large to
  be mediated.\<close>

theorem mediation_limits_fit:
  assumes "ControllerMediationConfig_ValidateBasic (Some cfg) = Ok ()" "mcEnabled cfg"
    and "validateControllerID L = Ok ()" "validateControllerID d = Ok ()" "n \<le> MaxUint64"
    and "selectedMessageBinding msg = (label, ch, True)" "length wrapped \<le> controllerMaxNativePayload"
    and "encodeAdapterPayload ch wrapped = Ok payload"
    and m: "m = \<lparr>cmFrom = L, cmTo = d, cmData = payload, cmType = label, cmID = id_prefix L d @ dec n\<rparr>"
  shows "(\<forall>c\<in>set (cmFrom m @ cmTo m @ b64_encode (cmData m) @ cmType m @ cmID m). json_plain c) \<and>
    int (length (message_text m)) \<le> mcCallbackMaxBodyBytes cfg \<and>
    int (length payload) \<le> mcOutboundQueueBytes cfg \<and> int (length wrapped) \<le> mcCallbackQueueBytes cfg"
proof -
  note v = valid_config [OF assms(1,2)]
  have p: "length payload = 6 + length wrapped" using assms(8) by (simp add: encode_shape)
  have w: "length wrapped \<le> 16000000" using assms(7) by (simp add: controllerMaxNativePayload_def)
  have "EncodedLen (length payload) \<le> EncodedLen 16000006" by (rule EncodedLen_mono) (use p w in simp)
  then have e: "EncodedLen (length payload) \<le> 21333344" by (simp add: EncodedLen_def)
  have "length (dec n) \<le> 20" using assms(5) by (intro dec_length) simp_all
  then have "length (message_text m) \<le> 21333856"
    using e label_length [OF assms(6)] validateControllerID_length [OF assms(3)] validateControllerID_length [OF assms(4)]
    by (simp add: message_text_length m id_prefix_def)
  then have "int (length (message_text m)) \<le> mcCallbackMaxBodyBytes cfg" using v by linarith
  moreover have "json_plain c" if "c \<in> set (cmFrom m @ cmTo m @ b64_encode (cmData m) @ cmType m @ cmID m)" for c
    using that id_plain [OF assms(3), of c] id_plain [OF assms(4), of c] b64_plain [of c payload] label_plain [OF assms(6), of c]
      dec_digits [of c n] digit_plain
    by (auto simp: m id_prefix_def plain_chars)
  ultimately show ?thesis using v p w by auto
qed

definition sample_config :: ControllerMediationConfig where
  "sample_config = DefaultControllerMediationConfig\<lparr>mcEnabled := True, mcControllerAddress := ''c:1'',
     mcCallbackListenAddress := '':2'', mcCallbackAdvertiseAddress := ''n:2''\<rparr>"

lemma sample_config_valid: "ControllerMediationConfig_ValidateBasic (Some sample_config) = Ok ()" "mcEnabled sample_config"
  by (simp_all add: sample_config_def DefaultControllerMediationConfig_def ControllerMediationConfig_ValidateBasic_def
      check_address_def SplitHostPort_def Let_def check_positive_def Second_def Millisecond_def controllerAdapterOverhead_def
      controllerMaxNativePayload_def controllerJSONOverhead_def EncodedLen_def on_err_def)

theorem mediation_limits_fit_witness:
  "ControllerMediationConfig_ValidateBasic (Some sample_config) = Ok () \<and>
   int (length (message_text \<lparr>cmFrom = sample_id, cmTo = other_id, cmData = [1, 0x22, 0, 0, 0, 1, 7], cmType = ''Vote'',
     cmID = id_prefix sample_id other_id @ dec 3\<rparr>)) \<le> mcCallbackMaxBodyBytes sample_config"
proof -
  have "encodeAdapterPayload VoteChannel [7] = Ok [1, 0x22, 0, 0, 0, 1, 7]"
    by (simp add: encodeAdapterPayload_def PutUint32_def controllerAdapterVersion_def VoteChannel_def)
  from mediation_limits_fit [OF sample_config_valid sample_ids_valid, of 3 "NCons (PVote None)" "''Vote''" VoteChannel "[7]", OF _ _ _ this refl]
  show ?thesis by (simp add: sample_config_valid controllerMaxNativePayload_def)
qed

end
