(* ===== verification/Mediation_Service.thy ===== *)
theory Mediation_Service
  imports Mediation_Config
begin

text \<open>
  The state and the operations of the mediation service, \<^verbatim>\<open>controllerMediation\<close> of
  \<^verbatim>\<open>node/controller_mediation.go\<close>. A channel is its buffered contents and a flag for closed; a channel
  of empty structs is the number of its elements; a mutex is the thread that holds it. Every operation
  that several goroutines run at once is a program: a function from a program counter and the shared
  state to the possible successors of its next atomic step (one channel operation, one atomic access or
  one critical section of a mutex). No successor means that the goroutine blocks. Timers may fire at
  any time. The interleaving of the programs is in the theory of the mediation's concurrency.
\<close>

section \<open>State\<close>

record outboundMediationItem =
  oiMessage :: controllerMessage
  oiBytes :: int

record reinjectionItem =
  riMessage :: controllerMessage
  riChannelID :: byte
  riWrapped :: bytes
  riBytes :: int

record mediationFatalError =
  feClass :: string
  feErr :: err

datatype controllerLifecycleState = LifecycleNew | LifecycleStarting | LifecycleRunning | LifecycleStopping | LifecycleStopped

record controllerMediation =
  mdOutboundQueue :: "outboundMediationItem list"
  mdOutboundClosed :: bool
  mdOutboundSlots :: int
  mdOutboundBytes :: int
  mdSubmitGate :: int
  mdCallbackQueue :: "reinjectionItem list"
  mdCallbackClosed :: bool
  mdCallbackSlots :: int
  mdCallbackBytes :: int
  mdCallbackMu :: "nat option"
  mdCounters :: counters
  mdReady :: bool
  mdEverReady :: bool
  mdStopping :: bool
  mdFatalErr :: "mediationFatalError option"
  mdFatalC :: "mediationFatalError list"
  mdOwnerCalls :: "mediationFatalError list"
  mdCtxDone :: bool
  mdLifecycle :: controllerLifecycleState

definition newControllerMediation :: controllerMediation where
  "newControllerMediation =
     \<lparr>mdOutboundQueue = [], mdOutboundClosed = False, mdOutboundSlots = 0, mdOutboundBytes = 0, mdSubmitGate = 1,
      mdCallbackQueue = [], mdCallbackClosed = False, mdCallbackSlots = 0, mdCallbackBytes = 0, mdCallbackMu = None,
      mdCounters = [], mdReady = False, mdEverReady = False, mdStopping = False, mdFatalErr = None, mdFatalC = [],
      mdOwnerCalls = [], mdCtxDone = False, mdLifecycle = LifecycleNew\<rparr>"

text \<open>What the service is constructed with, apart from the metrics, the logger and the HTTP client.\<close>

record 'r mediation_env =
  meConfig :: ControllerMediationConfig
  meLocalID :: string
  meRegistry :: "'r registry"
  meUnmarshal :: unmarshaller

definition minDuration :: "int \<Rightarrow> int \<Rightarrow> int" where
  "minDuration a b = (if a < b then a else b)"

definition isReady :: "controllerMediation \<Rightarrow> bool" where
  "isReady m \<longleftrightarrow> mdReady m \<and> \<not> mdStopping m \<and> mdFatalErr m = None"

definition isStopping :: "controllerMediation \<Rightarrow> bool" where
  "isStopping m = mdStopping m"

definition FatalError :: "controllerMediation \<Rightarrow> mediationFatalError option" where
  "FatalError m = mdFatalErr m"

text \<open>
  \<^verbatim>\<open>fatal\<close> is a critical section and, for the first error only, a send on a channel of capacity one
  and a call of the owner, which is recorded. The critical section reads \<open>mdEverReady\<close> into a local
  variable; the model reads it at the send, which is the same because it does not change once there is a
  fatal error (\<open>lifecycle\<close> at \<open>LcMarkReady\<close>). The owner's callback stops the node in a goroutine of its own.
\<close>

definition fatal_enter :: "string \<Rightarrow> err \<Rightarrow> controllerMediation \<Rightarrow> mediationFatalError option \<times> controllerMediation" where
  "fatal_enter class e m =
     (if mdFatalErr m \<noteq> None then (None, m)
      else let fe = \<lparr>feClass = class, feErr = e\<rparr> in (Some fe, m\<lparr>mdFatalErr := Some fe, mdReady := False\<rparr>))"

definition fatal_send :: "mediationFatalError \<Rightarrow> controllerMediation \<Rightarrow> controllerMediation list" where
  "fatal_send fe m =
     (if length (mdFatalC m) < 1 
      then [m\<lparr>mdFatalC := mdFatalC m @ [fe], mdOwnerCalls := mdOwnerCalls m @ (if mdEverReady m then [fe] else [])\<rparr>]
      else [])"

definition localInvariantClass :: string where "localInvariantClass = ''local invariant failure''"
definition controlChannelClass :: string where "controlChannelClass = ''controller/control-channel failure''"

section \<open>Submitting\<close>

record submit_call =
  scDestination :: string
  scChannelID :: byte
  scMessage :: native
  scWrapped :: bytes
  scMode :: SendMode

text \<open>
  The program of \<^verbatim>\<open>Submit\<close> with \<^verbatim>\<open>acquireSubmitAdmission\<close>. The counters from \<open>SubSlot\<close> to
  \<open>SubReturnGate\<close>, and \<open>SubFatal\<close> and \<open>SubNotify\<close> with the flag set, hold the gate.
\<close>

datatype sub_pc =
    SubStart
  | SubGate bytes string
  | SubSlot bytes string
  | SubReady bytes string
  | SubLoad bytes string
  | SubAdd bytes string
  | SubNext bytes string
  | SubSend bytes string string
  | SubUndoBytes bytes err
  | SubUndoSlot err
  | SubDropSlot
  | SubFatal bool err
  | SubNotify bool mediationFatalError
  | SubReturnGate bool
  | SubDone bool
  | SubPanic

definition acquire_gate :: "SendMode \<Rightarrow> bytes \<Rightarrow> string \<Rightarrow> controllerMediation \<Rightarrow> (sub_pc \<times> controllerMediation) list" where
  "acquire_gate mode payload label m =
     (let got = (if mdSubmitGate m > 0 then [(SubSlot payload label, m\<lparr>mdSubmitGate := mdSubmitGate m - 1\<rparr>)] else []) in
      case mode of
        SendModeNonBlocking \<Rightarrow> if got = [] then [(SubDone False, m)] else got
      | SendModeBlocking \<Rightarrow> got @ [(SubDone False, m)])"

definition acquire_slot ::
    "ControllerMediationConfig \<Rightarrow> SendMode \<Rightarrow> bytes \<Rightarrow> string \<Rightarrow> controllerMediation \<Rightarrow> (sub_pc \<times> controllerMediation) list" where
  "acquire_slot cfg mode payload label m =
     (let got = (if mdOutboundSlots m < mcOutboundQueueCapacity cfg
                 then [(SubReady payload label, m\<lparr>mdOutboundSlots := mdOutboundSlots m + 1\<rparr>)] else []) in
      case mode of
        SendModeNonBlocking \<Rightarrow> if got = [] then [(SubReturnGate False, m)] else got
      | SendModeBlocking \<Rightarrow> got @ [(SubReturnGate False, m)])"

definition release_slot :: "sub_pc \<Rightarrow> controllerMediation \<Rightarrow> (sub_pc \<times> controllerMediation) list" where
  "release_slot pc m = (if mdOutboundSlots m > 0 then [(pc, m\<lparr>mdOutboundSlots := mdOutboundSlots m - 1\<rparr>)] else [])"

definition submit_start :: "'r mediation_env \<Rightarrow> submit_call \<Rightarrow> sub_pc" where
  "submit_start env c =
     (case selectedMessageBinding (scMessage c) of (label, expectedRoute, ok) \<Rightarrow>
      if \<not> ok \<or> expectedRoute \<noteq> scChannelID c
        then SubFatal False (ErrFmt ''selected outbound type/route mismatch'' [uint (scChannelID c)])
      else case ReceiveCapacity (meRegistry env) (scChannelID c) of (capacity, ok2) \<Rightarrow>
        if \<not> ok2 \<or> int (length (scWrapped c)) > capacity
          then SubFatal False (ErrFmt ''selected outbound payload violates route capacity'' [uint (scChannelID c)])
        else case encodeAdapterPayload (scChannelID c) (scWrapped c) of
            Ok payload \<Rightarrow> SubGate payload label
          | Err e \<Rightarrow> SubFatal False e
          | Panic s \<Rightarrow> SubPanic)"

definition submitted_item :: "'r mediation_env \<Rightarrow> submit_call \<Rightarrow> bytes \<Rightarrow> string \<Rightarrow> string \<Rightarrow> outboundMediationItem" where
  "submitted_item env c payload label mid =
     \<lparr>oiMessage = \<lparr>cmFrom = meLocalID env, cmTo = scDestination c, cmData = payload, cmType = label, cmID = mid\<rparr>,
      oiBytes = int (length payload)\<rparr>"

fun Submit :: "'r mediation_env \<Rightarrow> submit_call \<Rightarrow> sub_pc \<Rightarrow> controllerMediation \<Rightarrow> (sub_pc \<times> controllerMediation) list" where
  "Submit env c SubStart m = [(submit_start env c, m)]"
| "Submit env c (SubGate p l) m = acquire_gate (scMode c) p l m"
| "Submit env c (SubSlot p l) m = acquire_slot (meConfig env) (scMode c) p l m"
| "Submit env c (SubReady p l) m = [(if isReady m then SubLoad p l else SubDropSlot, m)]"
| "Submit env c (SubLoad p l) m =
     [(if wrap64 (mdOutboundBytes m + int (length p)) > mcOutboundQueueBytes (meConfig env) then SubDropSlot else SubAdd p l, m)]"
| "Submit env c (SubAdd p l) m = [(SubNext p l, m\<lparr>mdOutboundBytes := wrap64 (mdOutboundBytes m + int (length p))\<rparr>)]"
| "Submit env c (SubNext p l) m =
     (case nextID (meLocalID env) (mcCounterRegistryCapacity (meConfig env)) (mdCounters m) (scDestination c) of
        Ok (mid, cs) \<Rightarrow> [(SubSend p l mid, m\<lparr>mdCounters := cs\<rparr>)]
      | Err e \<Rightarrow> [(SubUndoBytes p e, m)]
      | Panic s \<Rightarrow> [(SubPanic, m)])"
| "Submit env c (SubSend p l mid) m =
     (if mdOutboundClosed m then [(SubPanic, m)]
      else if int (length (mdOutboundQueue m)) < mcOutboundQueueCapacity (meConfig env)
        then [(SubReturnGate True, m\<lparr>mdOutboundQueue := mdOutboundQueue m @ [submitted_item env c p l mid]\<rparr>)]
      else [])"
| "Submit env c (SubUndoBytes p e) m = [(SubUndoSlot e, m\<lparr>mdOutboundBytes := wrap64 (mdOutboundBytes m - int (length p))\<rparr>)]"
| "Submit env c (SubUndoSlot e) m = release_slot (SubFatal True e) m"
| "Submit env c SubDropSlot m = release_slot (SubReturnGate False) m"
| "Submit env c (SubFatal held e) m =
     (case fatal_enter localInvariantClass e m of
        (None, m') \<Rightarrow> [(if held then SubReturnGate False else SubDone False, m')]
      | (Some fe, m') \<Rightarrow> [(SubNotify held fe, m')])"
| "Submit env c (SubNotify held fe) m =
     map (\<lambda>m'. (if held then SubReturnGate False else SubDone False, m')) (fatal_send fe m)"
| "Submit env c (SubReturnGate r) m =
     (if mdSubmitGate m < 1 then [(SubDone r, m\<lparr>mdSubmitGate := mdSubmitGate m + 1\<rparr>)] else [])"
| "Submit env c (SubDone r) m = []"
| "Submit env c SubPanic m = []"

section \<open>The workers\<close>

text \<open>
  \<open>reply\<close> is the result of the HTTP request, or of looking up the peer, decoding and dispatching: None
  for success. A worker that fails reports the failure and ends.
\<close>

datatype 'i wk_pc =
    WkIdle
  | WkTake
  | WkSlot 'i
  | WkWork 'i
  | WkBytes 'i "err option"
  | WkFatal 'i err
  | WkNotify mediationFatalError
  | WkExit

fun submissionWorker ::
    "err option \<Rightarrow> outboundMediationItem wk_pc \<Rightarrow> controllerMediation \<Rightarrow> (outboundMediationItem wk_pc \<times> controllerMediation) list" where
  "submissionWorker reply WkIdle m = []"
| "submissionWorker reply WkTake m =
     (case mdOutboundQueue m of
        x # xs \<Rightarrow> [(WkSlot x, m\<lparr>mdOutboundQueue := xs\<rparr>)]
      | [] \<Rightarrow> if mdOutboundClosed m then [(WkExit, m)] else [])"
| "submissionWorker reply (WkSlot x) m =
     (if mdOutboundSlots m > 0 then [(WkWork x, m\<lparr>mdOutboundSlots := mdOutboundSlots m - 1\<rparr>)] else [])"
| "submissionWorker reply (WkWork x) m = [(WkBytes x reply, m)]"
| "submissionWorker reply (WkBytes x r) m =
     [(case r of None \<Rightarrow> WkTake | Some e \<Rightarrow> WkFatal x (ErrWrap (''submit '' @ cmID (oiMessage x)) e),
       m\<lparr>mdOutboundBytes := wrap64 (mdOutboundBytes m - oiBytes x)\<rparr>)]"
| "submissionWorker reply (WkFatal x e) m =
     (case fatal_enter controlChannelClass e m of
        (None, m') \<Rightarrow> [(WkExit, m')]
      | (Some fe, m') \<Rightarrow> [(WkNotify fe, m')])"
| "submissionWorker reply (WkNotify fe) m = map (Pair WkExit) (fatal_send fe m)"
| "submissionWorker reply WkExit m = []"

fun reinjectionWorker ::
    "err option \<Rightarrow> reinjectionItem wk_pc \<Rightarrow> controllerMediation \<Rightarrow> (reinjectionItem wk_pc \<times> controllerMediation) list" where
  "reinjectionWorker reply WkIdle m = []"
| "reinjectionWorker reply WkTake m =
     (case mdCallbackQueue m of
        x # xs \<Rightarrow> [(WkSlot x, m\<lparr>mdCallbackQueue := xs\<rparr>)]
      | [] \<Rightarrow> if mdCallbackClosed m then [(WkExit, m)] else [])"
| "reinjectionWorker reply (WkSlot x) m =
     (if mdCallbackSlots m > 0 then [(WkWork x, m\<lparr>mdCallbackSlots := mdCallbackSlots m - 1\<rparr>)] else [])"
| "reinjectionWorker reply (WkWork x) m = [(WkBytes x reply, m)]"
| "reinjectionWorker reply (WkBytes x r) m =
     [(case r of None \<Rightarrow> WkTake | Some e \<Rightarrow> WkFatal x (ErrWrap (''accepted callback lost: '' @ cmID (riMessage x)) e),
       m\<lparr>mdCallbackBytes := wrap64 (mdCallbackBytes m - riBytes x)\<rparr>)]"
| "reinjectionWorker reply (WkFatal x e) m =
     (case fatal_enter localInvariantClass e m of
        (None, m') \<Rightarrow> [(WkExit, m')]
      | (Some fe, m') \<Rightarrow> [(WkNotify fe, m')])"
| "reinjectionWorker reply (WkNotify fe) m = map (Pair WkExit) (fatal_send fe m)"
| "reinjectionWorker reply WkExit m = []"

text \<open>The work of the reinjection worker on an item; an error is the worker's reply.\<close>

definition reinject ::
    "'r mediation_env \<Rightarrow> (string \<Rightarrow> 'p option) \<Rightarrow> ('p \<Rightarrow> bool) \<Rightarrow> ('r \<Rightarrow> byte \<Rightarrow> 'p \<Rightarrow> native \<Rightarrow> string option) \<Rightarrow>
     reinjectionItem \<Rightarrow> unit outcome" where
  "reinject env getPeer running receive item =
     (case getPeer (cmFrom (riMessage item)) of
        None \<Rightarrow> Err (ErrNew ''source peer disconnected after callback acceptance'')
      | Some peer \<Rightarrow>
          if \<not> running peer then Err (ErrNew ''source peer disconnected after callback acceptance'')
          else bindo (Decode (meUnmarshal env) (meRegistry env) (riChannelID item) (riWrapped item)) (\<lambda>decoded.
               fst (Dispatch receive (meRegistry env) (riChannelID item) peer decoded)))"

text \<open>\<^verbatim>\<open>post\<close> turns a response into an error unless its status is in the two hundreds.\<close>

definition post_result :: "int outcome \<Rightarrow> unit outcome" where
  "post_result response =
     bindo response (\<lambda>status. if status < 200 \<or> status \<ge> 300 then Err (ErrFmt ''controller returned HTTP'' [status]) else Ok ())"

text \<open>
  \<^verbatim>\<open>register\<close>: \<open>reply n\<close> is the result of the \<open>n\<close>-th request and \<open>cancelled n\<close> whether the context ends while the
  service waits after it. The result comes with the delays waited for.
\<close>

function register_loop ::
    "(int \<Rightarrow> err option) \<Rightarrow> (int \<Rightarrow> bool) \<Rightarrow> int \<Rightarrow> int \<Rightarrow> int \<Rightarrow> err \<Rightarrow> unit outcome \<times> int list" where
  "register_loop reply cancelled attempts attempt delay lastErr =
     (if attempt > attempts then (Err (ErrWrap ''controller registration exhausted'' lastErr), [])
      else case reply attempt of
          None \<Rightarrow> (Ok (), [])
        | Some e \<Rightarrow>
            if attempt = attempts then (Err (ErrWrap ''controller registration exhausted'' e), [])
            else if cancelled attempt then (Err (ErrNew ''registration canceled''), [delay])
            else
              let delay' = (if delay < 2 * Second
                            then (if 2 * delay > 2 * Second then 2 * Second else 2 * delay) else delay);
                  (r, ds) = register_loop reply cancelled attempts (attempt + 1) delay' e
              in (r, delay # ds))"
  by pat_completeness auto
termination by (relation "measure (\<lambda>(_, _, attempts, attempt, _, _). nat (attempts + 1 - attempt))") auto

declare register_loop.simps [simp del]

definition register :: "(int \<Rightarrow> err option) \<Rightarrow> (int \<Rightarrow> bool) \<Rightarrow> ControllerMediationConfig \<Rightarrow> unit outcome \<times> int list" where
  "register reply cancelled cfg =
     register_loop reply cancelled (mcRegistrationAttempts cfg) 1 (mcRegistrationRetryDelay cfg) (ErrNew ''nil'')"

section \<open>The callback\<close>

text \<open>
  A request by what the handler looks at: the method, the media type its header parses to (None when
  it does not parse) and the body.
\<close>

record http_request =
  rqMethod :: string
  rqMediaType :: "string option"
  rqBody :: json_input

datatype decision = CbReject int string | CbAccept reinjectionItem

text \<open>
  The checks of \<^verbatim>\<open>serveMessage\<close> between the first look at the readiness of the service and the
  queue. \<open>peers\<close> is the peer set at that moment: None for an identifier without a peer, otherwise whether
  the peer is running. A panic inside the checks is recovered by the HTTP server, which drops the connection.
\<close>

definition check_callback ::
    "'r mediation_env \<Rightarrow> (string \<Rightarrow> bool option) \<Rightarrow> json_input \<Rightarrow> decision outcome" where
  "check_callback env peers body =
     (case decodeControllerMessage body of
        Panic s \<Rightarrow> Panic s
      | Err e \<Rightarrow> Ok (if e = json_too_large then CbReject 413 ''callback_oversized'' else CbReject 400 ''callback_malformed'')
      | Ok outer \<Rightarrow>
          if cmTo outer \<noteq> meLocalID env then Ok (CbReject 422 ''callback_wrong_destination'')
          else if validateControllerID (cmFrom outer) \<noteq> Ok () then Ok (CbReject 422 ''callback_unknown_source'')
          else if validateControllerMessageID outer \<noteq> Ok () \<or> cmType outer = [] then Ok (CbReject 400 ''callback_field_invalid'')
          else if peers (cmFrom outer) \<noteq> Some True then Ok (CbReject 409 ''callback_stale_source'')
          else case decodeAdapterPayload (cmData outer) of
              Panic s \<Rightarrow> Panic s
            | Err e \<Rightarrow> Ok (CbReject 400 ''callback_adapter_invalid'')
            | Ok payload \<Rightarrow>
                (case ReceiveCapacity (meRegistry env) (apChannelID payload) of (capacity, ok) \<Rightarrow>
                 if \<not> ok \<or> \<not> SelectedRoute (apChannelID payload) then Ok (CbReject 422 ''callback_unknown_route'')
                 else if int (length (apWrapped payload)) > capacity then Ok (CbReject 413 ''native_payload_oversized'')
                 else case Decode (meUnmarshal env) (meRegistry env) (apChannelID payload) (apWrapped payload) of
                     Panic s \<Rightarrow> Panic s
                   | Err e \<Rightarrow> Ok (CbReject 422 ''callback_decode_rejected'')
                   | Ok decoded \<Rightarrow>
                       (case selectedMessageBinding decoded of (label, expectedRoute, sel) \<Rightarrow>
                        if \<not> sel \<or> expectedRoute \<noteq> apChannelID payload \<or> label \<noteq> cmType outer
                          then Ok (CbReject 422 ''callback_type_mismatch'')
                        else case validateSelectedMessage decoded of
                            Panic s \<Rightarrow> Panic s
                          | Err e \<Rightarrow> Ok (CbReject 422 ''callback_semantic_rejection'')
                          | Ok _ \<Rightarrow> Ok (CbAccept
                              \<lparr>riMessage = outer, riChannelID = apChannelID payload, riWrapped = apWrapped payload,
                               riBytes = int (length (apWrapped payload))\<rparr>))))"

text \<open>The program of \<^verbatim>\<open>serveMessage\<close> with \<^verbatim>\<open>acceptCallback\<close>; \<open>tid\<close> names the goroutine.\<close>

datatype cb_pc =
    CbStart
  | CbLook
  | CbLock reinjectionItem
  | CbReady reinjectionItem
  | CbSlot reinjectionItem
  | CbLoad reinjectionItem
  | CbDrop reinjectionItem
  | CbAdd reinjectionItem
  | CbSend reinjectionItem
  | CbUnlock bool
  | CbWhy
  | CbFatal
  | CbNotify mediationFatalError
  | CbReply int string
  | CbPanic string
  | CbSendClosed

definition admissionErr :: err where
  "admissionErr = ErrNew ''valid callback could not enter bounded reinjection queue''"

fun serveMessage ::
    "'r mediation_env \<Rightarrow> (string \<Rightarrow> bool option) \<Rightarrow> nat \<Rightarrow> http_request \<Rightarrow> cb_pc \<Rightarrow> controllerMediation \<Rightarrow>
     (cb_pc \<times> controllerMediation) list" where
  "serveMessage env peers tid rq CbStart m =
     [(if rqMethod rq \<noteq> ''POST'' then CbReply 405 []
       else if rqMediaType rq \<noteq> Some ''application/json'' then CbReply 415 ''callback_content_type''
       else if \<not> isReady m then CbReply 503 ''callback_not_ready''
       else CbLook, m)]"
| "serveMessage env peers tid rq CbLook m =
     [(case check_callback env peers (rqBody rq) of
         Ok (CbReject status event) \<Rightarrow> CbReply status event
       | Ok (CbAccept item) \<Rightarrow> CbLock item
       | Err e \<Rightarrow> CbPanic []
       | Panic s \<Rightarrow> CbPanic s, m)]"
| "serveMessage env peers tid rq (CbLock item) m =
     (if mdCallbackMu m = None then [(CbReady item, m\<lparr>mdCallbackMu := Some tid\<rparr>)] else [])"
| "serveMessage env peers tid rq (CbReady item) m = [(if isReady m then CbSlot item else CbUnlock False, m)]"
| "serveMessage env peers tid rq (CbSlot item) m =
     (if mdCallbackSlots m < mcCallbackQueueCapacity (meConfig env)
      then [(CbLoad item, m\<lparr>mdCallbackSlots := mdCallbackSlots m + 1\<rparr>)] else [(CbUnlock False, m)])"
| "serveMessage env peers tid rq (CbLoad item) m =
     [(if wrap64 (mdCallbackBytes m + riBytes item) > mcCallbackQueueBytes (meConfig env) then CbDrop item else CbAdd item, m)]"
| "serveMessage env peers tid rq (CbDrop item) m =
     (if mdCallbackSlots m > 0 then [(CbUnlock False, m\<lparr>mdCallbackSlots := mdCallbackSlots m - 1\<rparr>)] else [])"
| "serveMessage env peers tid rq (CbAdd item) m =
     [(CbSend item, m\<lparr>mdCallbackBytes := wrap64 (mdCallbackBytes m + riBytes item)\<rparr>)]"
| "serveMessage env peers tid rq (CbSend item) m =
     (if mdCallbackClosed m then [(CbSendClosed, m)]
      else if int (length (mdCallbackQueue m)) < mcCallbackQueueCapacity (meConfig env)
        then [(CbUnlock True, m\<lparr>mdCallbackQueue := mdCallbackQueue m @ [item]\<rparr>)]
      else [])"
| "serveMessage env peers tid rq (CbUnlock ok) m =
     [(if ok then CbReply 202 ''reinjection_acceptance'' else CbWhy, m\<lparr>mdCallbackMu := None\<rparr>)]"
| "serveMessage env peers tid rq CbWhy m =
     [(if isStopping m then CbReply 503 ''callback_shutdown_rejected'' else CbFatal, m)]"
| "serveMessage env peers tid rq CbFatal m =
     (case fatal_enter controlChannelClass admissionErr m of
        (None, m') \<Rightarrow> [(CbReply 503 ''callback_admission_fatal'', m')]
      | (Some fe, m') \<Rightarrow> [(CbNotify fe, m')])"
| "serveMessage env peers tid rq (CbNotify fe) m =
     map (Pair (CbReply 503 ''callback_admission_fatal'')) (fatal_send fe m)"
| "serveMessage env peers tid rq (CbReply status event) m = []"
| "serveMessage env peers tid rq (CbPanic s) m = []"
| "serveMessage env peers tid rq CbSendClosed m = []"

section \<open>The lifecycle\<close>

text \<open>
  \<^verbatim>\<open>Start\<close>, \<^verbatim>\<open>Stop\<close>, \<^verbatim>\<open>stopLocked\<close> and \<^verbatim>\<open>releaseQueuedReservations\<close> run under one
  mutex, so they are one program that is called again and again. A choice resolves what it meets: which
  of the two is called, whether listening and registering succeed, and whether the workers or the timer
  end the wait. Closing a closed channel panics. \<open>finished\<close> says whether no worker is running.
\<close>

datatype lc_choice = ChStart | ChStop | ChSuccess | ChFailure | ChDone | ChTimeout

datatype lc_pc =
    LcIdle
  | LcListen
  | LcRegister
  | LcMarkReady
  | LcFlags
  | LcShutdown
  | LcCancel
  | LcTakeGate
  | LcCloseOutbound
  | LcGiveGate
  | LcLockCallback
  | LcCloseCallback
  | LcUnlockCallback
  | LcWait
  | LcFatal
  | LcNotify mediationFatalError
  | LcDrainOut
  | LcDrainOutSlot outboundMediationItem
  | LcDrainOutBytes outboundMediationItem
  | LcDrainCb
  | LcDrainCbSlot reinjectionItem
  | LcDrainCbBytes reinjectionItem
  | LcEnd
  | LcPanic

fun lifecycle :: "lc_choice \<Rightarrow> bool \<Rightarrow> nat \<Rightarrow> lc_pc \<Rightarrow> controllerMediation \<Rightarrow> (lc_pc \<times> controllerMediation) list" where
  "lifecycle ch finished tid LcIdle m =
     (if ch = ChStart \<and> mdLifecycle m = LifecycleNew then [(LcListen, m\<lparr>mdLifecycle := LifecycleStarting\<rparr>)]
      else if ch = ChStop \<and> mdLifecycle m \<noteq> LifecycleStopped then [(LcFlags, m\<lparr>mdLifecycle := LifecycleStopping\<rparr>)]
      else [(LcIdle, m)])"
| "lifecycle ch finished tid LcListen m = [(if ch = ChSuccess then LcRegister else LcFlags, m)]"
| "lifecycle ch finished tid LcRegister m = [(if ch = ChSuccess then LcMarkReady else LcFlags, m)]"
| "lifecycle ch finished tid LcMarkReady m =
     (if mdFatalErr m \<noteq> None then [(LcFlags, m)]
      else [(LcIdle, m\<lparr>mdReady := True, mdEverReady := True, mdLifecycle := LifecycleRunning\<rparr>)])"
| "lifecycle ch finished tid LcFlags m = [(LcShutdown, m\<lparr>mdReady := False, mdStopping := True\<rparr>)]"
| "lifecycle ch finished tid LcShutdown m = [(LcCancel, m)]"
| "lifecycle ch finished tid LcCancel m = [(LcTakeGate, m\<lparr>mdCtxDone := True\<rparr>)]"
| "lifecycle ch finished tid LcTakeGate m =
     (if mdSubmitGate m > 0 then [(LcCloseOutbound, m\<lparr>mdSubmitGate := mdSubmitGate m - 1\<rparr>)] else [])"
| "lifecycle ch finished tid LcCloseOutbound m =
     (if mdOutboundClosed m then [(LcPanic, m)] else [(LcGiveGate, m\<lparr>mdOutboundClosed := True\<rparr>)])"
| "lifecycle ch finished tid LcGiveGate m =
     (if mdSubmitGate m < 1 then [(LcLockCallback, m\<lparr>mdSubmitGate := mdSubmitGate m + 1\<rparr>)] else [])"
| "lifecycle ch finished tid LcLockCallback m =
     (if mdCallbackMu m = None then [(LcCloseCallback, m\<lparr>mdCallbackMu := Some tid\<rparr>)] else [])"
| "lifecycle ch finished tid LcCloseCallback m =
     (if mdCallbackClosed m then [(LcPanic, m)] else [(LcUnlockCallback, m\<lparr>mdCallbackClosed := True\<rparr>)])"
| "lifecycle ch finished tid LcUnlockCallback m = [(LcWait, m\<lparr>mdCallbackMu := None\<rparr>)]"
| "lifecycle ch finished tid LcWait m =
     (if ch = ChDone \<and> finished then [(LcDrainOut, m)] else if ch = ChTimeout then [(LcFatal, m)] else [])"
| "lifecycle ch finished tid LcFatal m =
     (case fatal_enter localInvariantClass (ErrNew ''shutdown accepted-work timeout'') m of
        (None, m') \<Rightarrow> [(LcEnd, m')]
      | (Some fe, m') \<Rightarrow> [(LcNotify fe, m')])"
| "lifecycle ch finished tid (LcNotify fe) m = map (Pair LcEnd) (fatal_send fe m)"
| "lifecycle ch finished tid LcDrainOut m =
     (case mdOutboundQueue m of
        x # xs \<Rightarrow> [(LcDrainOutSlot x, m\<lparr>mdOutboundQueue := xs\<rparr>)]
      | [] \<Rightarrow> if mdOutboundClosed m then [(LcDrainCb, m)] else [])"
| "lifecycle ch finished tid (LcDrainOutSlot x) m =
     (if mdOutboundSlots m > 0 then [(LcDrainOutBytes x, m\<lparr>mdOutboundSlots := mdOutboundSlots m - 1\<rparr>)] else [])"
| "lifecycle ch finished tid (LcDrainOutBytes x) m =
     [(LcDrainOut, m\<lparr>mdOutboundBytes := wrap64 (mdOutboundBytes m - oiBytes x)\<rparr>)]"
| "lifecycle ch finished tid LcDrainCb m =
     (case mdCallbackQueue m of
        x # xs \<Rightarrow> [(LcDrainCbSlot x, m\<lparr>mdCallbackQueue := xs\<rparr>)]
      | [] \<Rightarrow> if mdCallbackClosed m then [(LcEnd, m)] else [])"
| "lifecycle ch finished tid (LcDrainCbSlot x) m =
     (if mdCallbackSlots m > 0 then [(LcDrainCbBytes x, m\<lparr>mdCallbackSlots := mdCallbackSlots m - 1\<rparr>)] else [])"
| "lifecycle ch finished tid (LcDrainCbBytes x) m =
     [(LcDrainCb, m\<lparr>mdCallbackBytes := wrap64 (mdCallbackBytes m - riBytes x)\<rparr>)]"
| "lifecycle ch finished tid LcEnd m = [(LcIdle, m\<lparr>mdLifecycle := LifecycleStopped\<rparr>)]"
| "lifecycle ch finished tid LcPanic m = []"

text \<open>The goroutine of the callback server reports its unexpected end.\<close>

datatype srv_pc = SrvIdle | SrvServe | SrvFatal err | SrvNotify mediationFatalError | SrvDone

fun serve_listener :: "err option \<Rightarrow> srv_pc \<Rightarrow> controllerMediation \<Rightarrow> (srv_pc \<times> controllerMediation) list" where
  "serve_listener e SrvIdle m = []"
| "serve_listener e SrvServe m =
     [(case e of None \<Rightarrow> SrvDone | Some x \<Rightarrow> SrvFatal (ErrWrap ''callback listener terminated'' x), m)]"
| "serve_listener e (SrvFatal x) m =
     (case fatal_enter controlChannelClass x m of
        (None, m') \<Rightarrow> [(SrvDone, m')]
      | (Some fe, m') \<Rightarrow> [(SrvNotify fe, m')])"
| "serve_listener e (SrvNotify fe) m = map (Pair SrvDone) (fatal_send fe m)"
| "serve_listener e SrvDone m = []"

end
