(* ===== verification/Mediation_Concurrency.thy ===== *)
theory Mediation_Concurrency
  imports Mediation_Service
begin

text \<open>
  The goroutines of the mediation service together: any number of calls of \<^verbatim>\<open>Submit\<close>, of
  \<^verbatim>\<open>LocalInvariant\<close> and of the callback handler, the two workers, the goroutine of the callback server
  and the calls of \<^verbatim>\<open>Start\<close> and \<^verbatim>\<open>Stop\<close>, one atomic step at a time in any order. What a
  goroutine holds (the gate or the mutex, a slot, reserved bytes, an undelivered fatal error) is a
  function of its program counter, and every step moves it between the goroutine and the shared state.
\<close>

section \<open>The system\<close>

record system =
  syM :: controllerMediation
  sySubs :: "(submit_call \<times> sub_pc) list"
  syCbs :: "(http_request \<times> cb_pc) list"
  syWorker :: "outboundMediationItem wk_pc"
  syReinj :: "reinjectionItem wk_pc"
  syLc :: lc_pc
  sySrv :: srv_pc
  syAccepted :: "outboundMediationItem list"
  syTaken :: "outboundMediationItem list"
  syCbAccepted :: "reinjectionItem list"
  syCbTaken :: "reinjectionItem list"

definition init_system :: system where
  "init_system =
     \<lparr>syM = newControllerMediation, sySubs = [], syCbs = [], syWorker = WkIdle, syReinj = WkIdle, syLc = LcIdle, sySrv = SrvIdle,
      syAccepted = [], syTaken = [], syCbAccepted = [], syCbTaken = []\<rparr>"

text \<open>What a queue gained at its end and lost at its front.\<close>

definition gained :: "'i list \<Rightarrow> 'i list \<Rightarrow> 'i list" where
  "gained q q' = drop (length q) q'"

definition lost :: "'i list \<Rightarrow> 'i list \<Rightarrow> 'i list" where
  "lost q q' = take (length q - length q') q"

definition advance :: "controllerMediation \<Rightarrow> system \<Rightarrow> system" where
  "advance m' s =
     s\<lparr>syM := m',
       syAccepted := syAccepted s @ gained (mdOutboundQueue (syM s)) (mdOutboundQueue m'),
       syTaken := syTaken s @ lost (mdOutboundQueue (syM s)) (mdOutboundQueue m'),
       syCbAccepted := syCbAccepted s @ gained (mdCallbackQueue (syM s)) (mdCallbackQueue m'),
       syCbTaken := syCbTaken s @ lost (mdCallbackQueue (syM s)) (mdCallbackQueue m')\<rparr>"

definition idle_worker :: "'i wk_pc \<Rightarrow> bool" where
  "idle_worker pc \<longleftrightarrow> pc = WkIdle \<or> pc = WkExit"

definition workers_done :: "system \<Rightarrow> bool" where
  "workers_done s \<longleftrightarrow> idle_worker (syWorker s) \<and> idle_worker (syReinj s)"

text \<open>The goroutines \<^verbatim>\<open>Start\<close> starts once it listens.\<close>

definition start_goroutines :: "lc_pc \<Rightarrow> lc_pc \<Rightarrow> system \<Rightarrow> system" where
  "start_goroutines pc pc' s =
     (if pc = LcListen \<and> pc' = LcRegister then s\<lparr>syWorker := WkTake, syReinj := WkTake, sySrv := SrvServe\<rparr> else s)"

text \<open>The mutex of the callbacks is held by the lifecycle as thread 0 and by handler \<open>i\<close> as thread \<open>i + 1\<close>.\<close>

inductive step :: "'r mediation_env \<Rightarrow> system \<Rightarrow> system \<Rightarrow> bool"
  for env where
  call_Submit: "step env s (s\<lparr>sySubs := sySubs s @ [(c, SubStart)]\<rparr>)"
| call_LocalInvariant: "step env s (s\<lparr>sySubs := sySubs s @ [(c, SubFatal False e)]\<rparr>)"
| call_callback: "step env s (s\<lparr>syCbs := syCbs s @ [(rq, CbStart)]\<rparr>)"
| submit: "i < length (sySubs s) \<Longrightarrow> sySubs s ! i = (c, pc) \<Longrightarrow> (pc', m') \<in> set (Submit env c pc (syM s)) \<Longrightarrow>
    step env s ((advance m' s)\<lparr>sySubs := (sySubs s)[i := (c, pc')]\<rparr>)"
| callback: "i < length (syCbs s) \<Longrightarrow> syCbs s ! i = (rq, pc) \<Longrightarrow>
    (pc', m') \<in> set (serveMessage env peers (Suc i) rq pc (syM s)) \<Longrightarrow>
    step env s ((advance m' s)\<lparr>syCbs := (syCbs s)[i := (rq, pc')]\<rparr>)"
| worker: "(pc', m') \<in> set (submissionWorker reply (syWorker s) (syM s)) \<Longrightarrow>
    step env s ((advance m' s)\<lparr>syWorker := pc'\<rparr>)"
| reinj: "(pc', m') \<in> set (reinjectionWorker reply (syReinj s) (syM s)) \<Longrightarrow>
    step env s ((advance m' s)\<lparr>syReinj := pc'\<rparr>)"
| lifecycle: "(pc', m') \<in> set (lifecycle ch (workers_done s) 0 (syLc s) (syM s)) \<Longrightarrow>
    step env s (start_goroutines (syLc s) pc' ((advance m' s)\<lparr>syLc := pc'\<rparr>))"
| listener: "(pc', m') \<in> set (serve_listener e (sySrv s) (syM s)) \<Longrightarrow>
    step env s ((advance m' s)\<lparr>sySrv := pc'\<rparr>)"
| receive_fatal: "mdFatalC (syM s) = fe # rest \<Longrightarrow>
    step env s (advance ((syM s)\<lparr>mdFatalC := rest\<rparr>) s)"

inductive reachable :: "'r mediation_env \<Rightarrow> system \<Rightarrow> bool"
  for env where
  init: "reachable env init_system"
| step: "reachable env s \<Longrightarrow> step env s s' \<Longrightarrow> reachable env s'"

section \<open>What a goroutine holds\<close>

fun sub_gate :: "sub_pc \<Rightarrow> int" where
  "sub_gate SubStart = 0"
| "sub_gate (SubGate p l) = 0"
| "sub_gate (SubFatal held e) = (if held then 1 else 0)"
| "sub_gate (SubNotify held fe) = (if held then 1 else 0)"
| "sub_gate (SubDone r) = 0"
| "sub_gate SubPanic = 0"
| "sub_gate pc = 1"

fun sub_slot :: "sub_pc \<Rightarrow> int" where
  "sub_slot (SubReady p l) = 1"
| "sub_slot (SubLoad p l) = 1"
| "sub_slot (SubAdd p l) = 1"
| "sub_slot (SubNext p l) = 1"
| "sub_slot (SubSend p l mid) = 1"
| "sub_slot (SubUndoBytes p e) = 1"
| "sub_slot (SubUndoSlot e) = 1"
| "sub_slot SubDropSlot = 1"
| "sub_slot pc = 0"

fun sub_bytes :: "sub_pc \<Rightarrow> int" where
  "sub_bytes (SubNext p l) = int (length p)"
| "sub_bytes (SubSend p l mid) = int (length p)"
| "sub_bytes (SubUndoBytes p e) = int (length p)"
| "sub_bytes pc = 0"

fun sub_notify :: "sub_pc \<Rightarrow> int" where
  "sub_notify (SubNotify held fe) = 1"
| "sub_notify pc = 0"

fun wk_slot :: "'i wk_pc \<Rightarrow> int" where
  "wk_slot (WkSlot x) = 1"
| "wk_slot pc = 0"

fun wk_bytes :: "('i \<Rightarrow> int) \<Rightarrow> 'i wk_pc \<Rightarrow> int" where
  "wk_bytes sz (WkSlot x) = sz x"
| "wk_bytes sz (WkWork x) = sz x"
| "wk_bytes sz (WkBytes x r) = sz x"
| "wk_bytes sz pc = 0"

fun wk_notify :: "'i wk_pc \<Rightarrow> int" where
  "wk_notify (WkNotify fe) = 1"
| "wk_notify pc = 0"

fun cb_lock :: "cb_pc \<Rightarrow> int" where
  "cb_lock (CbReady x) = 1"
| "cb_lock (CbSlot x) = 1"
| "cb_lock (CbLoad x) = 1"
| "cb_lock (CbDrop x) = 1"
| "cb_lock (CbAdd x) = 1"
| "cb_lock (CbSend x) = 1"
| "cb_lock (CbUnlock ok) = 1"
| "cb_lock pc = 0"

fun cb_slot :: "cb_pc \<Rightarrow> int" where
  "cb_slot (CbLoad x) = 1"
| "cb_slot (CbDrop x) = 1"
| "cb_slot (CbAdd x) = 1"
| "cb_slot (CbSend x) = 1"
| "cb_slot pc = 0"

fun cb_bytes :: "cb_pc \<Rightarrow> int" where
  "cb_bytes (CbSend x) = riBytes x"
| "cb_bytes pc = 0"

fun cb_notify :: "cb_pc \<Rightarrow> int" where
  "cb_notify (CbNotify fe) = 1"
| "cb_notify pc = 0"

definition lc_gate :: "lc_pc \<Rightarrow> int" where
  "lc_gate pc = (if pc = LcCloseOutbound \<or> pc = LcGiveGate then 1 else 0)"

definition lc_lock :: "lc_pc \<Rightarrow> int" where
  "lc_lock pc = (if pc = LcCloseCallback \<or> pc = LcUnlockCallback then 1 else 0)"

fun lc_out_slot :: "lc_pc \<Rightarrow> int" where
  "lc_out_slot (LcDrainOutSlot x) = 1"
| "lc_out_slot pc = 0"

fun lc_out_bytes :: "lc_pc \<Rightarrow> int" where
  "lc_out_bytes (LcDrainOutSlot x) = oiBytes x"
| "lc_out_bytes (LcDrainOutBytes x) = oiBytes x"
| "lc_out_bytes pc = 0"

fun lc_cb_slot :: "lc_pc \<Rightarrow> int" where
  "lc_cb_slot (LcDrainCbSlot x) = 1"
| "lc_cb_slot pc = 0"

fun lc_cb_bytes :: "lc_pc \<Rightarrow> int" where
  "lc_cb_bytes (LcDrainCbSlot x) = riBytes x"
| "lc_cb_bytes (LcDrainCbBytes x) = riBytes x"
| "lc_cb_bytes pc = 0"

fun lc_notify :: "lc_pc \<Rightarrow> int" where
  "lc_notify (LcNotify fe) = 1"
| "lc_notify pc = 0"

fun srv_notify :: "srv_pc \<Rightarrow> int" where
  "srv_notify (SrvNotify fe) = 1"
| "srv_notify pc = 0"

end
