(* ===== verification/Mediation_Invariant.thy ===== *)
theory Mediation_Invariant
  imports Mediation_Concurrency
begin

text \<open>
  The invariant of the mediation service. Tokens, slots, bytes and the fatal notification are conserved:
  what the shared state lacks is held by exactly one goroutine. From this follow the bounds of the two
  queues, that no send or close meets a closed channel, that only one submission at a time numbers and
  queues its message, and that no goroutine blocks when it gives something back.
\<close>

section \<open>Sums over goroutines\<close>

definition held :: "('a \<Rightarrow> int) \<Rightarrow> ('c \<times> 'a) list \<Rightarrow> int" where
  "held f ts = (\<Sum>t\<leftarrow>ts. f (snd t))"

lemma held_simps [simp]: "held f [] = 0" "held f (ts @ us) = held f ts + held f us" "held f (t # ts) = f (snd t) + held f ts"
  by (simp_all add: held_def)

lemma held_nonneg: "(\<And>pc. 0 \<le> f pc) \<Longrightarrow> 0 \<le> held f ts"
  by (induction ts) (auto intro: add_nonneg_nonneg)

lemma held_split: "i < length ts \<Longrightarrow> held f ts = held f (take i ts) + f (snd (ts ! i)) + held f (drop (Suc i) ts)"
  by (subst id_take_nth_drop [of i ts]) auto

lemma held_update:
  assumes "i < length ts" "ts ! i = (c, pc)"
  shows "held f (ts[i := (c, pc')]) = held f ts - f pc + f pc'"
  using held_split [OF assms(1), of f] assms(2) by (simp add: upd_conv_take_nth_drop assms(1))

lemma held_ge:
  assumes "\<And>pc. 0 \<le> f pc" "i < length ts" "ts ! i = (c, pc)"
  shows "f pc \<le> held f ts"
  using held_split [OF assms(2), of f] assms(3) held_nonneg [of f "take i ts"] held_nonneg [of f "drop (Suc i) ts"] assms(1) by simp

lemma held_two:
  assumes "\<And>pc. 0 \<le> f pc" "i < length ts" "ts ! i = (c, pc)" "j < length ts" "ts ! j = (d, pd)" "i \<noteq> j"
  shows "f pc + f pd \<le> held f ts"
proof -
  let ?us = "take i ts @ drop (Suc i) ts"
  let ?k = "if j < i then j else j - 1"
  have "?k < length ?us" "?us ! ?k = (d, pd)" using assms by (auto simp: nth_append)
  then have "f pd \<le> held f ?us" by (rule held_ge [OF assms(1)])
  then show ?thesis using held_split [OF assms(2), of f] assms(3) by simp
qed

lemma held_mono: "(\<And>pc. f pc \<le> g pc) \<Longrightarrow> held f ts \<le> held g ts"
  by (induction ts) (auto intro: add_mono)

lemma sub_holds [simp]:
  "0 \<le> sub_gate pc" "0 \<le> sub_slot pc" "0 \<le> sub_bytes pc" "0 \<le> sub_notify pc" "sub_slot pc \<le> sub_gate pc"
  by (cases pc; simp)+

lemma cb_holds [simp]: "0 \<le> cb_lock pc" "0 \<le> cb_slot pc" "0 \<le> cb_notify pc" "cb_slot pc \<le> cb_lock pc"
  by (cases pc; simp)+

lemma other_holds [simp]:
  "0 \<le> wk_slot w" "0 \<le> wk_notify w" "0 \<le> lc_gate lc" "0 \<le> lc_lock lc" "0 \<le> lc_out_slot lc" "0 \<le> lc_cb_slot lc"
  "0 \<le> lc_notify lc" "0 \<le> srv_notify srv"
proof -
  show "0 \<le> wk_slot w" "0 \<le> wk_notify w" by (cases w; simp)+
  show "0 \<le> lc_gate lc" "0 \<le> lc_lock lc" by (simp_all add: lc_gate_def lc_lock_def)
  show "0 \<le> lc_out_slot lc" "0 \<le> lc_cb_slot lc" "0 \<le> lc_notify lc" by (cases lc; simp)+
  show "0 \<le> srv_notify srv" by (cases srv) simp_all
qed

section \<open>Conservation\<close>

text \<open>
  A step from \<open>m\<close> to \<open>m'\<close> of a goroutine that holds a token \<open>g\<close>, a slot \<open>k\<close> and \<open>b\<close> bytes and afterwards
  \<open>g'\<close>, \<open>k'\<close> and \<open>b'\<close> keeps the balance.
\<close>

definition out_move :: "controllerMediation \<Rightarrow> int \<times> int \<times> int \<Rightarrow> controllerMediation \<Rightarrow> int \<times> int \<times> int \<Rightarrow> bool" where
  "out_move m h m' h' \<longleftrightarrow>
     mdSubmitGate m' + fst h' = mdSubmitGate m + fst h \<and>
     mdOutboundSlots m' - int (length (mdOutboundQueue m')) - fst (snd h') =
       mdOutboundSlots m - int (length (mdOutboundQueue m)) - fst (snd h) \<and>
     mdOutboundBytes m' - sum_list (map oiBytes (mdOutboundQueue m')) - snd (snd h') =
       mdOutboundBytes m - sum_list (map oiBytes (mdOutboundQueue m)) - snd (snd h)"

definition free_mu :: "controllerMediation \<Rightarrow> int" where
  "free_mu m = (if mdCallbackMu m = None then 1 else 0)"

definition cb_move :: "controllerMediation \<Rightarrow> int \<times> int \<times> int \<Rightarrow> controllerMediation \<Rightarrow> int \<times> int \<times> int \<Rightarrow> bool" where
  "cb_move m h m' h' \<longleftrightarrow>
     free_mu m' + fst h' = free_mu m + fst h \<and>
     mdCallbackSlots m' - int (length (mdCallbackQueue m')) - fst (snd h') =
       mdCallbackSlots m - int (length (mdCallbackQueue m)) - fst (snd h) \<and>
     mdCallbackBytes m' - sum_list (map riBytes (mdCallbackQueue m')) - snd (snd h') =
       mdCallbackBytes m - sum_list (map riBytes (mdCallbackQueue m)) - snd (snd h)"

text \<open>The one permission to report a fatal error: not yet used, or travelling to the channel.\<close>

definition fatal_tokens :: "controllerMediation \<Rightarrow> int" where
  "fatal_tokens m = (if mdFatalErr m = None then 1 else 0) + int (length (mdFatalC m))"

definition no_overflow :: "int \<Rightarrow> int \<Rightarrow> bool" where
  "no_overflow n lim \<longleftrightarrow> 0 \<le> n \<and> n \<le> lim \<and> lim \<le> 2 ^ 62"

lemma wrap64_reserve: "0 \<le> n \<Longrightarrow> 0 \<le> k \<Longrightarrow> n + k \<le> lim \<Longrightarrow> lim \<le> 2 ^ 62 \<Longrightarrow> wrap64 (n + k) = n + k"
  by (simp add: wrap64_def)

lemma wrap64_release: "no_overflow n lim \<Longrightarrow> 0 \<le> k \<Longrightarrow> k \<le> n \<Longrightarrow> wrap64 (n - k) = n - k"
  by (simp add: wrap64_def no_overflow_def)

lemma wrap64_probe: "no_overflow n lim \<Longrightarrow> 0 \<le> k \<Longrightarrow> k \<le> 2 ^ 61 \<Longrightarrow> wrap64 (n + k) = n + k"
  by (simp add: wrap64_def no_overflow_def)

lemmas submit_defs = acquire_gate_def acquire_slot_def release_slot_def fatal_enter_def fatal_send_def Let_def

lemma Submit_out:
  assumes "(pc', m') \<in> set (Submit env c pc m)" "no_overflow (mdOutboundBytes m) lim" "sub_bytes pc \<le> mdOutboundBytes m"
    and "\<And>p l. pc = SubAdd p l \<Longrightarrow> mdOutboundBytes m + int (length p) \<le> lim" "pc' \<noteq> SubPanic"
  shows "out_move m (sub_gate pc, sub_slot pc, sub_bytes pc) m' (sub_gate pc', sub_slot pc', sub_bytes pc')"
proof (cases pc)
  case (SubAdd p l)
  then show ?thesis using assms wrap64_reserve [of "mdOutboundBytes m" "int (length p)" lim]
    by (auto simp: out_move_def no_overflow_def)
next
  case (SubUndoBytes p e)
  then show ?thesis using assms wrap64_release [OF assms(2), of "int (length p)"] by (auto simp: out_move_def)
qed (use assms(1,5) in \<open>auto simp: out_move_def submit_defs submitted_item_def submit_start_def
      split: outcome.splits prod.splits if_splits SendMode.splits list.splits\<close>)

lemma submissionWorker_out:
  assumes "(pc', m') \<in> set (submissionWorker r pc m)" "no_overflow (mdOutboundBytes m) lim"
    and "0 \<le> wk_bytes oiBytes pc" "wk_bytes oiBytes pc \<le> mdOutboundBytes m"
  shows "out_move m (0, wk_slot pc, wk_bytes oiBytes pc) m' (0, wk_slot pc', wk_bytes oiBytes pc')"
proof (cases pc)
  case (WkBytes x e)
  then show ?thesis using assms wrap64_release [OF assms(2), of "oiBytes x"] by (auto simp: out_move_def split: option.splits)
qed (use assms(1) in \<open>auto simp: out_move_def submit_defs split: list.splits if_splits prod.splits\<close>)

lemma lifecycle_out:
  assumes "(pc', m') \<in> set (lifecycle ch fin tid pc m)" "no_overflow (mdOutboundBytes m) lim"
    and "0 \<le> lc_out_bytes pc" "lc_out_bytes pc \<le> mdOutboundBytes m" "pc' \<noteq> LcPanic"
  shows "out_move m (lc_gate pc, lc_out_slot pc, lc_out_bytes pc) m' (lc_gate pc', lc_out_slot pc', lc_out_bytes pc')"
proof (cases pc)
  case (LcDrainOutBytes x)
  then show ?thesis using assms wrap64_release [OF assms(2), of "oiBytes x"] by (auto simp: out_move_def lc_gate_def)
qed (use assms(1,5) in \<open>auto simp: out_move_def submit_defs lc_gate_def split: list.splits if_splits prod.splits\<close>)

lemma serveMessage_cb:
  assumes "(pc', m') \<in> set (serveMessage env peers tid rq pc m)" "no_overflow (mdCallbackBytes m) lim"
    and "\<And>x. pc = CbAdd x \<Longrightarrow> 0 \<le> riBytes x \<and> mdCallbackBytes m + riBytes x \<le> lim"
    and "pc' \<noteq> CbSendClosed" "cb_lock pc = 1 \<Longrightarrow> mdCallbackMu m \<noteq> None"
  shows "cb_move m (cb_lock pc, cb_slot pc, cb_bytes pc) m' (cb_lock pc', cb_slot pc', cb_bytes pc')"
proof (cases pc)
  case (CbAdd x)
  then show ?thesis using assms(1-3) wrap64_reserve [of "mdCallbackBytes m" "riBytes x" lim]
    by (auto simp: cb_move_def no_overflow_def free_mu_def)
qed (use assms(1,4,5) in \<open>auto simp: cb_move_def submit_defs free_mu_def
      split: outcome.splits prod.splits if_splits decision.splits\<close>)

lemma reinjectionWorker_cb:
  assumes "(pc', m') \<in> set (reinjectionWorker r pc m)" "no_overflow (mdCallbackBytes m) lim"
    and "0 \<le> wk_bytes riBytes pc" "wk_bytes riBytes pc \<le> mdCallbackBytes m"
  shows "cb_move m (0, wk_slot pc, wk_bytes riBytes pc) m' (0, wk_slot pc', wk_bytes riBytes pc')"
proof (cases pc)
  case (WkBytes x e)
  then show ?thesis using assms wrap64_release [OF assms(2), of "riBytes x"]
    by (auto simp: cb_move_def free_mu_def split: option.splits)
qed (use assms(1) in \<open>auto simp: cb_move_def free_mu_def submit_defs split: list.splits if_splits prod.splits\<close>)

lemma lifecycle_cb:
  assumes "(pc', m') \<in> set (lifecycle ch fin tid pc m)" "no_overflow (mdCallbackBytes m) lim"
    and "0 \<le> lc_cb_bytes pc" "lc_cb_bytes pc \<le> mdCallbackBytes m" "pc' \<noteq> LcPanic" "lc_lock pc = 1 \<Longrightarrow> mdCallbackMu m \<noteq> None"
  shows "cb_move m (lc_lock pc, lc_cb_slot pc, lc_cb_bytes pc) m' (lc_lock pc', lc_cb_slot pc', lc_cb_bytes pc')"
proof (cases pc)
  case (LcDrainCbBytes x)
  then show ?thesis using assms wrap64_release [OF assms(2), of "riBytes x"] by (auto simp: cb_move_def lc_lock_def free_mu_def)
qed (use assms(1,5,6) in \<open>auto simp: cb_move_def free_mu_def submit_defs lc_lock_def split: list.splits if_splits prod.splits\<close>)

text \<open>Each goroutine leaves the other queue alone.\<close>

definition out_fields :: "controllerMediation \<Rightarrow> outboundMediationItem list \<times> bool \<times> int \<times> int \<times> int \<times> counters" where
  "out_fields m = (mdOutboundQueue m, mdOutboundClosed m, mdOutboundSlots m, mdOutboundBytes m, mdSubmitGate m, mdCounters m)"

definition cb_fields :: "controllerMediation \<Rightarrow> reinjectionItem list \<times> bool \<times> int \<times> int \<times> nat option" where
  "cb_fields m = (mdCallbackQueue m, mdCallbackClosed m, mdCallbackSlots m, mdCallbackBytes m, mdCallbackMu m)"

lemma Submit_frame: "(pc', m') \<in> set (Submit env c pc m) \<Longrightarrow> cb_fields m' = cb_fields m"
  by (cases pc) (auto simp: cb_fields_def submit_defs split: outcome.splits prod.splits if_splits SendMode.splits)

lemma submissionWorker_frame: "(pc', m') \<in> set (submissionWorker r pc m) \<Longrightarrow> cb_fields m' = cb_fields m"
  by (cases pc) (auto simp: cb_fields_def submit_defs split: list.splits if_splits prod.splits)

lemma serveMessage_frame: "(pc', m') \<in> set (serveMessage env peers tid rq pc m) \<Longrightarrow> out_fields m' = out_fields m"
  by (cases pc) (auto simp: out_fields_def submit_defs split: outcome.splits prod.splits if_splits)

lemma reinjectionWorker_frame: "(pc', m') \<in> set (reinjectionWorker r pc m) \<Longrightarrow> out_fields m' = out_fields m"
  by (cases pc) (auto simp: out_fields_def submit_defs split: list.splits if_splits prod.splits)

lemma serve_listener_frame:
  "(pc', m') \<in> set (serve_listener e pc m) \<Longrightarrow> out_fields m' = out_fields m \<and> cb_fields m' = cb_fields m"
  by (cases pc) (auto simp: out_fields_def cb_fields_def submit_defs split: if_splits prod.splits)

text \<open>A fatal error is reported once.\<close>

lemma Submit_fatal: "(pc', m') \<in> set (Submit env c pc m) \<Longrightarrow> fatal_tokens m' + sub_notify pc' = fatal_tokens m + sub_notify pc"
  by (cases pc) (auto simp: fatal_tokens_def submit_defs submit_start_def split: outcome.splits prod.splits if_splits SendMode.splits)

lemma submissionWorker_fatal: "(pc', m') \<in> set (submissionWorker r pc m) \<Longrightarrow> fatal_tokens m' + wk_notify pc' = fatal_tokens m + wk_notify pc"
  by (cases pc) (auto simp: fatal_tokens_def submit_defs split: list.splits if_splits prod.splits option.splits)

lemma reinjectionWorker_fatal: "(pc', m') \<in> set (reinjectionWorker r pc m) \<Longrightarrow> fatal_tokens m' + wk_notify pc' = fatal_tokens m + wk_notify pc"
  by (cases pc) (auto simp: fatal_tokens_def submit_defs split: list.splits if_splits prod.splits option.splits)

lemma serveMessage_fatal:
  "(pc', m') \<in> set (serveMessage env peers tid rq pc m) \<Longrightarrow> fatal_tokens m' + cb_notify pc' = fatal_tokens m + cb_notify pc"
  by (cases pc) (auto simp: fatal_tokens_def submit_defs split: outcome.splits prod.splits if_splits decision.splits)

lemma lifecycle_fatal: "(pc', m') \<in> set (lifecycle ch fin tid pc m) \<Longrightarrow> fatal_tokens m' + lc_notify pc' = fatal_tokens m + lc_notify pc"
  by (cases pc) (auto simp: fatal_tokens_def submit_defs split: list.splits if_splits prod.splits)

lemma serve_listener_fatal: "(pc', m') \<in> set (serve_listener e pc m) \<Longrightarrow> fatal_tokens m' + srv_notify pc' = fatal_tokens m + srv_notify pc"
  by (cases pc) (auto simp: fatal_tokens_def submit_defs split: if_splits prod.splits option.splits)

section \<open>The invariant\<close>

definition out_balanced :: "system \<Rightarrow> bool" where
  "out_balanced s \<longleftrightarrow>
     0 \<le> mdSubmitGate (syM s) \<and>
     mdSubmitGate (syM s) + held sub_gate (sySubs s) + lc_gate (syLc s) = 1 \<and>
     mdOutboundSlots (syM s) =
       int (length (mdOutboundQueue (syM s))) + held sub_slot (sySubs s) + wk_slot (syWorker s) + lc_out_slot (syLc s) \<and>
     mdOutboundBytes (syM s) =
       sum_list (map oiBytes (mdOutboundQueue (syM s))) + held sub_bytes (sySubs s) + wk_bytes oiBytes (syWorker s) + lc_out_bytes (syLc s)"

definition cb_balanced :: "system \<Rightarrow> bool" where
  "cb_balanced s \<longleftrightarrow>
     free_mu (syM s) + held cb_lock (syCbs s) + lc_lock (syLc s) = 1 \<and>
     mdCallbackSlots (syM s) =
       int (length (mdCallbackQueue (syM s))) + held cb_slot (syCbs s) + wk_slot (syReinj s) + lc_cb_slot (syLc s) \<and>
     mdCallbackBytes (syM s) =
       sum_list (map riBytes (mdCallbackQueue (syM s))) + held cb_bytes (syCbs s) + wk_bytes riBytes (syReinj s) + lc_cb_bytes (syLc s)"

definition fatal_once :: "system \<Rightarrow> bool" where
  "fatal_once s \<longleftrightarrow>
     fatal_tokens (syM s) + held sub_notify (sySubs s) + held cb_notify (syCbs s) + wk_notify (syWorker s) + wk_notify (syReinj s) +
       lc_notify (syLc s) + srv_notify (sySrv s) \<le> 1"

definition within_limits :: "'r mediation_env \<Rightarrow> controllerMediation \<Rightarrow> bool" where
  "within_limits env m \<longleftrightarrow>
     mdOutboundSlots m \<le> mcOutboundQueueCapacity (meConfig env) \<and> mdOutboundBytes m \<le> mcOutboundQueueBytes (meConfig env) \<and>
     mdCallbackSlots m \<le> mcCallbackQueueCapacity (meConfig env) \<and> mdCallbackBytes m \<le> mcCallbackQueueBytes (meConfig env)"

text \<open>Sizes of items are those of their contents.\<close>

definition out_item_ok :: "outboundMediationItem \<Rightarrow> bool" where
  "out_item_ok x \<longleftrightarrow> oiBytes x = int (length (cmData (oiMessage x)))"

definition cb_item_ok :: "reinjectionItem \<Rightarrow> bool" where
  "cb_item_ok x \<longleftrightarrow> riBytes x = int (length (riWrapped x)) \<and> length (riWrapped x) < 2 ^ 32"

fun wk_item_ok :: "('i \<Rightarrow> bool) \<Rightarrow> 'i wk_pc \<Rightarrow> bool" where
  "wk_item_ok ok (WkSlot x) = ok x"
| "wk_item_ok ok (WkWork x) = ok x"
| "wk_item_ok ok (WkBytes x r) = ok x"
| "wk_item_ok ok pc = True"

fun lc_items_ok :: "lc_pc \<Rightarrow> bool" where
  "lc_items_ok (LcDrainOutSlot x) = out_item_ok x"
| "lc_items_ok (LcDrainOutBytes x) = out_item_ok x"
| "lc_items_ok (LcDrainCbSlot x) = cb_item_ok x"
| "lc_items_ok (LcDrainCbBytes x) = cb_item_ok x"
| "lc_items_ok pc = True"

definition items_ok :: "system \<Rightarrow> bool" where
  "items_ok s \<longleftrightarrow>
     list_all out_item_ok (mdOutboundQueue (syM s)) \<and> list_all cb_item_ok (mdCallbackQueue (syM s)) \<and>
     wk_item_ok out_item_ok (syWorker s) \<and> wk_item_ok cb_item_ok (syReinj s) \<and> lc_items_ok (syLc s)"

text \<open>How far the shutdown has come.\<close>

fun lc_rank :: "lc_pc \<Rightarrow> nat" where
  "lc_rank LcIdle = 0"
| "lc_rank LcListen = 0"
| "lc_rank LcRegister = 0"
| "lc_rank LcMarkReady = 0"
| "lc_rank LcFlags = 0"
| "lc_rank LcShutdown = 1"
| "lc_rank LcCancel = 1"
| "lc_rank LcTakeGate = 1"
| "lc_rank LcCloseOutbound = 1"
| "lc_rank LcGiveGate = 2"
| "lc_rank LcLockCallback = 2"
| "lc_rank LcCloseCallback = 2"
| "lc_rank pc = 3"

definition stopped :: "lc_pc \<Rightarrow> controllerMediation \<Rightarrow> bool" where
  "stopped lc m \<longleftrightarrow> lc = LcIdle \<and> mdLifecycle m = LifecycleStopped"

definition lc_ok :: "lc_pc \<Rightarrow> controllerMediation \<Rightarrow> bool" where
  "lc_ok lc m \<longleftrightarrow> lc \<noteq> LcPanic \<and>
     (lc = LcIdle \<longleftrightarrow> mdLifecycle m \<noteq> LifecycleStarting \<and> mdLifecycle m \<noteq> LifecycleStopping) \<and>
     (mdStopping m \<longleftrightarrow> stopped lc m \<or> 1 \<le> lc_rank lc) \<and>
     (mdOutboundClosed m \<longleftrightarrow> stopped lc m \<or> 2 \<le> lc_rank lc) \<and>
     (mdCallbackClosed m \<longleftrightarrow> stopped lc m \<or> 3 \<le> lc_rank lc) \<and>
     (mdReady m \<longrightarrow> mdFatalErr m = None \<and> mdEverReady m)"

definition unstarted :: "system \<Rightarrow> bool" where
  "unstarted s \<longleftrightarrow> (mdLifecycle (syM s) = LifecycleNew \<or> syLc s = LcListen \<longrightarrow>
     syWorker s = WkIdle \<and> syReinj s = WkIdle \<and> sySrv s = SrvIdle)"

text \<open>The accepted messages and those whose number is taken, in the order of the numbers.\<close>

definition destinations :: "outboundMediationItem list \<Rightarrow> string list" where
  "destinations xs = map (\<lambda>x. cmTo (oiMessage x)) xs"

fun pending_of :: "submit_call \<times> sub_pc \<Rightarrow> string list" where
  "pending_of (c, SubSend p l mid) = [scDestination c]"
| "pending_of (c, pc) = []"

definition numbered :: "system \<Rightarrow> string list" where
  "numbered s = destinations (syAccepted s) @ concat (map pending_of (sySubs s))"

definition numbering :: "string \<Rightarrow> outboundMediationItem list \<Rightarrow> bool" where
  "numbering L xs \<longleftrightarrow> (\<forall>k<length xs. cmID (oiMessage (xs ! k)) =
     id_prefix L (destinations xs ! k) @ dec (count_list (take k (destinations xs)) (destinations xs ! k)))"

definition counters_ok :: "system \<Rightarrow> bool" where
  "counters_ok s \<longleftrightarrow> counted (mdCounters (syM s)) (numbered s) \<and> (\<forall>d. count_list (numbered s) d \<le> MaxUint64)"

text \<open>What holds at each point of a submission and of a callback.\<close>

fun sub_ok :: "'r mediation_env \<Rightarrow> outboundMediationItem list \<Rightarrow> controllerMediation \<Rightarrow> submit_call \<Rightarrow> sub_pc \<Rightarrow> bool" where
  "sub_ok env acc m c (SubGate p l) = (submit_start env c = SubGate p l)"
| "sub_ok env acc m c (SubSlot p l) = (submit_start env c = SubGate p l)"
| "sub_ok env acc m c (SubReady p l) = (submit_start env c = SubGate p l)"
| "sub_ok env acc m c (SubLoad p l) = (submit_start env c = SubGate p l \<and> \<not> mdOutboundClosed m)"
| "sub_ok env acc m c (SubAdd p l) =
     (submit_start env c = SubGate p l \<and> \<not> mdOutboundClosed m \<and> mdOutboundBytes m + int (length p) \<le> mcOutboundQueueBytes (meConfig env))"
| "sub_ok env acc m c (SubNext p l) = (submit_start env c = SubGate p l \<and> \<not> mdOutboundClosed m)"
| "sub_ok env acc m c (SubSend p l mid) =
     (submit_start env c = SubGate p l \<and> \<not> mdOutboundClosed m \<and>
      mid = id_prefix (meLocalID env) (scDestination c) @ dec (count_list (destinations acc) (scDestination c)))"
| "sub_ok env acc m c SubPanic = False"
| "sub_ok env acc m c pc = True"

fun cb_ok :: "'r mediation_env \<Rightarrow> controllerMediation \<Rightarrow> cb_pc \<Rightarrow> bool" where
  "cb_ok env m (CbLock x) = cb_item_ok x"
| "cb_ok env m (CbReady x) = cb_item_ok x"
| "cb_ok env m (CbSlot x) = (cb_item_ok x \<and> \<not> mdCallbackClosed m)"
| "cb_ok env m (CbLoad x) = (cb_item_ok x \<and> \<not> mdCallbackClosed m)"
| "cb_ok env m (CbDrop x) = cb_item_ok x"
| "cb_ok env m (CbAdd x) =
     (cb_item_ok x \<and> \<not> mdCallbackClosed m \<and> mdCallbackBytes m + riBytes x \<le> mcCallbackQueueBytes (meConfig env))"
| "cb_ok env m (CbSend x) = (cb_item_ok x \<and> \<not> mdCallbackClosed m)"
| "cb_ok env m CbSendClosed = False"
| "cb_ok env m pc = True"

definition threads_ok :: "'r mediation_env \<Rightarrow> system \<Rightarrow> bool" where
  "threads_ok env s \<longleftrightarrow> (\<forall>(c, pc) \<in> set (sySubs s). sub_ok env (syAccepted s) (syM s) c pc) \<and> (\<forall>(rq, pc) \<in> set (syCbs s). cb_ok env (syM s) pc)"

definition fifo :: "system \<Rightarrow> bool" where
  "fifo s \<longleftrightarrow> syAccepted s = syTaken s @ mdOutboundQueue (syM s) \<and> syCbAccepted s = syCbTaken s @ mdCallbackQueue (syM s)"

definition Inv :: "'r mediation_env \<Rightarrow> system \<Rightarrow> bool" where
  "Inv env s \<longleftrightarrow> out_balanced s \<and> cb_balanced s \<and> fatal_once s \<and> within_limits env (syM s) \<and> items_ok s \<and> lc_ok (syLc s) (syM s) \<and>
     unstarted s \<and> counters_ok s \<and> numbering (meLocalID env) (syAccepted s) \<and> threads_ok env s \<and> fifo s"

text \<open>The configured limits leave room below the maximum of a 64-bit integer.\<close>

definition limits_fit :: "ControllerMediationConfig \<Rightarrow> bool" where
  "limits_fit cfg \<longleftrightarrow> 0 \<le> mcOutboundQueueCapacity cfg \<and> 0 \<le> mcCallbackQueueCapacity cfg \<and>
     0 \<le> mcOutboundQueueBytes cfg \<and> mcOutboundQueueBytes cfg \<le> 2 ^ 62 \<and> 0 \<le> mcCallbackQueueBytes cfg \<and> mcCallbackQueueBytes cfg \<le> 2 ^ 62"

lemma Inv_init: "limits_fit (meConfig env) \<Longrightarrow> Inv env init_system"
  by (auto simp: Inv_def init_system_def newControllerMediation_def out_balanced_def cb_balanced_def fatal_once_def within_limits_def
      items_ok_def lc_ok_def unstarted_def counters_ok_def numbering_def threads_ok_def fifo_def free_mu_def fatal_tokens_def
      lc_gate_def lc_lock_def stopped_def limits_fit_def numbered_def destinations_def counted_def)

end
