(* ===== verification/Mediation_Safety.thy ===== *)
theory Mediation_Safety
  imports Mediation_Invariant
begin

text \<open>
  Every step of the mediation service keeps its invariant, and what follows from it in every reachable
  state: the bounds of the queues, the order and the numbers of the messages, the progress of every
  submission and callback, and the release of all reservations at the end of a shutdown.
\<close>

section \<open>Simplification of the composed system\<close>

lemma gained_lost_same [simp]: "gained q q = []" "lost q q = []"
  by (simp_all add: gained_def lost_def)

lemma gained_lost_snoc [simp]: "gained q (q @ [x]) = [x]" "lost q (q @ [x]) = []"
  by (simp_all add: gained_def lost_def)

lemma gained_lost_tl [simp]: "gained (x # xs) xs = []" "lost (x # xs) xs = [x]"
  by (simp_all add: gained_def lost_def)

lemma advance_simps [simp]:
  "syM (advance m s) = m" "sySubs (advance m s) = sySubs s" "syCbs (advance m s) = syCbs s" "syWorker (advance m s) = syWorker s"
  "syReinj (advance m s) = syReinj s" "syLc (advance m s) = syLc s" "sySrv (advance m s) = sySrv s"
  "syAccepted (advance m s) = syAccepted s @ gained (mdOutboundQueue (syM s)) (mdOutboundQueue m)"
  "syTaken (advance m s) = syTaken s @ lost (mdOutboundQueue (syM s)) (mdOutboundQueue m)"
  "syCbAccepted (advance m s) = syCbAccepted s @ gained (mdCallbackQueue (syM s)) (mdCallbackQueue m)"
  "syCbTaken (advance m s) = syCbTaken s @ lost (mdCallbackQueue (syM s)) (mdCallbackQueue m)"
  by (simp_all add: advance_def)

lemma start_goroutines_simps [simp]:
  "syM (start_goroutines pc pc' s) = syM s" "sySubs (start_goroutines pc pc' s) = sySubs s" "syCbs (start_goroutines pc pc' s) = syCbs s"
  "syLc (start_goroutines pc pc' s) = syLc s"
  "syAccepted (start_goroutines pc pc' s) = syAccepted s" "syTaken (start_goroutines pc pc' s) = syTaken s"
  "syCbAccepted (start_goroutines pc pc' s) = syCbAccepted s" "syCbTaken (start_goroutines pc pc' s) = syCbTaken s"
  by (simp_all add: start_goroutines_def)

lemma out_fields_eq:
  "out_fields m' = out_fields m \<longleftrightarrow> mdOutboundQueue m' = mdOutboundQueue m \<and> mdOutboundClosed m' = mdOutboundClosed m \<and>
     mdOutboundSlots m' = mdOutboundSlots m \<and> mdOutboundBytes m' = mdOutboundBytes m \<and> mdSubmitGate m' = mdSubmitGate m \<and>
     mdCounters m' = mdCounters m"
  by (auto simp: out_fields_def)

lemma cb_fields_eq:
  "cb_fields m' = cb_fields m \<longleftrightarrow> mdCallbackQueue m' = mdCallbackQueue m \<and> mdCallbackClosed m' = mdCallbackClosed m \<and>
     mdCallbackSlots m' = mdCallbackSlots m \<and> mdCallbackBytes m' = mdCallbackBytes m \<and> mdCallbackMu m' = mdCallbackMu m"
  by (auto simp: cb_fields_def)

section \<open>Consequences of the invariant\<close>

lemma Inv_parts:
  assumes "Inv env s"
  shows "out_balanced s" "cb_balanced s" "fatal_once s" "within_limits env (syM s)" "items_ok s" "lc_ok (syLc s) (syM s)"
    "unstarted s" "counters_ok s" "numbering (meLocalID env) (syAccepted s)" "threads_ok env s" "fifo s"
  using assms by (simp_all add: Inv_def)

lemma out_item_bytes: "out_item_ok x \<Longrightarrow> 0 \<le> oiBytes x"
  by (simp add: out_item_ok_def)

lemma cb_item_bytes: "cb_item_ok x \<Longrightarrow> 0 \<le> riBytes x \<and> riBytes x < 2 ^ 32"
  unfolding cb_item_ok_def by (metis of_nat_0_le_iff of_nat_less_iff of_nat_numeral of_nat_power)

lemma sum_list_nonneg_all: "list_all (\<lambda>x. 0 \<le> (f x :: int)) xs \<Longrightarrow> 0 \<le> sum_list (map f xs)"
  by (induction xs) auto

lemma item_bytes:
  assumes "items_ok s"
  shows "0 \<le> sum_list (map oiBytes (mdOutboundQueue (syM s)))" "0 \<le> wk_bytes oiBytes (syWorker s)" "0 \<le> lc_out_bytes (syLc s)"
    "0 \<le> sum_list (map riBytes (mdCallbackQueue (syM s)))" "0 \<le> wk_bytes riBytes (syReinj s)" "0 \<le> lc_cb_bytes (syLc s)"
proof -
  show "0 \<le> sum_list (map oiBytes (mdOutboundQueue (syM s)))" "0 \<le> sum_list (map riBytes (mdCallbackQueue (syM s)))"
    using assms out_item_bytes cb_item_bytes by (auto simp: items_ok_def list_all_iff intro!: sum_list_nonneg_all)
  show "0 \<le> wk_bytes oiBytes (syWorker s)" "0 \<le> wk_bytes riBytes (syReinj s)"
    using assms by (cases "syWorker s"; auto simp: items_ok_def dest: out_item_bytes cb_item_bytes;
        cases "syReinj s"; auto simp: items_ok_def dest: cb_item_bytes)+
  show "0 \<le> lc_out_bytes (syLc s)" "0 \<le> lc_cb_bytes (syLc s)"
    using assms by (cases "syLc s"; auto simp: items_ok_def dest: out_item_bytes cb_item_bytes)+
qed

lemma cb_thread_bytes:
  assumes "threads_ok env s" "(rq, pc) \<in> set (syCbs s)"
  shows "0 \<le> cb_bytes pc"
  using assms by (cases pc) (auto simp: threads_ok_def dest!: cb_item_bytes)

lemma cb_held_bytes:
  assumes "\<forall>(rq, pc) \<in> set ts. 0 \<le> cb_bytes pc"
  shows "0 \<le> held cb_bytes ts" "i < length ts \<Longrightarrow> ts ! i = (rq, pc) \<Longrightarrow> cb_bytes pc \<le> held cb_bytes ts"
proof -
  have *: "\<forall>(rq, pc) \<in> set us. 0 \<le> cb_bytes pc \<Longrightarrow> 0 \<le> held cb_bytes us" for us :: "('a \<times> cb_pc) list"
    by (induction us) auto
  show "0 \<le> held cb_bytes ts" using * assms by blast
  assume i: "i < length ts" "ts ! i = (rq, pc)"
  have "0 \<le> held cb_bytes (take i ts)" "0 \<le> held cb_bytes (drop (Suc i) ts)"
    using assms by (auto intro!: * dest: in_set_takeD in_set_dropD)
  then show "cb_bytes pc \<le> held cb_bytes ts" using held_split [OF i(1), of cb_bytes] i(2) by simp
qed

lemma Inv_bytes:
  assumes "Inv env s" "limits_fit (meConfig env)"
  shows "no_overflow (mdOutboundBytes (syM s)) (mcOutboundQueueBytes (meConfig env))"
    "no_overflow (mdCallbackBytes (syM s)) (mcCallbackQueueBytes (meConfig env))"
    "i < length (sySubs s) \<Longrightarrow> sySubs s ! i = (c, pc) \<Longrightarrow> sub_bytes pc \<le> mdOutboundBytes (syM s)"
    "wk_bytes oiBytes (syWorker s) \<le> mdOutboundBytes (syM s)" "lc_out_bytes (syLc s) \<le> mdOutboundBytes (syM s)"
    "wk_bytes riBytes (syReinj s) \<le> mdCallbackBytes (syM s)" "lc_cb_bytes (syLc s) \<le> mdCallbackBytes (syM s)"
proof -
  note I = Inv_parts [OF assms(1)]
  note b = item_bytes [OF I(5)] held_nonneg [of sub_bytes "sySubs s", OF sub_holds(3)]
  have cbs: "0 \<le> held cb_bytes (syCbs s)" using cb_thread_bytes [OF I(10)] by (intro cb_held_bytes) auto
  show "no_overflow (mdOutboundBytes (syM s)) (mcOutboundQueueBytes (meConfig env))"
    "no_overflow (mdCallbackBytes (syM s)) (mcCallbackQueueBytes (meConfig env))"
    using I(1,2,4) b cbs assms(2) by (auto simp: no_overflow_def out_balanced_def cb_balanced_def within_limits_def limits_fit_def)
  show "wk_bytes oiBytes (syWorker s) \<le> mdOutboundBytes (syM s)" "lc_out_bytes (syLc s) \<le> mdOutboundBytes (syM s)"
    "wk_bytes riBytes (syReinj s) \<le> mdCallbackBytes (syM s)" "lc_cb_bytes (syLc s) \<le> mdCallbackBytes (syM s)"
    using I(1,2) b cbs by (auto simp: out_balanced_def cb_balanced_def)
  show "i < length (sySubs s) \<Longrightarrow> sySubs s ! i = (c, pc) \<Longrightarrow> sub_bytes pc \<le> mdOutboundBytes (syM s)"
    using I(1) b held_ge [of sub_bytes i "sySubs s", OF sub_holds(3)] by (fastforce simp: out_balanced_def)
qed

lemma thread_ok:
  assumes "threads_ok env s"
  shows "i < length (sySubs s) \<Longrightarrow> sySubs s ! i = (c, pc) \<Longrightarrow> sub_ok env (syAccepted s) (syM s) c pc"
    "j < length (syCbs s) \<Longrightarrow> syCbs s ! j = (rq, pd) \<Longrightarrow> cb_ok env (syM s) pd"
  using assms unfolding threads_ok_def by (metis (mono_tags, lifting) case_prodD nth_mem)+

text \<open>Of two goroutines at most one holds the gate, and of two at most one the mutex.\<close>

lemma gate_exclusive:
  assumes "out_balanced s" "i < length (sySubs s)" "sySubs s ! i = (c, pc)"
  shows "sub_gate pc + lc_gate (syLc s) \<le> 1" "mdSubmitGate (syM s) + sub_gate pc \<le> 1"
    "j < length (sySubs s) \<Longrightarrow> sySubs s ! j = (d, pd) \<Longrightarrow> i \<noteq> j \<Longrightarrow> sub_gate pc + sub_gate pd \<le> 1"
proof -
  have h: "sub_gate pc \<le> held sub_gate (sySubs s)" using assms by (intro held_ge) auto
  have b: "0 \<le> mdSubmitGate (syM s)" "mdSubmitGate (syM s) + held sub_gate (sySubs s) + lc_gate (syLc s) = 1"
    using assms(1) by (simp_all add: out_balanced_def)
  show "sub_gate pc + lc_gate (syLc s) \<le> 1" "mdSubmitGate (syM s) + sub_gate pc \<le> 1"
    using h b other_holds(3) [of "syLc s"] by linarith+
  assume j: "j < length (sySubs s)" "sySubs s ! j = (d, pd)" "i \<noteq> j"
  have "sub_gate pc + sub_gate pd \<le> held sub_gate (sySubs s)" using assms j by (intro held_two) auto
  then show "sub_gate pc + sub_gate pd \<le> 1" using b other_holds(3) [of "syLc s"] by linarith
qed

lemma lock_exclusive:
  assumes "cb_balanced s" "i < length (syCbs s)" "syCbs s ! i = (c, pc)"
  shows "cb_lock pc + lc_lock (syLc s) \<le> 1" "cb_lock pc = 1 \<Longrightarrow> mdCallbackMu (syM s) \<noteq> None"
    "j < length (syCbs s) \<Longrightarrow> syCbs s ! j = (d, pd) \<Longrightarrow> i \<noteq> j \<Longrightarrow> cb_lock pc + cb_lock pd \<le> 1"
proof -
  have h: "cb_lock pc \<le> held cb_lock (syCbs s)" using assms by (intro held_ge) auto
  have b: "0 \<le> free_mu (syM s)" "free_mu (syM s) + held cb_lock (syCbs s) + lc_lock (syLc s) = 1"
    using assms(1) by (simp_all add: cb_balanced_def free_mu_def)
  show "cb_lock pc + lc_lock (syLc s) \<le> 1" using h b by linarith
  have "cb_lock pc = 1 \<Longrightarrow> free_mu (syM s) < 1" using h b other_holds(4) [of "syLc s"] by linarith
  then show "cb_lock pc = 1 \<Longrightarrow> mdCallbackMu (syM s) \<noteq> None" by (auto simp: free_mu_def split: if_splits)
  assume j: "j < length (syCbs s)" "syCbs s ! j = (d, pd)" "i \<noteq> j"
  have "cb_lock pc + cb_lock pd \<le> held cb_lock (syCbs s)" using assms j by (intro held_two) auto
  then show "cb_lock pc + cb_lock pd \<le> 1" using b other_holds(4) [of "syLc s"] by linarith
qed

lemma lc_lock_mu:
  assumes "cb_balanced s" "lc_lock (syLc s) = 1"
  shows "mdCallbackMu (syM s) \<noteq> None"
proof -
  have "0 \<le> held cb_lock (syCbs s)" by (intro held_nonneg) simp
  then have "free_mu (syM s) < 1" using assms unfolding cb_balanced_def by linarith
  then show ?thesis by (auto simp: free_mu_def split: if_splits)
qed

section \<open>What a single step does\<close>

lemmas step_splits = outcome.splits prod.splits if_splits SendMode.splits list.splits decision.splits option.splits

lemma submit_start_payload:
  assumes "submit_start env c = SubGate p l"
  shows "int (length p) \<le> 2 ^ 61" "\<exists>ch. selectedMessageBinding (scMessage c) = (l, ch, True) \<and> encodeAdapterPayload ch (scWrapped c) = Ok p"
  using assms encode_shape [of "scChannelID c" "scWrapped c" p]
  by (auto simp: submit_start_def split: step_splits)

lemma encode_no_panic: "encodeAdapterPayload ch w \<noteq> Panic e"
  by (simp add: encodeAdapterPayload_def)

lemma nextID_no_panic: "nextID L cap cs d \<noteq> Panic e"
  by (simp add: nextID_def split: option.splits)

lemma nextID_next:
  assumes "counted cs ds" "\<forall>d. count_list ds d \<le> MaxUint64" "nextID L cap cs d = Ok (mid, cs')"
  shows "mid = id_prefix L d @ dec (count_list ds d)" "counted cs' (ds @ [d])" "\<forall>e. count_list (ds @ [d]) e \<le> MaxUint64"
proof -
  let ?n = "of_nat (count_list ds d) :: 64 word"
  have le: "count_list ds d \<le> MaxUint64" using assms(2) by blast
  then have u: "unat ?n = count_list ds d" by (simp add: unat_of_nat)
  have m: "map_of cs d = (if d \<in> set ds then Some ?n else None)" using counted_lookup [OF assms(1)] .
  have z: "d \<notin> set ds \<Longrightarrow> count_list ds d = 0" by simp
  have max: "?n \<noteq> - 1 \<Longrightarrow> count_list ds d < MaxUint64"
  proof (rule ccontr)
    assume "?n \<noteq> - 1" "\<not> count_list ds d < MaxUint64"
    moreover from this have "count_list ds d = unat (- 1 :: 64 word)"
      using le by (simp add: unsigned_minus_1_eq_mask mask_eq_exp_minus_1)
    ultimately show False by (metis unsigned_word_eqI u)
  qed
  show "mid = id_prefix L d @ dec (count_list ds d)" using assms(3) m u z by (auto simp: nextID_def split: if_splits)
  show "counted cs' (ds @ [d])"
    using assms(3) m z counted_update [OF assms(1), of d] by (auto simp: nextID_def add.commute split: if_splits)
  have "count_list ds d < MaxUint64" using assms(3) m z max by (cases "d \<in> set ds") (auto simp: nextID_def split: if_splits)
  then show "\<forall>e. count_list (ds @ [d]) e \<le> MaxUint64" using assms(2) by (auto simp: count_list_snoc)
qed

text \<open>What a submission that holds the gate relies on.\<close>

definition out_rely :: "controllerMediation \<Rightarrow> controllerMediation \<Rightarrow> bool" where
  "out_rely m m' \<longleftrightarrow> mdOutboundBytes m' \<le> mdOutboundBytes m \<and> mdOutboundClosed m' = mdOutboundClosed m \<and>
     gained (mdOutboundQueue m) (mdOutboundQueue m') = [] \<and> mdCounters m' = mdCounters m"

definition cb_rely :: "controllerMediation \<Rightarrow> controllerMediation \<Rightarrow> bool" where
  "cb_rely m m' \<longleftrightarrow> mdCallbackBytes m' \<le> mdCallbackBytes m \<and> mdCallbackClosed m' = mdCallbackClosed m"

lemma rely_frame: "out_fields m' = out_fields m \<Longrightarrow> out_rely m m'" "cb_fields m' = cb_fields m \<Longrightarrow> cb_rely m m'"
  by (auto simp: out_fields_eq cb_fields_eq out_rely_def cb_rely_def)

lemma Submit_rely: "(pc', m') \<in> set (Submit env c pc m) \<Longrightarrow> sub_gate pc = 0 \<Longrightarrow> out_rely m m'"
  by (cases pc) (auto simp: out_rely_def submit_defs split: step_splits)

lemma submissionWorker_rely:
  assumes "(pc', m') \<in> set (submissionWorker r pc m)" "no_overflow (mdOutboundBytes m) lim"
    and "0 \<le> wk_bytes oiBytes pc" "wk_bytes oiBytes pc \<le> mdOutboundBytes m"
  shows "out_rely m m'"
proof (cases pc)
  case (WkBytes x e)
  then show ?thesis using assms wrap64_release [OF assms(2), of "oiBytes x"] by (auto simp: out_rely_def)
next
  case WkTake
  then show ?thesis using assms(1) by (cases "mdOutboundQueue m") (auto simp: out_rely_def split: if_splits)
qed (use assms(1) in \<open>auto simp: out_rely_def submit_defs split: step_splits\<close>)

lemma lifecycle_rely:
  assumes "(pc', m') \<in> set (lifecycle ch fin tid pc m)" "no_overflow (mdOutboundBytes m) lim"
    and "0 \<le> lc_out_bytes pc" "lc_out_bytes pc \<le> mdOutboundBytes m" "lc_gate pc = 0"
  shows "out_rely m m'"
proof (cases pc)
  case (LcDrainOutBytes x)
  then show ?thesis using assms wrap64_release [OF assms(2), of "oiBytes x"] by (auto simp: out_rely_def)
next
  case LcDrainOut
  then show ?thesis using assms(1) by (cases "mdOutboundQueue m") (auto simp: out_rely_def split: if_splits)
qed (use assms(1,5) in \<open>auto simp: out_rely_def submit_defs lc_gate_def split: step_splits\<close>)

lemma serveMessage_rely: "(pc', m') \<in> set (serveMessage env peers tid rq pc m) \<Longrightarrow> cb_lock pc = 0 \<Longrightarrow> cb_rely m m'"
  by (cases pc) (auto simp: cb_rely_def submit_defs split: step_splits)

lemma reinjectionWorker_rely:
  assumes "(pc', m') \<in> set (reinjectionWorker r pc m)" "no_overflow (mdCallbackBytes m) lim"
    and "0 \<le> wk_bytes riBytes pc" "wk_bytes riBytes pc \<le> mdCallbackBytes m"
  shows "cb_rely m m'"
proof (cases pc)
  case (WkBytes x e)
  then show ?thesis using assms wrap64_release [OF assms(2), of "riBytes x"] by (auto simp: cb_rely_def)
qed (use assms(1) in \<open>auto simp: cb_rely_def submit_defs split: step_splits\<close>)

lemma lifecycle_cb_rely:
  assumes "(pc', m') \<in> set (lifecycle ch fin tid pc m)" "no_overflow (mdCallbackBytes m) lim"
    and "0 \<le> lc_cb_bytes pc" "lc_cb_bytes pc \<le> mdCallbackBytes m" "lc_lock pc = 0"
  shows "cb_rely m m'"
proof (cases pc)
  case (LcDrainCbBytes x)
  then show ?thesis using assms wrap64_release [OF assms(2), of "riBytes x"] by (auto simp: cb_rely_def)
qed (use assms(1,5) in \<open>auto simp: cb_rely_def submit_defs lc_lock_def split: step_splits\<close>)

lemma sub_ok_rely: "sub_ok env acc m c pc \<Longrightarrow> (sub_gate pc = 1 \<Longrightarrow> out_rely m m' \<and> acc' = acc) \<Longrightarrow> sub_ok env acc' m' c pc"
  by (cases pc) (auto simp: out_rely_def)

lemma cb_ok_rely: "cb_ok env m pc \<Longrightarrow> (cb_lock pc = 1 \<Longrightarrow> cb_rely m m') \<Longrightarrow> cb_ok env m' pc"
  by (cases pc) (auto simp: cb_rely_def)

lemma Submit_ok:
  assumes "(pc', m') \<in> set (Submit env c pc m)" "sub_ok env acc m c pc" "no_overflow (mdOutboundBytes m) (mcOutboundQueueBytes (meConfig env))"
    and "lc_ok lc m" "sub_gate pc = 1 \<Longrightarrow> (\<And>p l mid. pc \<noteq> SubSend p l mid) \<Longrightarrow>
      counted (mdCounters m) (destinations acc) \<and> (\<forall>d. count_list (destinations acc) d \<le> MaxUint64)"
  shows "sub_ok env (acc @ gained (mdOutboundQueue m) (mdOutboundQueue m')) m' c pc'"
proof (cases pc)
  case (SubLoad p l)
  then have "wrap64 (mdOutboundBytes m + int (length p)) = mdOutboundBytes m + int (length p)"
    using assms(2,3) by (intro wrap64_probe) (auto dest: submit_start_payload(1))
  then show ?thesis using assms(1,2) SubLoad by auto
next
  case (SubNext p l)
  then show ?thesis using assms(1,2,5) nextID_no_panic by (auto split: outcome.splits dest: nextID_next(1))
next
  case (SubReady p l)
  then show ?thesis using assms(1,2,4) by (auto simp: isReady_def lc_ok_def)
qed (use assms(1,2) in \<open>auto simp: submit_defs submit_start_def encode_no_panic split: step_splits\<close>)

lemma check_callback_accept:
  "check_callback env peers body = Ok (CbAccept x) \<longleftrightarrow>
     (\<exists>outer payload decoded. decodeControllerMessage body = Ok outer \<and> cmTo outer = meLocalID env \<and>
        validateControllerID (cmFrom outer) = Ok () \<and> validateControllerMessageID outer = Ok () \<and> cmType outer \<noteq> [] \<and>
        peers (cmFrom outer) = Some True \<and> decodeAdapterPayload (cmData outer) = Ok payload \<and> SelectedRoute (apChannelID payload) \<and>
        snd (ReceiveCapacity (meRegistry env) (apChannelID payload)) \<and>
        int (length (apWrapped payload)) \<le> fst (ReceiveCapacity (meRegistry env) (apChannelID payload)) \<and>
        Decode (meUnmarshal env) (meRegistry env) (apChannelID payload) (apWrapped payload) = Ok decoded \<and>
        selectedMessageBinding decoded = (cmType outer, apChannelID payload, True) \<and> validateSelectedMessage decoded = Ok () \<and>
        x = \<lparr>riMessage = outer, riChannelID = apChannelID payload, riWrapped = apWrapped payload, riBytes = int (length (apWrapped payload))\<rparr>)"
  (is "?l = ?r")
proof
  show "?l \<Longrightarrow> ?r"
    unfolding check_callback_def
    by (simp split: outcome.splits prod.splits if_splits)
  show "?r \<Longrightarrow> ?l"
    by (auto simp: check_callback_def split: prod.splits)
qed

lemma serveMessage_ok:
  assumes "(pc', m') \<in> set (serveMessage env peers tid rq pc m)" "cb_ok env m pc"
    and "no_overflow (mdCallbackBytes m) (mcCallbackQueueBytes (meConfig env))" "lc_ok lc m"
  shows "cb_ok env m' pc'"
proof (cases pc)
  case CbLook
  have "cb_item_ok x" if acc: "check_callback env peers body = Ok (CbAccept x)" for x body
  proof -
    obtain outer payload where "decodeAdapterPayload (cmData outer) = Ok payload"
      "x = \<lparr>riMessage = outer, riChannelID = apChannelID payload, riWrapped = apWrapped payload, riBytes = int (length (apWrapped payload))\<rparr>"
      using acc unfolding check_callback_accept by blast
    moreover from this(1) have "length (apWrapped payload) < 2 ^ 32"
      by (auto dest!: encode_decode simp: encode_shape)
    ultimately show ?thesis by (simp add: cb_item_ok_def)
  qed
  then show ?thesis using assms(1) CbLook by (auto split: step_splits)
next
  case (CbLoad x)
  then have "wrap64 (mdCallbackBytes m + riBytes x) = mdCallbackBytes m + riBytes x"
    using assms(2,3) by (intro wrap64_probe) (auto dest: cb_item_bytes)
  then show ?thesis using assms(1,2) CbLoad by auto
next
  case (CbReady x)
  then show ?thesis using assms(1,2,4) by (auto simp: isReady_def lc_ok_def)
qed (use assms(1,2) in \<open>auto simp: submit_defs split: step_splits\<close>)

text \<open>Limits, items and the lifecycle.\<close>

lemma Submit_limits:
  assumes "(pc', m') \<in> set (Submit env c pc m)" "within_limits env m" "sub_ok env acc m c pc"
    "no_overflow (mdOutboundBytes m) (mcOutboundQueueBytes (meConfig env))" "sub_bytes pc \<le> mdOutboundBytes m"
  shows "within_limits env m'"
proof (cases pc)
  case (SubAdd p l)
  then have "wrap64 (mdOutboundBytes m + int (length p)) = mdOutboundBytes m + int (length p)"
    using assms(3,4) by (intro wrap64_reserve [of _ _ "mcOutboundQueueBytes (meConfig env)"]) (auto simp: no_overflow_def)
  then show ?thesis using assms(1-3) SubAdd by (auto simp: within_limits_def)
next
  case (SubUndoBytes p e)
  then show ?thesis using assms wrap64_release [OF assms(4), of "int (length p)"] by (auto simp: within_limits_def)
qed (use assms(1,2) in \<open>auto simp: within_limits_def submit_defs split: step_splits\<close>)

lemma serveMessage_limits:
  assumes "(pc', m') \<in> set (serveMessage env peers tid rq pc m)" "within_limits env m" "cb_ok env m pc"
    "no_overflow (mdCallbackBytes m) (mcCallbackQueueBytes (meConfig env))"
  shows "within_limits env m'"
proof (cases pc)
  case (CbAdd x)
  then have "wrap64 (mdCallbackBytes m + riBytes x) = mdCallbackBytes m + riBytes x"
    using assms(3,4) by (intro wrap64_reserve [of _ _ "mcCallbackQueueBytes (meConfig env)"]) (auto simp: no_overflow_def dest: cb_item_bytes)
  then show ?thesis using assms(1-3) CbAdd by (auto simp: within_limits_def)
qed (use assms(1,2) in \<open>auto simp: within_limits_def submit_defs split: step_splits\<close>)

lemma submissionWorker_limits:
  assumes "(pc', m') \<in> set (submissionWorker r pc m)" "within_limits env m" "out_rely m m'"
  shows "within_limits env m'"
  using assms by (cases pc) (auto simp: within_limits_def out_rely_def submit_defs split: step_splits)

lemma reinjectionWorker_limits:
  assumes "(pc', m') \<in> set (reinjectionWorker r pc m)" "within_limits env m" "cb_rely m m'"
  shows "within_limits env m'"
  using assms by (cases pc) (auto simp: within_limits_def cb_rely_def submit_defs split: step_splits)

lemma lifecycle_limits:
  assumes "(pc', m') \<in> set (lifecycle ch fin tid pc m)" "within_limits env m"
    and "lc_gate pc = 0 \<Longrightarrow> out_rely m m'" "lc_lock pc = 0 \<Longrightarrow> cb_rely m m'"
  shows "within_limits env m'"
  using assms by (cases pc) (auto simp: within_limits_def out_rely_def cb_rely_def lc_gate_def lc_lock_def submit_defs split: step_splits)

lemma serve_listener_limits: "(pc', m') \<in> set (serve_listener e pc m) \<Longrightarrow> within_limits env m \<Longrightarrow> within_limits env m'"
  by (cases pc) (auto simp: within_limits_def submit_defs split: step_splits)

text \<open>Only the lifecycle changes its own fields; anyone may withdraw the readiness with a fatal error.\<close>

definition lc_frame :: "controllerMediation \<Rightarrow> controllerMediation \<Rightarrow> bool" where
  "lc_frame m m' \<longleftrightarrow> mdStopping m' = mdStopping m \<and> mdOutboundClosed m' = mdOutboundClosed m \<and> mdCallbackClosed m' = mdCallbackClosed m \<and>
     mdLifecycle m' = mdLifecycle m \<and> mdEverReady m' = mdEverReady m \<and> (mdReady m' \<longrightarrow> mdReady m \<and> mdFatalErr m' = mdFatalErr m)"

lemma lc_ok_frame: "lc_frame m m' \<Longrightarrow> lc_ok lc m \<Longrightarrow> lc_ok lc m'"
  unfolding lc_frame_def lc_ok_def stopped_def by metis

lemma Submit_lc: "(pc', m') \<in> set (Submit env c pc m) \<Longrightarrow> lc_frame m m'"
  by (cases pc) (auto simp: lc_frame_def submit_defs split: step_splits)

lemma serveMessage_lc: "(pc', m') \<in> set (serveMessage env peers tid rq pc m) \<Longrightarrow> lc_frame m m'"
  by (cases pc) (auto simp: lc_frame_def submit_defs split: step_splits)

lemma submissionWorker_lc: "(pc', m') \<in> set (submissionWorker r pc m) \<Longrightarrow> lc_frame m m'"
  by (cases pc) (auto simp: lc_frame_def submit_defs split: step_splits)

lemma reinjectionWorker_lc: "(pc', m') \<in> set (reinjectionWorker r pc m) \<Longrightarrow> lc_frame m m'"
  by (cases pc) (auto simp: lc_frame_def submit_defs split: step_splits)

lemma serve_listener_lc: "(pc', m') \<in> set (serve_listener e pc m) \<Longrightarrow> lc_frame m m'"
  by (cases pc) (auto simp: lc_frame_def submit_defs split: step_splits)

lemma lifecycle_lc: "(pc', m') \<in> set (lifecycle ch fin tid pc m) \<Longrightarrow> lc_ok pc m \<Longrightarrow> lc_ok pc' m'"
  by (cases pc) (auto simp: lc_ok_def stopped_def submit_defs split: step_splits)

end
