(* ===== verification/Mediation_Steps.thy ===== *)
theory Mediation_Steps
  imports Mediation_Safety
begin

text \<open>Each rule of the step relation of the mediation service keeps the invariant.\<close>

section \<open>Queues\<close>

definition queue_step :: "'i list \<Rightarrow> 'i list \<Rightarrow> bool" where
  "queue_step q q' \<longleftrightarrow> q' = q \<or> (\<exists>x. q' = q @ [x]) \<or> (\<exists>x. q = x # q')"

lemma queue_step_simps [simp]: "queue_step q q" "queue_step q (q @ [x])" "queue_step (x # q) q"
  by (simp_all add: queue_step_def)

lemma queue_step_take [intro]: "x # q' = q \<Longrightarrow> queue_step q q'"
  by auto

lemma fifo_step: "queue_step q q' \<Longrightarrow> acc = taken @ q \<Longrightarrow> acc @ gained q q' = (taken @ lost q q') @ q'"
  by (auto simp: queue_step_def)

definition queues_step :: "controllerMediation \<Rightarrow> controllerMediation \<Rightarrow> bool" where
  "queues_step m m' \<longleftrightarrow> queue_step (mdOutboundQueue m) (mdOutboundQueue m') \<and> queue_step (mdCallbackQueue m) (mdCallbackQueue m')"

lemma Submit_queues: "(pc', m') \<in> set (Submit env c pc m) \<Longrightarrow> queues_step m m'"
  by (cases pc) (auto simp: queues_step_def submit_defs split: step_splits)

lemma serveMessage_queues: "(pc', m') \<in> set (serveMessage env peers tid rq pc m) \<Longrightarrow> queues_step m m'"
  by (cases pc) (auto simp: queues_step_def submit_defs split: step_splits)

lemma submissionWorker_queues: "(pc', m') \<in> set (submissionWorker r pc m) \<Longrightarrow> queues_step m m'"
  by (cases pc) (auto simp: queues_step_def submit_defs split: step_splits)

lemma reinjectionWorker_queues: "(pc', m') \<in> set (reinjectionWorker r pc m) \<Longrightarrow> queues_step m m'"
  by (cases pc) (auto simp: queues_step_def submit_defs split: step_splits)

lemma lifecycle_queues: "(pc', m') \<in> set (lifecycle ch fin tid pc m) \<Longrightarrow> queues_step m m'"
  by (cases pc) (auto simp: queues_step_def submit_defs split: step_splits)

lemma serve_listener_queues: "(pc', m') \<in> set (serve_listener e pc m) \<Longrightarrow> queues_step m m'"
  by (cases pc) (auto simp: queues_step_def submit_defs split: step_splits)

lemma fifo_advance:
  assumes "fifo s" "queues_step (syM s) m'"
  shows "fifo (advance m' s)"
  using assms unfolding fifo_def queues_step_def by (auto intro!: fifo_step simp flip: append_assoc)

section \<open>Items\<close>

lemma Submit_items: "(pc', m') \<in> set (Submit env c pc m) \<Longrightarrow> list_all out_item_ok (mdOutboundQueue m) \<Longrightarrow> list_all out_item_ok (mdOutboundQueue m')"
  by (cases pc) (auto simp: out_item_ok_def submitted_item_def submit_defs split: step_splits)

lemma serveMessage_items:
  "(pc', m') \<in> set (serveMessage env peers tid rq pc m) \<Longrightarrow> cb_ok env m pc \<Longrightarrow> list_all cb_item_ok (mdCallbackQueue m) \<Longrightarrow>
   list_all cb_item_ok (mdCallbackQueue m')"
  by (cases pc) (auto simp: submit_defs split: step_splits)

lemma submissionWorker_items:
  assumes "(pc', m') \<in> set (submissionWorker r pc m)" "list_all out_item_ok (mdOutboundQueue m)" "wk_item_ok out_item_ok pc"
  shows "list_all out_item_ok (mdOutboundQueue m') \<and> wk_item_ok out_item_ok pc'"
proof (cases pc)
  case WkTake
  then show ?thesis using assms by (cases "mdOutboundQueue m") (auto split: if_splits)
qed (use assms in \<open>auto simp: submit_defs split: if_splits option.splits\<close>)

lemma reinjectionWorker_items:
  assumes "(pc', m') \<in> set (reinjectionWorker r pc m)" "list_all cb_item_ok (mdCallbackQueue m)" "wk_item_ok cb_item_ok pc"
  shows "list_all cb_item_ok (mdCallbackQueue m') \<and> wk_item_ok cb_item_ok pc'"
proof (cases pc)
  case WkTake
  then show ?thesis using assms by (cases "mdCallbackQueue m") (auto split: if_splits)
qed (use assms in \<open>auto simp: submit_defs split: if_splits option.splits\<close>)

lemma lifecycle_items:
  assumes "(pc', m') \<in> set (lifecycle ch fin tid pc m)" "list_all out_item_ok (mdOutboundQueue m)" "list_all cb_item_ok (mdCallbackQueue m)"
    "lc_items_ok pc"
  shows "list_all out_item_ok (mdOutboundQueue m') \<and> list_all cb_item_ok (mdCallbackQueue m') \<and> lc_items_ok pc'"
proof (cases pc)
  case LcDrainOut
  then show ?thesis using assms by (cases "mdOutboundQueue m") (auto split: if_splits)
next
  case LcDrainCb
  then show ?thesis using assms by (cases "mdCallbackQueue m") (auto split: if_splits)
qed (use assms in \<open>auto simp: submit_defs split: if_splits\<close>)

section \<open>Numbers\<close>

lemma destinations_append [simp]: "destinations (xs @ ys) = destinations xs @ destinations ys" "destinations [] = []"
  by (simp_all add: destinations_def)

lemma pending_gate: "sub_gate pc = 0 \<Longrightarrow> pending_of (c, pc) = []"
  by (cases pc) auto

lemma pending_none: "held sub_gate ts \<le> 0 \<Longrightarrow> concat (map pending_of ts) = []"
proof (induction ts)
  case (Cons t ts)
  have "0 \<le> held sub_gate ts" by (intro held_nonneg) simp
  moreover have "0 \<le> sub_gate (snd t)" "sub_gate (snd t) + held sub_gate ts \<le> 0" using Cons.prems by simp_all
  ultimately have "held sub_gate ts \<le> 0" "sub_gate (snd t) = 0" by linarith+
  then show ?case using Cons.IH pending_gate by (cases t) auto
qed simp

lemma pending_alone:
  assumes "held sub_gate ts \<le> 1" "i < length ts" "ts ! i = (c, pc)" "sub_gate pc = 1"
  shows "concat (map pending_of (ts[i := (c, pc')])) = pending_of (c, pc')"
proof -
  have "0 \<le> held sub_gate (take i ts)" "0 \<le> held sub_gate (drop (Suc i) ts)" by (intro held_nonneg; simp)+
  then have "held sub_gate (take i ts) \<le> 0" "held sub_gate (drop (Suc i) ts) \<le> 0" using assms held_split [OF assms(2), of sub_gate] by simp_all
  then show ?thesis using assms(2) by (simp add: upd_conv_take_nth_drop pending_none)
qed

lemma pending_same:
  assumes "i < length ts" "ts ! i = (c, pc)" "pending_of (c, pc) = []" "pending_of (c, pc') = []"
  shows "map pending_of (ts[i := (c, pc')]) = map pending_of ts"
  using assms by (metis list_update_id map_update nth_map)

lemma numbering_snoc:
  assumes "numbering L xs" "cmID (oiMessage x) = id_prefix L (cmTo (oiMessage x)) @ dec (count_list (destinations xs) (cmTo (oiMessage x)))"
  shows "numbering L (xs @ [x])"
proof -
  have len: "length (destinations xs) = length xs" by (simp add: destinations_def)
  show ?thesis
    unfolding numbering_def
  proof (intro allI impI)
    fix k assume "k < length (xs @ [x])"
    then consider "k < length xs" | "k = length xs" by fastforce
    then show "cmID (oiMessage ((xs @ [x]) ! k)) = id_prefix L (destinations (xs @ [x]) ! k) @
      dec (count_list (take k (destinations (xs @ [x]))) (destinations (xs @ [x]) ! k))"
    proof cases
      case 1 then show ?thesis using assms(1) len by (simp add: numbering_def nth_append)
    next
      case 2 then show ?thesis using assms(2) len by (simp add: nth_append destinations_def)
    qed
  qed
qed

lemma Submit_numbering:
  assumes "(pc', m') \<in> set (Submit env c pc m)" "sub_ok env acc m c pc" "numbering (meLocalID env) acc"
  shows "numbering (meLocalID env) (acc @ gained (mdOutboundQueue m) (mdOutboundQueue m'))"
proof (cases pc)
  case (SubSend p l mid)
  then show ?thesis using assms by (auto simp: submitted_item_def split: if_splits intro!: numbering_snoc)
qed (use assms(1,3) in \<open>auto simp: submit_defs split: step_splits\<close>)

definition count_ok :: "counters \<Rightarrow> string list \<Rightarrow> bool" where
  "count_ok cs ds \<longleftrightarrow> counted cs ds \<and> (\<forall>d. count_list ds d \<le> MaxUint64)"

lemma Submit_count:
  assumes "(pc', m') \<in> set (Submit env c pc m)" "count_ok (mdCounters m) (destinations acc @ pending_of (c, pc))" "pc' \<noteq> SubPanic"
  shows "count_ok (mdCounters m') (destinations (acc @ gained (mdOutboundQueue m) (mdOutboundQueue m')) @ pending_of (c, pc'))"
proof (cases pc)
  case (SubNext p l)
  then show ?thesis using assms nextID_next(2,3) [of "mdCounters m" "destinations acc"]
    by (auto simp: count_ok_def split: outcome.splits)
next
  case (SubSend p l mid)
  then show ?thesis using assms by (auto simp: submitted_item_def destinations_def split: if_splits)
qed (use assms in \<open>auto simp: submit_defs submit_start_def split: step_splits\<close>)

lemma Submit_no_number: "(pc', m') \<in> set (Submit env c pc m) \<Longrightarrow> sub_gate pc = 0 \<Longrightarrow> pending_of (c, pc') = []"
  by (cases pc) (auto simp: submit_defs submit_start_def split: step_splits)

section \<open>The rules\<close>

lemma counters_ok_alt: "counters_ok s \<longleftrightarrow> count_ok (mdCounters (syM s)) (numbered s)"
  by (simp add: counters_ok_def count_ok_def)

lemma Submit_gate_nonneg: "(pc', m') \<in> set (Submit env c pc m) \<Longrightarrow> 0 \<le> mdSubmitGate m \<Longrightarrow> 0 \<le> mdSubmitGate m'"
  by (cases pc) (auto simp: submit_defs split: step_splits)

lemma lifecycle_gate_nonneg: "(pc', m') \<in> set (lifecycle ch fin tid pc m) \<Longrightarrow> 0 \<le> mdSubmitGate m \<Longrightarrow> 0 \<le> mdSubmitGate m'"
  by (cases pc) (auto simp: submit_defs split: step_splits)

lemma balanced_frame:
  "cb_balanced s \<Longrightarrow> cb_fields m' = cb_fields (syM s) \<Longrightarrow> cb_balanced (advance m' s)"
  "out_balanced s \<Longrightarrow> out_fields m' = out_fields (syM s) \<Longrightarrow> out_balanced (advance m' s)"
  by (auto simp: cb_balanced_def out_balanced_def cb_fields_eq out_fields_eq free_mu_def)

lemma update_all:
  assumes "\<forall>(c, pc) \<in> set ts. P c pc" "P' c pc'" "\<And>j d pd. j < length ts \<Longrightarrow> ts ! j = (d, pd) \<Longrightarrow> j \<noteq> i \<Longrightarrow> P d pd \<Longrightarrow> P' d pd"
  shows "\<forall>(c, pc) \<in> set (ts[i := (c, pc')]). P' c pc"
proof -
  have "case ts[i := (c, pc')] ! j of (d, pd) \<Rightarrow> P' d pd" if j: "j < length ts" for j
  proof (cases "j = i")
    case False
    obtain d pd where "ts ! j = (d, pd)" by fastforce
    moreover from this have "P d pd" using assms(1) nth_mem [OF j] by auto
    ultimately show ?thesis using assms(3) [OF j _ False] False by simp
  qed (use assms(2) j in simp)
  then show ?thesis by (metis (mono_tags, lifting) in_set_conv_nth length_list_update)
qed

lemma Inv_submit:
  assumes I: "Inv env s" and fit: "limits_fit (meConfig env)"
    and i: "i < length (sySubs s)" "sySubs s ! i = (c, pc)" and st: "(pc', m') \<in> set (Submit env c pc (syM s))"
  shows "Inv env ((advance m' s)\<lparr>sySubs := (sySubs s)[i := (c, pc')]\<rparr>)" (is "Inv env ?s")
proof -
  note P = Inv_parts [OF I] and B = Inv_bytes [OF I fit]
  let ?acc = "syAccepted s @ gained (mdOutboundQueue (syM s)) (mdOutboundQueue m')"
  have ok: "sub_ok env (syAccepted s) (syM s) c pc" using thread_ok(1) [OF P(10) i] .
  have one: "held sub_gate (sySubs s) \<le> 1"
    using P(1) other_holds(3) [of "syLc s"] unfolding out_balanced_def by linarith
  have num: "sub_gate pc = 1 \<Longrightarrow> numbered s = destinations (syAccepted s) @ pending_of (c, pc)"
    using pending_alone [OF one i, of pc] i by (simp add: numbered_def) (metis list_update_id)
  have ok': "sub_ok env ?acc m' c pc'"
  proof (rule Submit_ok [OF st ok B(1) P(6)])
    assume g: "sub_gate pc = 1" and "\<And>p l mid. pc \<noteq> SubSend p l mid"
    then have "pending_of (c, pc) = []" by (cases pc) auto
    then show "counted (mdCounters (syM s)) (destinations (syAccepted s)) \<and> (\<forall>d. count_list (destinations (syAccepted s)) d \<le> MaxUint64)"
      using num [OF g] P(8) by (simp add: counters_ok_def)
  qed
  then have np: "pc' \<noteq> SubPanic" by auto
  note U = held_update [OF i]
  have "\<And>p l. pc = SubAdd p l \<Longrightarrow> mdOutboundBytes (syM s) + int (length p) \<le> mcOutboundQueueBytes (meConfig env)" using ok by auto
  then have "out_balanced ?s" "cb_balanced ?s" "fatal_once ?s"
    using Submit_out [OF st B(1) B(3) [OF i] _ np] Submit_gate_nonneg [OF st] Submit_fatal [OF st] P(1-3)
      balanced_frame(1) [OF P(2) Submit_frame [OF st]]
    by (auto simp: out_balanced_def cb_balanced_def fatal_once_def out_move_def U)
  moreover have "within_limits env m'" using Submit_limits [OF st P(4) ok B(1) B(3) [OF i]] .
  moreover have "items_ok ?s" "fifo ?s"
    using P(5) Submit_items [OF st] Submit_frame [OF st] fifo_advance [OF P(11) Submit_queues [OF st]]
    by (simp_all add: items_ok_def cb_fields_eq fifo_def)
  moreover have "lc_ok (syLc s) m'" "unstarted ?s"
    using lc_ok_frame [OF Submit_lc [OF st] P(6)] P(7) Submit_lc [OF st] by (simp_all add: unstarted_def lc_frame_def)
  moreover have "numbering (meLocalID env) ?acc" using Submit_numbering [OF st ok P(9)] .
  moreover have "counters_ok ?s"
  proof (cases "sub_gate pc = 1")
    case True
    then show ?thesis using Submit_count [OF st _ np, of "syAccepted s"] num P(8) pending_alone [OF one i True, of pc']
      by (simp add: counters_ok_alt numbered_def)
  next
    case False
    then have g: "sub_gate pc = 0" by (cases pc) (auto split: if_splits)
    show ?thesis using P(8) Submit_rely [OF st g] pending_same [OF i pending_gate [OF g] Submit_no_number [OF st g]]
      by (simp add: counters_ok_alt numbered_def out_rely_def)
  qed
  moreover have "threads_ok env ?s"
  proof -
    have "\<forall>(c, pc) \<in> set ((sySubs s)[i := (c, pc')]). sub_ok env ?acc m' c pc"
    proof (rule update_all [where P = "sub_ok env (syAccepted s) (syM s)"])
      fix j d pd assume j: "j < length (sySubs s)" "sySubs s ! j = (d, pd)" "j \<noteq> i" "sub_ok env (syAccepted s) (syM s) d pd"
      show "sub_ok env ?acc m' d pd"
      proof (rule sub_ok_rely [OF j(4)])
        assume "sub_gate pd = 1"
        then have "sub_gate pc = 0" using gate_exclusive(3) [OF P(1) i j(1,2)] j(3) sub_holds(1) [of pc] by linarith
        then show "out_rely (syM s) m' \<and> ?acc = syAccepted s" using Submit_rely [OF st] by (auto simp: out_rely_def)
      qed
    qed (use P(10) ok' in \<open>auto simp: threads_ok_def\<close>)
    moreover have "\<forall>(rq, pc) \<in> set (syCbs s). cb_ok env m' pc"
      using P(10) rely_frame(2) [OF Submit_frame [OF st]] unfolding threads_ok_def by (auto intro: cb_ok_rely)
    ultimately show ?thesis by (simp add: threads_ok_def)
  qed
  ultimately show ?thesis by (simp add: Inv_def)
qed

text \<open>Steps of the other goroutines leave the submissions and the numbers alone.\<close>

lemma held_pos:
  assumes "(c, pc) \<in> set ts" "\<And>pc. 0 \<le> f pc" "f pc = 1"
  shows "0 < held f ts"
proof -
  obtain i where "i < length ts" "ts ! i = (c, pc)" using assms(1) by (auto simp: in_set_conv_nth)
  then show ?thesis using held_ge [of f i ts c pc] assms(2,3) by simp
qed

lemma out_kept:
  assumes "Inv env s" "gained (mdOutboundQueue (syM s)) (mdOutboundQueue m') = []" "mdCounters m' = mdCounters (syM s)"
    and "0 < held sub_gate (sySubs s) \<Longrightarrow> out_rely (syM s) m'"
  shows "counters_ok (advance m' s)" "numbering (meLocalID env) (syAccepted (advance m' s))"
    "\<forall>(c, pc) \<in> set (sySubs s). sub_ok env (syAccepted (advance m' s)) m' c pc"
proof -
  note P = Inv_parts [OF assms(1)]
  show "counters_ok (advance m' s)" "numbering (meLocalID env) (syAccepted (advance m' s))"
    using P(8,9) assms(2,3) by (simp_all add: counters_ok_def numbered_def)
  have "sub_ok env (syAccepted s) m' c pc" if mem: "(c, pc) \<in> set (sySubs s)" for c pc
  proof (rule sub_ok_rely)
    show "sub_ok env (syAccepted s) (syM s) c pc" using P(10) mem by (auto simp: threads_ok_def)
    assume "sub_gate pc = 1"
    then show "out_rely (syM s) m' \<and> syAccepted s = syAccepted s" using assms(4) held_pos [OF mem sub_holds(1)] by simp
  qed
  then show "\<forall>(c, pc) \<in> set (sySubs s). sub_ok env (syAccepted (advance m' s)) m' c pc" using assms(2) by auto
qed

lemma cb_kept:
  assumes "Inv env s" "0 < held cb_lock (syCbs s) \<Longrightarrow> cb_rely (syM s) m'"
  shows "\<forall>(rq, pc) \<in> set (syCbs s). cb_ok env m' pc"
proof -
  have "cb_ok env m' pc" if mem: "(rq, pc) \<in> set (syCbs s)" for rq pc
  proof (rule cb_ok_rely)
    show "cb_ok env (syM s) pc" using Inv_parts(10) [OF assms(1)] mem by (auto simp: threads_ok_def)
    assume "cb_lock pc = 1"
    then show "cb_rely (syM s) m'" using assms(2) held_pos [OF mem cb_holds(1)] by simp
  qed
  then show ?thesis by auto
qed

lemma out_rely_kept:
  assumes "Inv env s" "out_rely (syM s) m'"
  shows "counters_ok (advance m' s)" "numbering (meLocalID env) (syAccepted (advance m' s))"
    "\<forall>(c, pc) \<in> set (sySubs s). sub_ok env (syAccepted (advance m' s)) m' c pc"
  by (rule out_kept [OF assms(1)]; use assms(2) in \<open>simp add: out_rely_def\<close>)+

lemma numbered_unchanged: "sySubs s' = sySubs s \<Longrightarrow> syAccepted s' = syAccepted s \<Longrightarrow> numbered s' = numbered s"
  by (simp add: numbered_def)

lemma Inv_callback:
  assumes I: "Inv env s" and fit: "limits_fit (meConfig env)"
    and i: "i < length (syCbs s)" "syCbs s ! i = (rq, pc)" and st: "(pc', m') \<in> set (serveMessage env peers tid rq pc (syM s))"
  shows "Inv env ((advance m' s)\<lparr>syCbs := (syCbs s)[i := (rq, pc')]\<rparr>)" (is "Inv env ?s")
proof -
  note P = Inv_parts [OF I] and B = Inv_bytes [OF I fit]
  have ok: "cb_ok env (syM s) pc" using thread_ok(2) [OF P(10) i] .
  have ok': "cb_ok env m' pc'" using serveMessage_ok [OF st ok B(2) P(6)] .
  then have np: "pc' \<noteq> CbSendClosed" by auto
  have add: "pc = CbAdd x \<Longrightarrow> 0 \<le> riBytes x \<and> mdCallbackBytes (syM s) + riBytes x \<le> mcCallbackQueueBytes (meConfig env)" for x
    using ok by (auto dest: cb_item_bytes)
  note U = held_update [OF i]
  have "cb_balanced ?s" "out_balanced ?s" "fatal_once ?s"
    using serveMessage_cb [OF st B(2) add np lock_exclusive(2) [OF P(2) i]] serveMessage_fatal [OF st] P(1-3)
      balanced_frame(2) [OF P(1) serveMessage_frame [OF st]]
    by (auto simp: out_balanced_def cb_balanced_def fatal_once_def cb_move_def U)
  moreover have "within_limits env m'" using serveMessage_limits [OF st P(4) ok B(2)] .
  moreover have "items_ok ?s" "fifo ?s"
    using P(5) serveMessage_items [OF st ok] serveMessage_frame [OF st] fifo_advance [OF P(11) serveMessage_queues [OF st]]
    by (simp_all add: items_ok_def out_fields_eq fifo_def)
  moreover have "lc_ok (syLc s) m'" "unstarted ?s"
    using lc_ok_frame [OF serveMessage_lc [OF st] P(6)] P(7) serveMessage_lc [OF st] by (simp_all add: unstarted_def lc_frame_def)
  moreover note K = out_rely_kept [OF I rely_frame(1) [OF serveMessage_frame [OF st]]]
  moreover have "\<forall>(rq, pc) \<in> set ((syCbs s)[i := (rq, pc')]). cb_ok env m' pc"
  proof (rule update_all [where P = "\<lambda>_. cb_ok env (syM s)"])
    fix j d pd assume j: "j < length (syCbs s)" "syCbs s ! j = (d, pd)" "j \<noteq> i" "cb_ok env (syM s) pd"
    show "cb_ok env m' pd"
    proof (rule cb_ok_rely [OF j(4)])
      assume "cb_lock pd = 1"
      then have "cb_lock pc = 0" using lock_exclusive(3) [OF P(2) i j(1,2)] j(3) cb_holds(1) [of pc] by linarith
      then show "cb_rely (syM s) m'" using serveMessage_rely [OF st] by simp
    qed
  qed (use P(10) ok' in \<open>auto simp: threads_ok_def\<close>)
  ultimately show ?thesis by (auto simp: Inv_def threads_ok_def counters_ok_def numbered_def)
qed

lemma Inv_worker:
  assumes I: "Inv env s" and fit: "limits_fit (meConfig env)" and st: "(pc', m') \<in> set (submissionWorker r (syWorker s) (syM s))"
  shows "Inv env ((advance m' s)\<lparr>syWorker := pc'\<rparr>)" (is "Inv env ?s")
proof -
  note P = Inv_parts [OF I] and B = Inv_bytes [OF I fit] and b = item_bytes [OF Inv_parts(5) [OF I]]
  have rely: "out_rely (syM s) m'" using submissionWorker_rely [OF st B(1) b(2) B(4)] .
  have "out_balanced ?s" "cb_balanced ?s" "fatal_once ?s"
    using submissionWorker_out [OF st B(1) b(2) B(4)] submissionWorker_fatal [OF st] P(1-3)
      balanced_frame(1) [OF P(2) submissionWorker_frame [OF st]]
    by (auto simp: out_balanced_def cb_balanced_def fatal_once_def out_move_def)
  moreover have "within_limits env m'" using submissionWorker_limits [OF st P(4) rely] .
  moreover have "items_ok ?s" "fifo ?s"
    using P(5) submissionWorker_items [OF st] submissionWorker_frame [OF st] fifo_advance [OF P(11) submissionWorker_queues [OF st]]
    by (simp_all add: items_ok_def cb_fields_eq fifo_def)
  moreover have "lc_ok (syLc s) m'" using lc_ok_frame [OF submissionWorker_lc [OF st] P(6)] .
  moreover have "unstarted ?s" using P(7) submissionWorker_lc [OF st] st by (auto simp: unstarted_def lc_frame_def)
  moreover note out_rely_kept [OF I rely] cb_kept [OF I rely_frame(2) [OF submissionWorker_frame [OF st]]]
  ultimately show ?thesis by (auto simp: Inv_def threads_ok_def counters_ok_def numbered_def)
qed

lemma Inv_reinj:
  assumes I: "Inv env s" and fit: "limits_fit (meConfig env)" and st: "(pc', m') \<in> set (reinjectionWorker r (syReinj s) (syM s))"
  shows "Inv env ((advance m' s)\<lparr>syReinj := pc'\<rparr>)" (is "Inv env ?s")
proof -
  note P = Inv_parts [OF I] and B = Inv_bytes [OF I fit] and b = item_bytes [OF Inv_parts(5) [OF I]]
  have rely: "cb_rely (syM s) m'" using reinjectionWorker_rely [OF st B(2) b(5) B(6)] .
  have "cb_balanced ?s" "out_balanced ?s" "fatal_once ?s"
    using reinjectionWorker_cb [OF st B(2) b(5) B(6)] reinjectionWorker_fatal [OF st] P(1-3)
      balanced_frame(2) [OF P(1) reinjectionWorker_frame [OF st]]
    by (auto simp: out_balanced_def cb_balanced_def fatal_once_def cb_move_def)
  moreover have "within_limits env m'" using reinjectionWorker_limits [OF st P(4) rely] .
  moreover have "items_ok ?s" "fifo ?s"
    using P(5) reinjectionWorker_items [OF st] reinjectionWorker_frame [OF st] fifo_advance [OF P(11) reinjectionWorker_queues [OF st]]
    by (simp_all add: items_ok_def out_fields_eq fifo_def)
  moreover have "lc_ok (syLc s) m'" using lc_ok_frame [OF reinjectionWorker_lc [OF st] P(6)] .
  moreover have "unstarted ?s" using P(7) reinjectionWorker_lc [OF st] st by (auto simp: unstarted_def lc_frame_def)
  moreover note out_rely_kept [OF I rely_frame(1) [OF reinjectionWorker_frame [OF st]]] cb_kept [OF I rely]
  ultimately show ?thesis by (auto simp: Inv_def threads_ok_def counters_ok_def numbered_def)
qed

lemma Inv_listener:
  assumes I: "Inv env s" and st: "(pc', m') \<in> set (serve_listener e (sySrv s) (syM s))"
  shows "Inv env ((advance m' s)\<lparr>sySrv := pc'\<rparr>)" (is "Inv env ?s")
proof -
  note P = Inv_parts [OF I] and F = serve_listener_frame [OF st]
  have "out_balanced ?s" "cb_balanced ?s" "fatal_once ?s"
    using balanced_frame(1) [OF P(2)] balanced_frame(2) [OF P(1)] F serve_listener_fatal [OF st] P(3)
    by (auto simp: out_balanced_def cb_balanced_def fatal_once_def)
  moreover have "within_limits env m'" using serve_listener_limits [OF st P(4)] .
  moreover have "items_ok ?s" "fifo ?s"
    using P(5) F fifo_advance [OF P(11) serve_listener_queues [OF st]] by (simp_all add: items_ok_def out_fields_eq cb_fields_eq fifo_def)
  moreover have "lc_ok (syLc s) m'" using lc_ok_frame [OF serve_listener_lc [OF st] P(6)] .
  moreover have "unstarted ?s" using P(7) serve_listener_lc [OF st] st by (auto simp: unstarted_def lc_frame_def)
  moreover note out_rely_kept [OF I rely_frame(1)] cb_kept [OF I rely_frame(2)]
  ultimately show ?thesis using F by (auto simp: Inv_def threads_ok_def counters_ok_def numbered_def)
qed

lemma lifecycle_passive:
  assumes "(pc', m') \<in> set (lifecycle ch fin tid pc m)"
  shows "gained (mdOutboundQueue m) (mdOutboundQueue m') = []" "mdCounters m' = mdCounters m"
    "mdLifecycle m' = LifecycleNew \<Longrightarrow> mdLifecycle m = LifecycleNew" "pc' = LcListen \<Longrightarrow> mdLifecycle m = LifecycleNew"
proof -
  show "gained (mdOutboundQueue m) (mdOutboundQueue m') = []"
  proof (cases pc)
    case LcDrainOut
    then show ?thesis using assms by (cases "mdOutboundQueue m") (auto split: if_splits)
  qed (use assms in \<open>auto simp: submit_defs split: step_splits\<close>)
  show "mdCounters m' = mdCounters m" "mdLifecycle m' = LifecycleNew \<Longrightarrow> mdLifecycle m = LifecycleNew"
    "pc' = LcListen \<Longrightarrow> mdLifecycle m = LifecycleNew"
    using assms by (cases pc; auto simp: submit_defs split: step_splits)+
qed

lemma start_goroutines_idle:
  assumes "unstarted s" "t = start_goroutines (syLc s) pc' ((advance m' s)\<lparr>syLc := pc'\<rparr>)"
  shows "wk_slot (syWorker t) = wk_slot (syWorker s)" "wk_bytes f (syWorker t) = wk_bytes f (syWorker s)" "wk_notify (syWorker t) = wk_notify (syWorker s)"
    "wk_slot (syReinj t) = wk_slot (syReinj s)" "wk_bytes g (syReinj t) = wk_bytes g (syReinj s)" "wk_notify (syReinj t) = wk_notify (syReinj s)"
    "srv_notify (sySrv t) = srv_notify (sySrv s)" "wk_item_ok h (syWorker t) = wk_item_ok h (syWorker s)" "wk_item_ok k (syReinj t) = wk_item_ok k (syReinj s)"
  using assms by (simp_all add: start_goroutines_def unstarted_def)

lemma Inv_lifecycle:
  assumes I: "Inv env s" and fit: "limits_fit (meConfig env)" and st: "(pc', m') \<in> set (lifecycle ch fin tid (syLc s) (syM s))"
  shows "Inv env (start_goroutines (syLc s) pc' ((advance m' s)\<lparr>syLc := pc'\<rparr>))" (is "Inv env ?s")
proof -
  note P = Inv_parts [OF I] and B = Inv_bytes [OF I fit] and b = item_bytes [OF Inv_parts(5) [OF I]] and V = lifecycle_passive [OF st]
  note G = start_goroutines_idle [OF P(7) refl [of ?s]]
  have lc: "lc_ok pc' m'" using lifecycle_lc [OF st P(6)] .
  then have np: "pc' \<noteq> LcPanic" by (simp add: lc_ok_def)
  have rely: "lc_gate (syLc s) = 0 \<Longrightarrow> out_rely (syM s) m'" using lifecycle_rely [OF st B(1) b(3) B(5)] .
  have cb_rely: "lc_lock (syLc s) = 0 \<Longrightarrow> cb_rely (syM s) m'" using lifecycle_cb_rely [OF st B(2) b(6) B(7)] .
  have "0 < held sub_gate (sySubs s) \<Longrightarrow> lc_gate (syLc s) = 0" using P(1) other_holds(3) [of "syLc s"] unfolding out_balanced_def by linarith
  note K = out_kept [OF I V(1,2) rely [OF this]]
  have "0 \<le> free_mu (syM s)" by (simp add: free_mu_def)
  then have "0 < held cb_lock (syCbs s) \<Longrightarrow> lc_lock (syLc s) = 0"
    using P(2) other_holds(4) [of "syLc s"] unfolding cb_balanced_def by linarith
  note K' = cb_kept [OF I cb_rely [OF this]]
  have "out_balanced ?s" "cb_balanced ?s" "fatal_once ?s"
    using lifecycle_out [OF st B(1) b(3) B(5) np] lifecycle_cb [OF st B(2) b(6) B(7) np lc_lock_mu [OF P(2)]]
      lifecycle_gate_nonneg [OF st] lifecycle_fatal [OF st] P(1-3)
    by (auto simp: out_balanced_def cb_balanced_def fatal_once_def out_move_def cb_move_def G)
  moreover have "within_limits env m'" using lifecycle_limits [OF st P(4) rely cb_rely] .
  moreover have "items_ok ?s" "fifo ?s"
    using P(5) lifecycle_items [OF st] fifo_advance [OF P(11) lifecycle_queues [OF st]] by (simp_all add: items_ok_def fifo_def G)
  moreover have "unstarted ?s"
    using P(6,7) V(3,4) by (auto simp: unstarted_def start_goroutines_def lc_ok_def)
  ultimately show ?thesis using lc K K' by (auto simp: Inv_def threads_ok_def counters_ok_def numbered_def)
qed

lemma Inv_receive_fatal:
  assumes I: "Inv env s" and ne: "mdFatalC (syM s) = fe # rest"
  shows "Inv env (advance ((syM s)\<lparr>mdFatalC := rest\<rparr>) s)" (is "Inv env (advance ?m s)")
proof -
  note P = Inv_parts [OF I]
  have F: "out_fields ?m = out_fields (syM s)" "cb_fields ?m = cb_fields (syM s)" "lc_frame (syM s) ?m"
    by (simp_all add: out_fields_def cb_fields_def lc_frame_def)
  have "fatal_once (advance ?m s)" using P(3) ne by (simp add: fatal_once_def fatal_tokens_def)
  moreover have "within_limits env ?m" "items_ok (advance ?m s)" "unstarted (advance ?m s)" "fifo (advance ?m s)"
    using P(4,5,7,11) by (simp_all add: within_limits_def items_ok_def unstarted_def fifo_def)
  ultimately show ?thesis
    using balanced_frame(1) [OF P(2) F(2)] balanced_frame(2) [OF P(1) F(1)] lc_ok_frame [OF F(3) P(6)]
      out_rely_kept [OF I rely_frame(1) [OF F(1)]] cb_kept [OF I rely_frame(2) [OF F(2)]]
    by (simp add: Inv_def threads_ok_def)
qed

lemma Inv_call_submit:
  assumes I: "Inv env s" and pc: "pc = SubStart \<or> (\<exists>e. pc = SubFatal False e)"
  shows "Inv env (s\<lparr>sySubs := sySubs s @ [(c, pc)]\<rparr>)" (is "Inv env ?s")
proof -
  note P = Inv_parts [OF I]
  have z: "sub_gate pc = 0" "sub_slot pc = 0" "sub_bytes pc = 0" "sub_notify pc = 0" "pending_of (c, pc) = []"
    "sub_ok env (syAccepted s) (syM s) c pc" using pc by auto
  have "out_balanced ?s" "cb_balanced ?s" "fatal_once ?s" using P(1-3) z by (simp_all add: out_balanced_def cb_balanced_def fatal_once_def)
  moreover have "items_ok ?s" "unstarted ?s" "counters_ok ?s" "threads_ok env ?s"
    using P(5,7,8,10) z by (simp_all add: items_ok_def unstarted_def counters_ok_def numbered_def threads_ok_def)
  moreover have "fifo ?s" using P(11) by (simp add: fifo_def)
  ultimately show ?thesis using P(4,6,9) by (simp add: Inv_def)
qed

lemma Inv_call_callback:
  assumes I: "Inv env s"
  shows "Inv env (s\<lparr>syCbs := syCbs s @ [(rq, CbStart)]\<rparr>)" (is "Inv env ?s")
proof -
  note P = Inv_parts [OF I]
  have "out_balanced ?s" "cb_balanced ?s" "fatal_once ?s" using P(1-3) by (simp_all add: out_balanced_def cb_balanced_def fatal_once_def)
  moreover have "items_ok ?s" "unstarted ?s" "counters_ok ?s" "threads_ok env ?s"
    using P(5,7,8,10) by (simp_all add: items_ok_def unstarted_def counters_ok_def numbered_def threads_ok_def)
  moreover have "fifo ?s" using P(11) by (simp add: fifo_def)
  ultimately show ?thesis using P(4,6,9) by (simp add: Inv_def)
qed

lemma Inv_step:
  assumes "step env s s'" "Inv env s" "limits_fit (meConfig env)"
  shows "Inv env s'"
  using assms(1)
proof cases
  case (submit i c pc pc' m')
  then show ?thesis using Inv_submit [OF assms(2,3)] by simp
next
  case (callback i rq pc pc' m' peers)
  then show ?thesis using Inv_callback [OF assms(2,3)] by simp
next
  case (worker pc' m' reply)
  then show ?thesis using Inv_worker [OF assms(2,3)] by simp
next
  case (reinj pc' m' reply)
  then show ?thesis using Inv_reinj [OF assms(2,3)] by simp
next
  case (lifecycle pc' m' ch)
  then show ?thesis using Inv_lifecycle [OF assms(2,3)] by simp
next
  case (listener pc' m' e)
  then show ?thesis using Inv_listener [OF assms(2)] by simp
next
  case (receive_fatal fe rest)
  then show ?thesis using Inv_receive_fatal [OF assms(2)] by simp
qed (use Inv_call_submit [OF assms(2)] Inv_call_callback [OF assms(2)] in auto)

lemma Inv_reachable: "reachable env s \<Longrightarrow> limits_fit (meConfig env) \<Longrightarrow> Inv env s"
  by (induction rule: reachable.induct) (auto intro: Inv_init Inv_step)

end
