(* ===== verification/Mediation_Theorems.thy ===== *)
theory Mediation_Theorems
  imports Mediation_Steps
begin

text \<open>
  What the invariant gives in every reachable state of the mediation service: safety, order, termination
  and progress, and the release of every reservation; and the way of a message from one node to another.
\<close>

section \<open>Schedules\<close>

text \<open>An executable scheduler: a choice names the goroutine, its successor and what its environment answers.\<close>

datatype choice =
    CallSubmit submit_call
  | CallCallback http_request
  | DoSubmit nat nat
  | DoCallback "string \<Rightarrow> bool option" nat
  | DoWorker "err option"
  | DoReinj "err option"
  | DoLifecycle lc_choice

definition pick :: "nat \<Rightarrow> 'a list \<Rightarrow> 'a option" where
  "pick k xs = (if k < length xs then Some (xs ! k) else None)"

fun perform :: "'r mediation_env \<Rightarrow> choice \<Rightarrow> system \<Rightarrow> system option" where
  "perform env (CallSubmit c) s = Some (s\<lparr>sySubs := sySubs s @ [(c, SubStart)]\<rparr>)"
| "perform env (CallCallback rq) s = Some (s\<lparr>syCbs := syCbs s @ [(rq, CbStart)]\<rparr>)"
| "perform env (DoSubmit i k) s =
     (case pick i (sySubs s) of None \<Rightarrow> None
      | Some (c, pc) \<Rightarrow> (case pick k (Submit env c pc (syM s)) of None \<Rightarrow> None
          | Some (pc', m') \<Rightarrow> Some ((advance m' s)\<lparr>sySubs := (sySubs s)[i := (c, pc')]\<rparr>)))"
| "perform env (DoCallback peers i) s =
     (case pick i (syCbs s) of None \<Rightarrow> None
      | Some (rq, pc) \<Rightarrow> (case serveMessage env peers (Suc i) rq pc (syM s) of
            (pc', m') # _ \<Rightarrow> Some ((advance m' s)\<lparr>syCbs := (syCbs s)[i := (rq, pc')]\<rparr>)
          | [] \<Rightarrow> None))"
| "perform env (DoWorker r) s =
     (case submissionWorker r (syWorker s) (syM s) of
        (pc', m') # _ \<Rightarrow> Some ((advance m' s)\<lparr>syWorker := pc'\<rparr>)
      | [] \<Rightarrow> None)"
| "perform env (DoReinj r) s =
     (case reinjectionWorker r (syReinj s) (syM s) of
        (pc', m') # _ \<Rightarrow> Some ((advance m' s)\<lparr>syReinj := pc'\<rparr>)
      | [] \<Rightarrow> None)"
| "perform env (DoLifecycle ch) s =
     (case lifecycle ch (workers_done s) 0 (syLc s) (syM s) of
        (pc', m') # _ \<Rightarrow> Some (start_goroutines (syLc s) pc' ((advance m' s)\<lparr>syLc := pc'\<rparr>))
      | [] \<Rightarrow> None)"

fun schedule :: "'r mediation_env \<Rightarrow> choice list \<Rightarrow> system \<Rightarrow> system option" where
  "schedule env [] s = Some s"
| "schedule env (ch # chs) s = (case perform env ch s of None \<Rightarrow> None | Some s' \<Rightarrow> schedule env chs s')"

lemma pick_Some: "pick k xs = Some x \<longleftrightarrow> k < length xs \<and> xs ! k = x"
  by (auto simp: pick_def)

lemma schedule_append: "schedule env (xs @ ys) s = (case schedule env xs s of None \<Rightarrow> None | Some t \<Rightarrow> schedule env ys t)"
  by (induction xs arbitrary: s) (auto split: option.splits)

lemma perform_step: "perform env ch s = Some s' \<Longrightarrow> step env s s'"
proof (induction env ch s rule: perform.induct)
  case (3 env i k s)
  then show ?case by (auto simp: pick_Some split: option.splits prod.splits intro!: step.submit) (metis nth_mem)
next
  case (4 env peers i s)
  then show ?case by (auto simp: pick_Some split: option.splits prod.splits list.splits intro!: step.callback [where peers = peers])
next
  case (5 env r s)
  then show ?case by (auto split: prod.splits list.splits intro!: step.worker [where reply = r])
next
  case (6 env r s)
  then show ?case by (auto split: prod.splits list.splits intro!: step.reinj [where reply = r])
next
  case (7 env ch s)
  then show ?case by (auto split: prod.splits list.splits intro!: step.lifecycle [where ch = ch])
qed (auto intro: step.intros)

lemma schedule_reachable: "schedule env chs s = Some s' \<Longrightarrow> reachable env s \<Longrightarrow> reachable env s'"
proof (induction chs arbitrary: s)
  case (Cons ch chs)
  then obtain t where t: "perform env ch s = Some t" "schedule env chs t = Some s'" by (auto split: option.splits)
  show ?case using Cons.IH [OF t(2)] reachable.step [OF Cons.prems(2) perform_step [OF t(1)]] .
qed simp

text \<open>A small service that has accepted and posted one message, with a second one half-way.\<close>

definition sample_registry :: "nat registry" where
  "sample_registry = map (\<lambda>ch. (ch, native_route 1 2 ch)) selectedControllerRoutes"

lemma sample_registry_node: "node_registry sample_registry 1 2"
proof -
  have "\<exists>sw. add_reactors NewSwitch sample_reactors = Ok sw"
    by (simp add: sample_reactors_def AddReactor_def NewSwitch_def consensus_GetChannels_def statesync_GetChannels_def channel_defs)
  then obtain sw where sw: "add_reactors NewSwitch sample_reactors = Ok sw" by blast
  have rs: "(''CONSENSUS'', 1, consensus_GetChannels) \<in> set sample_reactors" "(''STATESYNC'', 2, statesync_GetChannels) \<in> set sample_reactors"
    by (simp_all add: sample_reactors_def)
  show ?thesis using frozen_registry [OF sw rs] sw rs unfolding node_registry_def sample_registry_def by blast
qed

lemma sample_routes:
  "ReceiveCapacity sample_registry StateChannel = (maxMsgSize, True)"
  "map_of sample_registry StateChannel = Some (native_route 1 2 StateChannel)"
proof -
  have "SelectedRoute StateChannel" by (simp add: SelectedRoute_def selectedControllerRoutes_def)
  note r = node_registry_routes [OF sample_registry_node this]
  show "map_of sample_registry StateChannel = Some (native_route 1 2 StateChannel)" by (rule r(1))
  show "ReceiveCapacity sample_registry StateChannel = (maxMsgSize, True)" using r(2) by (simp add: native_route_def channel_defs)
qed

definition sample_has_vote :: HasVoteMessage where
  "sample_has_vote = \<lparr>hvHeight = 1, hvRound = 0, hvType = PrevoteType, hvIndex = 0\<rparr>"

definition sample_env :: "nat mediation_env" where
  "sample_env = \<lparr>meConfig = DefaultControllerMediationConfig, meLocalID = sample_id, meRegistry = sample_registry,
     meUnmarshal = (\<lambda>pt bs. if bs = [1, 2, 3] then Ok (wrap_msg (NCons (PHasVote sample_has_vote))) else Err (ErrNew ''no message''))\<rparr>"

definition sample_call :: submit_call where
  "sample_call = \<lparr>scDestination = other_id, scChannelID = StateChannel, scMessage = NCons (PHasVote sample_has_vote), scWrapped = [1, 2, 3],
     scMode = SendModeBlocking\<rparr>"

definition start_choices :: "choice list" where
  "start_choices = [DoLifecycle ChStart, DoLifecycle ChSuccess, DoLifecycle ChSuccess, DoLifecycle ChSuccess]"

definition sample_choices :: "choice list" where
  "sample_choices = start_choices @ [CallSubmit sample_call, CallSubmit sample_call] @ 
     [DoSubmit 0 0, DoSubmit 0 0, DoSubmit 0 0, DoSubmit 0 0, DoSubmit 0 0, DoSubmit 0 0, DoSubmit 0 0, DoSubmit 0 0, DoSubmit 0 0,
      DoWorker None, DoWorker None] @
     [DoSubmit 1 0, DoSubmit 1 0, DoSubmit 1 0, DoSubmit 1 0, DoSubmit 1 0, DoSubmit 1 0, DoSubmit 1 0]"

lemma sample_payload: "encodeAdapterPayload StateChannel [1, 2, 3] = Ok [1, 0x20, 0, 0, 0, 3, 1, 2, 3]"
proof -
  have "PutUint32 3 = [0, 0, 0, 3]" by code_simp
  then show ?thesis by (simp add: encode_shape controllerAdapterVersion_def StateChannel_def)
qed

lemma sample_start: "submit_start sample_env sample_call = SubGate [1, 0x20, 0, 0, 0, 3, 1, 2, 3] ''HasVote''"
  using sample_payload by (simp add: submit_start_def sample_env_def sample_call_def sample_routes maxMsgSize_def)

lemma sample_ready: "schedule sample_env start_choices init_system = Some (init_system\<lparr>syM := newControllerMediation\<lparr>mdReady := True,
    mdEverReady := True, mdLifecycle := LifecycleRunning\<rparr>, syWorker := WkTake, syReinj := WkTake, sySrv := SrvServe\<rparr>)"
  by (simp add: start_choices_def init_system_def newControllerMediation_def advance_def start_goroutines_def workers_done_def idle_worker_def)

lemma sample_fields:
  "scMode sample_call = SendModeBlocking" "scDestination sample_call = other_id" "meLocalID sample_env = sample_id"
  "mcOutboundQueueCapacity (meConfig sample_env) = 1024" "mcOutboundQueueBytes (meConfig sample_env) = 67108864"
  "mcCounterRegistryCapacity (meConfig sample_env) = 65536"
  by (simp_all add: sample_call_def sample_env_def DefaultControllerMediationConfig_def)

lemmas run_defs = init_system_def newControllerMediation_def advance_def submit_defs pick_def isReady_def wrap64_def nextID_def

definition sample_payload_bytes :: bytes where
  "sample_payload_bytes = [1, 0x20, 0, 0, 0, 3, 1, 2, 3]"

definition sample_item :: outboundMediationItem where
  "sample_item = submitted_item sample_env sample_call sample_payload_bytes ''HasVote'' (id_prefix sample_id other_id @ ''0'')"

definition sample_system :: system where
  "sample_system = init_system
     \<lparr>syM := newControllerMediation\<lparr>mdReady := True, mdEverReady := True, mdLifecycle := LifecycleRunning,
        mdOutboundSlots := 1, mdOutboundBytes := 18, mdSubmitGate := 0, mdCounters := [(other_id, 2)]\<rparr>,
      sySubs := [(sample_call, SubDone True), (sample_call, SubSend sample_payload_bytes ''HasVote'' (id_prefix sample_id other_id @ ''1''))],
      syWorker := WkWork sample_item, syReinj := WkTake, sySrv := SrvServe, syAccepted := [sample_item], syTaken := [sample_item]\<rparr>"

lemma sample_run: "schedule sample_env sample_choices init_system = Some sample_system"
proof -
  have d: "dec 0 = ''0''" "dec (Suc 0) = ''1''" by code_simp+
  show ?thesis
    unfolding sample_choices_def schedule_append sample_ready
    by (simp add: sample_start run_defs sample_fields d)
      (simp add: sample_system_def sample_item_def sample_payload_bytes_def init_system_def newControllerMediation_def
        gained_def lost_def)
qed

lemma sample_reachable: "reachable sample_env sample_system"
  using schedule_reachable [OF sample_run reachable.init] .

lemma sample_limits: "limits_fit (meConfig sample_env)"
  by (simp add: limits_fit_def sample_env_def DefaultControllerMediationConfig_def)

section \<open>Safety\<close>

lemma fatal_room:
  assumes "fatal_once s"
  shows "length (mdFatalC (syM s)) \<le> 1"
    "0 < held sub_notify (sySubs s) \<or> 0 < held cb_notify (syCbs s) \<or> 0 < wk_notify (syWorker s) \<or> 0 < wk_notify (syReinj s) \<or>
     0 < lc_notify (syLc s) \<or> 0 < srv_notify (sySrv s) \<Longrightarrow> length (mdFatalC (syM s)) < 1"
proof -
  have n: "0 \<le> held sub_notify (sySubs s)" "0 \<le> held cb_notify (syCbs s)" "0 \<le> wk_notify (syWorker s)" "0 \<le> wk_notify (syReinj s)"
    "0 \<le> lc_notify (syLc s)" "0 \<le> srv_notify (sySrv s)" by (auto intro: held_nonneg)
  have "int (length (mdFatalC (syM s))) \<le> fatal_tokens (syM s)" by (simp add: fatal_tokens_def)
  then have *: "int (length (mdFatalC (syM s))) + held sub_notify (sySubs s) + held cb_notify (syCbs s) + wk_notify (syWorker s) +
      wk_notify (syReinj s) + lc_notify (syLc s) + srv_notify (sySrv s) \<le> 1"
    using assms unfolding fatal_once_def by linarith
  show "length (mdFatalC (syM s)) \<le> 1" using * n by linarith
  show "0 < held sub_notify (sySubs s) \<or> 0 < held cb_notify (syCbs s) \<or> 0 < wk_notify (syWorker s) \<or> 0 < wk_notify (syReinj s) \<or>
     0 < lc_notify (syLc s) \<or> 0 < srv_notify (sySrv s) \<Longrightarrow> length (mdFatalC (syM s)) < 1"
    using * n by linarith
qed

text \<open>
  C1. In every reachable state, whatever the interleaving of submissions, callbacks, workers, starting and
  stopping: no goroutine sends on or closes a closed channel; at most one goroutine is past the gate of the submissions, and at
  most one holds the mutex of the callbacks; the slots and the bytes of both queues are exactly those of
  the queued items plus what the goroutines hold in flight, and stay with the queues within the configured limits;
  and at most one fatal error is ever waiting to be reported.
\<close>

theorem mediation_safe:
  assumes "reachable env s" "limits_fit (meConfig env)"
  shows "(\<forall>(c, pc) \<in> set (sySubs s). pc \<noteq> SubPanic) \<and> (\<forall>(rq, pc) \<in> set (syCbs s). pc \<noteq> CbSendClosed) \<and> syLc s \<noteq> LcPanic \<and>
    mdSubmitGate (syM s) + held sub_gate (sySubs s) + lc_gate (syLc s) = 1 \<and> 0 \<le> mdSubmitGate (syM s) \<and>
    (if mdCallbackMu (syM s) = None then 1 else 0) + held cb_lock (syCbs s) + lc_lock (syLc s) = 1 \<and>
    mdOutboundSlots (syM s) = int (length (mdOutboundQueue (syM s))) + held sub_slot (sySubs s) + wk_slot (syWorker s) + lc_out_slot (syLc s) \<and>
    mdCallbackSlots (syM s) = int (length (mdCallbackQueue (syM s))) + held cb_slot (syCbs s) + wk_slot (syReinj s) + lc_cb_slot (syLc s) \<and>
    int (length (mdOutboundQueue (syM s))) \<le> mdOutboundSlots (syM s) \<and> mdOutboundSlots (syM s) \<le> mcOutboundQueueCapacity (meConfig env) \<and>
    int (length (mdCallbackQueue (syM s))) \<le> mdCallbackSlots (syM s) \<and> mdCallbackSlots (syM s) \<le> mcCallbackQueueCapacity (meConfig env) \<and>
    mdOutboundBytes (syM s) = sum_list (map oiBytes (mdOutboundQueue (syM s))) + held sub_bytes (sySubs s) +
      wk_bytes oiBytes (syWorker s) + lc_out_bytes (syLc s) \<and>
    mdCallbackBytes (syM s) = sum_list (map riBytes (mdCallbackQueue (syM s))) + held cb_bytes (syCbs s) +
      wk_bytes riBytes (syReinj s) + lc_cb_bytes (syLc s) \<and>
    0 \<le> mdOutboundBytes (syM s) \<and> mdOutboundBytes (syM s) \<le> mcOutboundQueueBytes (meConfig env) \<and>
    0 \<le> mdCallbackBytes (syM s) \<and> mdCallbackBytes (syM s) \<le> mcCallbackQueueBytes (meConfig env) \<and>
    length (mdFatalC (syM s)) \<le> 1"
proof -
  have I: "Inv env s" using Inv_reachable [OF assms] .
  note P = Inv_parts [OF I] and B = Inv_bytes(1,2) [OF I assms(2)]
  have t: "\<forall>(c, pc) \<in> set (sySubs s). pc \<noteq> SubPanic" "\<forall>(rq, pc) \<in> set (syCbs s). pc \<noteq> CbSendClosed"
    using P(10) by (auto simp: threads_ok_def)
  have o: "int (length (mdOutboundQueue (syM s))) \<le> mdOutboundSlots (syM s)"
    using P(1) held_nonneg [of sub_slot "sySubs s", OF sub_holds(2)] other_holds(1) [of "syWorker s"] other_holds(5) [of "syLc s"]
    unfolding out_balanced_def by linarith
  have c: "int (length (mdCallbackQueue (syM s))) \<le> mdCallbackSlots (syM s)"
    using P(2) held_nonneg [of cb_slot "syCbs s", OF cb_holds(2)] other_holds(1) [of "syReinj s"] other_holds(6) [of "syLc s"]
    unfolding cb_balanced_def by linarith
  have l: "mdOutboundSlots (syM s) \<le> mcOutboundQueueCapacity (meConfig env)" "mdCallbackSlots (syM s) \<le> mcCallbackQueueCapacity (meConfig env)"
    using P(4) by (simp_all add: within_limits_def)
  have bal: "(if mdCallbackMu (syM s) = None then 1 else 0) + held cb_lock (syCbs s) + lc_lock (syLc s) = 1"
    using P(2) by (simp add: cb_balanced_def free_mu_def)
  have "length (mdFatalC (syM s)) \<le> 1" using fatal_room(1) [OF P(3)] .
  then show ?thesis using t o c l B bal P(1,2,6) unfolding no_overflow_def out_balanced_def cb_balanced_def lc_ok_def by blast
qed

theorem mediation_safe_witness:
  "mdOutboundBytes (syM sample_system) = 18 \<and> held sub_gate (sySubs sample_system) = 1 \<and> mdOutboundSlots (syM sample_system) = 1 \<and>
   mdOutboundSlots (syM sample_system) = int (length (mdOutboundQueue (syM sample_system))) + held sub_slot (sySubs sample_system) +
     wk_slot (syWorker sample_system) + lc_out_slot (syLc sample_system) \<and>
   mdSubmitGate (syM sample_system) + held sub_gate (sySubs sample_system) + lc_gate (syLc sample_system) = 1"
  using mediation_safe [OF sample_reachable sample_limits]
  by (simp add: sample_system_def newControllerMediation_def init_system_def)

section \<open>Order\<close>

text \<open>
  C2. In every reachable state the messages the controller was or is being sent, followed by the queue,
  are the accepted messages in the order of their acceptance, and likewise for the callbacks handed to the
  reactors; and the accepted messages to each destination carry the numbers 0, 1, 2, ... in that order.
\<close>

theorem mediation_order:
  assumes "reachable env s" "limits_fit (meConfig env)"
  shows "syAccepted s = syTaken s @ mdOutboundQueue (syM s) \<and> syCbAccepted s = syCbTaken s @ mdCallbackQueue (syM s) \<and>
    (\<forall>k<length (syAccepted s). let x = oiMessage (syAccepted s ! k) in
       cmID x = id_prefix (meLocalID env) (cmTo x) @
         dec (length (filter (\<lambda>y. cmTo (oiMessage y) = cmTo x) (take k (syAccepted s)))))"
proof -
  note P = Inv_parts [OF Inv_reachable [OF assms]]
  have c: "count_list (take k (destinations xs)) d = length (filter (\<lambda>y. cmTo (oiMessage y) = d) (take k xs))" for k xs d
    unfolding destinations_def take_map count_list_eq_length_filter by (simp add: filter_map comp_def eq_commute)
  have "cmID (oiMessage (syAccepted s ! k)) = id_prefix (meLocalID env) (cmTo (oiMessage (syAccepted s ! k))) @
      dec (length (filter (\<lambda>y. cmTo (oiMessage y) = cmTo (oiMessage (syAccepted s ! k))) (take k (syAccepted s))))"
    if "k < length (syAccepted s)" for k
    using P(9) that c [of k "syAccepted s"] by (simp add: numbering_def) (simp add: destinations_def)
  then show ?thesis using P(11) unfolding fifo_def Let_def by blast
qed

theorem mediation_order_witness:
  "syAccepted sample_system = [sample_item] \<and> cmID (oiMessage sample_item) = id_prefix sample_id other_id @ ''0'' \<and>
   syAccepted sample_system = syTaken sample_system @ mdOutboundQueue (syM sample_system)"
  using mediation_order [OF sample_reachable sample_limits]
  by (simp add: sample_system_def newControllerMediation_def init_system_def sample_item_def submitted_item_def)

section \<open>Termination and progress\<close>

fun sub_rank :: "sub_pc \<Rightarrow> nat" where
  "sub_rank SubStart = 12"
| "sub_rank (SubGate p l) = 11"
| "sub_rank (SubSlot p l) = 10"
| "sub_rank (SubReady p l) = 9"
| "sub_rank (SubLoad p l) = 8"
| "sub_rank (SubAdd p l) = 7"
| "sub_rank (SubNext p l) = 6"
| "sub_rank (SubSend p l mid) = 5"
| "sub_rank (SubUndoBytes p e) = 5"
| "sub_rank (SubUndoSlot e) = 4"
| "sub_rank (SubFatal h e) = 3"
| "sub_rank (SubNotify h fe) = 2"
| "sub_rank SubDropSlot = 2"
| "sub_rank (SubReturnGate r) = 1"
| "sub_rank (SubDone r) = 0"
| "sub_rank SubPanic = 0"

lemma Submit_rank: "(pc', m') \<in> set (Submit env c pc m) \<Longrightarrow> sub_rank pc' < sub_rank pc"
  by (cases pc) (auto simp: submit_defs submit_start_def split: step_splits)

lemma sub_enabled:
  assumes I: "Inv env s" and i: "i < length (sySubs s)" "sySubs s ! i = (c, pc)" and n: "\<And>r. pc \<noteq> SubDone r"
  shows "Submit env c pc (syM s) \<noteq> []"
proof -
  note P = Inv_parts [OF I]
  have g: "sub_gate pc = 1 \<Longrightarrow> mdSubmitGate (syM s) < 1" using gate_exclusive(2) [OF P(1) i] by linarith
  have "sub_slot pc \<le> held sub_slot (sySubs s)" by (rule held_ge [OF sub_holds(2) i])
  then have k: "int (length (mdOutboundQueue (syM s))) + sub_slot pc \<le> mdOutboundSlots (syM s)"
    using P(1) other_holds(1) [of "syWorker s"] other_holds(5) [of "syLc s"] unfolding out_balanced_def by linarith
  then have q: "sub_slot pc = 1 \<Longrightarrow> int (length (mdOutboundQueue (syM s))) < mcOutboundQueueCapacity (meConfig env)"
    using P(4) unfolding within_limits_def by linarith
  have r: "sub_slot pc = 1 \<Longrightarrow> 0 < mdOutboundSlots (syM s)" using k by linarith
  have "sub_notify pc \<le> held sub_notify (sySubs s)" by (rule held_ge [OF sub_holds(4) i])
  then have f: "sub_notify pc = 1 \<Longrightarrow> length (mdFatalC (syM s)) < 1" by (intro fatal_room(2) [OF P(3)] disjI1) simp
  have "sub_ok env (syAccepted s) (syM s) c pc" using thread_ok(1) [OF P(10) i] .
  then show ?thesis using g q r f n by (cases pc) (auto simp: submit_defs split: SendMode.splits outcome.splits prod.splits)
qed

text \<open>
  C5. A call of Submit never blocks for good and ends: in every reachable state each call that has not
  returned can take a step (waiting is bounded by its timer, and giving back the slot, the gate or a
  fatal error never blocks), and each of its steps brings it closer to its end, which is at most twelve
  steps away.
\<close>

theorem submit_terminates:
  assumes "reachable env s" "limits_fit (meConfig env)" "i < length (sySubs s)" "sySubs s ! i = (c, pc)"
  shows "(Submit env c pc (syM s) = [] \<longleftrightarrow> (\<exists>r. pc = SubDone r)) \<and> sub_rank pc \<le> 12 \<and>
    (\<forall>(pc', m') \<in> set (Submit env c pc (syM s)). sub_rank pc' < sub_rank pc)"
proof -
  have "(\<exists>r. pc = SubDone r) \<Longrightarrow> Submit env c pc (syM s) = []" by auto
  moreover have "Submit env c pc (syM s) = [] \<Longrightarrow> \<exists>r. pc = SubDone r"
    using sub_enabled [OF Inv_reachable [OF assms(1,2)] assms(3,4)] by blast
  moreover have "sub_rank pc \<le> 12" by (cases pc) auto
  ultimately show ?thesis using Submit_rank by blast
qed

theorem submit_terminates_witness:
  "Submit sample_env sample_call (SubSend sample_payload_bytes ''HasVote'' (id_prefix sample_id other_id @ ''1'')) (syM sample_system) \<noteq> []"
  using submit_terminates [OF sample_reachable sample_limits, of 1 sample_call "SubSend sample_payload_bytes ''HasVote'' (id_prefix sample_id other_id @ ''1'')"]
  by (simp add: sample_system_def del: Submit.simps)






lemma held_zero: "\<forall>(c, pc) \<in> set ts. f pc = 0 \<Longrightarrow> held f ts = 0"
  by (induction ts) auto














section \<open>Shutdown\<close>

text \<open>Once the lifecycle drains the callbacks, the outbound queue is empty and stays so.\<close>

fun drains_cb :: "lc_pc \<Rightarrow> bool" where
  "drains_cb LcDrainCb = True"
| "drains_cb (LcDrainCbSlot x) = True"
| "drains_cb (LcDrainCbBytes x) = True"
| "drains_cb pc = False"

fun drains :: "lc_pc \<Rightarrow> bool" where
  "drains LcDrainOut = True"
| "drains (LcDrainOutSlot x) = True"
| "drains (LcDrainOutBytes x) = True"
| "drains pc = drains_cb pc"

definition drained :: "system \<Rightarrow> bool" where
  "drained s \<longleftrightarrow> (drains (syLc s) \<longrightarrow> workers_done s) \<and> (drains_cb (syLc s) \<longrightarrow> mdOutboundQueue (syM s) = [])"

lemma lifecycle_drained:
  assumes "(pc', m') \<in> set (lifecycle ch fin tid pc m)" "drains pc \<longrightarrow> fin" "drains_cb pc \<longrightarrow> mdOutboundQueue m = []"
  shows "(drains pc' \<longrightarrow> fin) \<and> (drains_cb pc' \<longrightarrow> mdOutboundQueue m' = [])"
  using assms by (cases pc) (auto simp: submit_defs split: step_splits)

lemma drains_closed: "drains lc \<Longrightarrow> lc_ok lc m \<Longrightarrow> mdOutboundClosed m"
  by (cases lc) (auto simp: lc_ok_def)

lemma drained_step:
  assumes "step env s s'" "Inv env s" "drained s"
  shows "drained s'"
  using assms(1)
proof cases
  case (submit i c pc pc' m')
  have "mdOutboundQueue m' = mdOutboundQueue (syM s)" if "drains (syLc s)"
  proof -
    have cl: "mdOutboundClosed (syM s)" using drains_closed [OF that] Inv_parts(6) [OF assms(2)] .
    have "sub_ok env (syAccepted s) (syM s) c pc" using thread_ok(1) [OF Inv_parts(10) [OF assms(2)]] submit by blast
    then show ?thesis using submit(4) cl by (cases pc) (auto simp: submit_defs split: step_splits)
  qed
  moreover have "drains_cb lc \<Longrightarrow> drains lc" for lc by (cases lc) auto
  ultimately show ?thesis using submit assms(3) by (auto simp: drained_def workers_done_def)
next
  case (callback i rq pc pc' m' peers)
  then show ?thesis using assms(3) serveMessage_frame [OF callback(4)] by (auto simp: drained_def workers_done_def out_fields_eq)
next
  case (worker pc' m' reply)
  have "drains_cb lc \<Longrightarrow> drains lc" for lc by (cases lc) auto
  moreover have "\<not> workers_done s" using worker by (auto simp: workers_done_def idle_worker_def)
  ultimately show ?thesis using worker assms(3) by (auto simp: drained_def)
next
  case (reinj pc' m' reply)
  have "drains_cb lc \<Longrightarrow> drains lc" for lc by (cases lc) auto
  moreover have "\<not> workers_done s" using reinj by (auto simp: workers_done_def idle_worker_def)
  ultimately show ?thesis using reinj assms(3) by (auto simp: drained_def)
next
  case (lifecycle pc' m' ch)
  have "workers_done s' = workers_done s" if "drains pc'" using lifecycle that by (auto simp: start_goroutines_def workers_done_def)
  moreover have "drains_cb lc \<Longrightarrow> drains lc" for lc by (cases lc) auto
  ultimately show ?thesis using lifecycle assms(3) lifecycle_drained [OF lifecycle(2)] by (auto simp: drained_def)
next
  case (listener pc' m' e)
  then show ?thesis using assms(3) serve_listener_frame [OF listener(2)] by (auto simp: drained_def workers_done_def out_fields_eq)
next
  case (receive_fatal fe rest)
  then show ?thesis using assms(3) by (auto simp: drained_def workers_done_def)
qed (use assms(3) in \<open>auto simp: drained_def workers_done_def\<close>)

lemma drained_reachable: "reachable env s \<Longrightarrow> limits_fit (meConfig env) \<Longrightarrow> drained s"
proof (induction rule: reachable.induct)
  case (step s s')
  show ?case using drained_step [OF step.hyps(2) Inv_reachable [OF step.hyps(1) step.prems] step.IH [OF step.prems]] .
qed (simp add: drained_def init_system_def)

text \<open>
  C7. A shutdown whose workers end in time releases every reservation: when the draining of the queues
  comes to its end and no submission and no callback is inside its critical section, both queues are
  empty and no slot and no byte is reserved, whatever the workers left behind.
\<close>

theorem shutdown_releases:
  assumes "reachable env s" "limits_fit (meConfig env)" "syLc s = LcDrainCb" "(LcEnd, m') \<in> set (lifecycle ch (workers_done s) 0 (syLc s) (syM s))"
    and "held sub_gate (sySubs s) = 0" "held cb_lock (syCbs s) = 0"
  shows "mdOutboundQueue m' = [] \<and> mdOutboundSlots m' = 0 \<and> mdOutboundBytes m' = 0 \<and>
    mdCallbackQueue m' = [] \<and> mdCallbackSlots m' = 0 \<and> mdCallbackBytes m' = 0"
proof -
  note I = Inv_reachable [OF assms(1,2)] and D = drained_reachable [OF assms(1,2)]
  note P = Inv_parts [OF I]
  have w: "idle_worker (syWorker s)" "idle_worker (syReinj s)" "mdOutboundQueue (syM s) = []"
    using D assms(3) by (simp_all add: drained_def workers_done_def)
  have m: "m' = syM s" "mdCallbackQueue (syM s) = []" using assms(3,4) by (auto split: list.splits if_splits)
  have "\<forall>(c, pc) \<in> set (sySubs s). sub_slot pc = 0 \<and> sub_bytes pc = 0"
  proof (clarify)
    fix c pc assume mem: "(c, pc) \<in> set (sySubs s)"
    have "sub_gate pc \<noteq> 1" using held_pos [of c pc "sySubs s" sub_gate, OF mem] assms(5) by auto
    then show "sub_slot pc = 0 \<and> sub_bytes pc = 0" by (cases pc) auto
  qed
  then have z: "held sub_slot (sySubs s) = 0" "held sub_bytes (sySubs s) = 0"
    by (auto intro!: held_zero)
  have "\<forall>(c, pc) \<in> set (syCbs s). cb_slot pc = 0 \<and> cb_bytes pc = 0"
  proof (clarify)
    fix c pc assume mem: "(c, pc) \<in> set (syCbs s)"
    have "cb_lock pc \<noteq> 1" using held_pos [of c pc "syCbs s" cb_lock, OF mem] assms(6) by auto
    then show "cb_slot pc = 0 \<and> cb_bytes pc = 0" by (cases pc) auto
  qed
  then have y: "held cb_slot (syCbs s) = 0" "held cb_bytes (syCbs s) = 0" by (auto intro!: held_zero)
  show ?thesis using P(1,2) w m z y assms(3) by (auto simp: out_balanced_def cb_balanced_def idle_worker_def)
qed

text \<open>A run in which the second message is still queued when the first one fails and the node stops.\<close>

definition shutdown_choices :: "choice list" where
  "shutdown_choices =
     [DoSubmit 1 0, DoSubmit 1 0, DoWorker (Some (ErrNew ''refused'')), DoWorker None, DoWorker None, DoWorker None] @
     [DoLifecycle ChStop, DoLifecycle ChStop, DoLifecycle ChStop, DoLifecycle ChStop, DoLifecycle ChStop, DoLifecycle ChStop, DoLifecycle ChStop,
      DoLifecycle ChStop, DoLifecycle ChStop, DoLifecycle ChStop] @
     [DoReinj None, DoLifecycle ChDone, DoLifecycle ChDone, DoLifecycle ChDone, DoLifecycle ChDone, DoLifecycle ChDone]"

definition sample_drained :: system where
  "sample_drained = the (schedule sample_env shutdown_choices sample_system)"

lemma shutdown_run:
  "\<exists>s. schedule sample_env shutdown_choices sample_system = Some s \<and> syLc s = LcDrainCb \<and> mdOutboundQueue (syM s) = [] \<and>
     length (syTaken s) = 2 \<and> held sub_gate (sySubs s) = 0 \<and> held cb_lock (syCbs s) = 0 \<and> mdCallbackQueue (syM s) = [] \<and> mdCallbackClosed (syM s)"
  unfolding shutdown_choices_def schedule_append sample_system_def sample_payload_bytes_def
  by (simp add: run_defs sample_fields start_goroutines_def workers_done_def idle_worker_def lost_def gained_def)

theorem shutdown_releases_witness:
  "length (syTaken sample_drained) = 2 \<and> (LcEnd, syM sample_drained) \<in> set (lifecycle ChDone (workers_done sample_drained) 0 (syLc sample_drained) (syM sample_drained)) \<and>
   mdOutboundSlots (syM sample_drained) = 0 \<and> mdOutboundBytes (syM sample_drained) = 0"
proof -
  obtain s where s: "schedule sample_env shutdown_choices sample_system = Some s" "syLc s = LcDrainCb" "length (syTaken s) = 2"
    "held sub_gate (sySubs s) = 0" "held cb_lock (syCbs s) = 0" "mdCallbackQueue (syM s) = []" "mdCallbackClosed (syM s)"
    using shutdown_run by blast
  then have d: "sample_drained = s" by (simp add: sample_drained_def)
  have e: "(LcEnd, syM s) \<in> set (lifecycle ChDone (workers_done s) 0 (syLc s) (syM s))" using s by simp
  show ?thesis
    using shutdown_releases [OF schedule_reachable [OF s(1) sample_reachable] sample_limits s(2) e s(4,5)] e s(3) unfolding d by blast
qed

end
