(* ===== verification/Mediation_Flow.thy ===== *)
theory Mediation_Flow
  imports Mediation_Theorems
begin

text \<open>
  The way of a message through the mediation: what a node accepts from its reactors passes every check
  of the callback at the destination and reaches the reactor of its channel there unchanged; which
  callbacks are accepted and how the others are answered; that the peers hand exactly the selected messages to the mediation; and
  how registration ends.
\<close>

section \<open>From node to node\<close>


















section \<open>Answers of the callback\<close>

lemma b64_no_panic [simp]: "b64_quanta t \<noteq> Panic s"
  by (induction t rule: b64_quanta.induct) (auto simp: b64_err_def bindo_Panic_iff split: option.splits)

lemma json_no_panic [simp]:
  "json_next inp \<noteq> Panic s" "json_map v \<noteq> Panic s" "json_string v \<noteq> Panic s" "json_uint8 v \<noteq> Panic s" "json_array vs \<noteq> Panic s"
  "json_bytes v \<noteq> Panic s" "ensureJSONEOF inp \<noteq> Panic s"
proof -
  show n: "json_next inp \<noteq> Panic s" for inp by (simp add: json_next_def split: list.split)
  show "json_map v \<noteq> Panic s" "json_string v \<noteq> Panic s" by (simp_all add: json_map_def json_string_def split: json.split)
  show u: "json_uint8 v \<noteq> Panic s" for v by (simp add: json_uint8_def split: json.split option.split)
  show a: "json_array vs \<noteq> Panic s" for vs by (induction vs) (simp_all add: bindo_Panic_iff u)
  show "json_bytes v \<noteq> Panic s" by (simp add: json_bytes_def b64_decode_def a split: json.split)
  show "ensureJSONEOF inp \<noteq> Panic s" using n by (auto simp: ensureJSONEOF_def split: outcome.splits)
qed

lemma decodeControllerMessage_no_panic [simp]: "decodeControllerMessage body \<noteq> Panic s"
  by (auto simp: decodeControllerMessage_def required_fields_def bindo_Panic_iff)

lemma decodeAdapterPayload_no_panic [simp]: "decodeAdapterPayload bs \<noteq> Panic s"
  by (simp add: decodeAdapterPayload_def)

lemma validateSelectedMessage_panic: "validateSelectedMessage m = Panic s \<longleftrightarrow> m = NCons (PVote None) \<and> s = nil_deref"
proof (cases m)
  case (NSync x)
  then show ?thesis by (cases x) simp_all
qed (auto simp: bindo_Panic_iff MsgFromProto_Panic)

text \<open>The checks of the callback before it decodes the native message.\<close>

definition callback_checks :: "'r mediation_env \<Rightarrow> (string \<Rightarrow> bool option) \<Rightarrow> json_input \<Rightarrow> controllerMessage \<Rightarrow> adapterPayload \<Rightarrow> bool" where
  "callback_checks env peers body outer payload \<longleftrightarrow>
     decodeControllerMessage body = Ok outer \<and> cmTo outer = meLocalID env \<and>
     validateControllerID (cmFrom outer) = Ok () \<and> validateControllerMessageID outer = Ok () \<and> cmType outer \<noteq> [] \<and>
     peers (cmFrom outer) = Some True \<and> decodeAdapterPayload (cmData outer) = Ok payload \<and> SelectedRoute (apChannelID payload) \<and>
     snd (ReceiveCapacity (meRegistry env) (apChannelID payload)) \<and>
     int (length (apWrapped payload)) \<le> fst (ReceiveCapacity (meRegistry env) (apChannelID payload))"

lemma check_callback_panic:
  "check_callback env peers body = Panic reason \<longleftrightarrow>
     (\<exists>outer payload. callback_checks env peers body outer payload \<and>
        (Decode (meUnmarshal env) (meRegistry env) (apChannelID payload) (apWrapped payload) = Panic reason \<or>
         Decode (meUnmarshal env) (meRegistry env) (apChannelID payload) (apWrapped payload) = Ok (NCons (PVote None)) \<and>
           cmType outer = ''Vote'' \<and> apChannelID payload = VoteChannel \<and> reason = nil_deref))" (is "?l = ?r")
proof
  assume ?l
  then show ?r
    unfolding check_callback_def callback_checks_def
    by (simp split: outcome.splits prod.splits if_splits) (auto simp: validateSelectedMessage_panic)
next
  assume ?r
  then show ?l
    using validateSelectedMessage_panic [of "NCons (PVote None)" nil_deref]
    by (auto simp: check_callback_def callback_checks_def simp del: validateSelectedMessage.simps split: prod.splits)
qed

text \<open>
  C8. The callback accepts a body exactly when it is one strict outer object addressed to this node, from
  a connected peer, with an identifier of the right form, whose payload decodes on a registered selected
  route within its capacity to a valid message of the labelled type. It panics, which the HTTP server recovers from without an
  answer, exactly when the generated decoder panics on the payload or the payload is a Vote message without a
  vote. Every other body is answered with 400, 409, 413 or 422. The step that rejects or panics leaves the state of the service as it is.
\<close>

theorem callback_accept_exact:
  "(check_callback env peers body = Ok (CbAccept item) \<longleftrightarrow>
     (\<exists>outer payload decoded. callback_checks env peers body outer payload \<and>
        Decode (meUnmarshal env) (meRegistry env) (apChannelID payload) (apWrapped payload) = Ok decoded \<and>
        selectedMessageBinding decoded = (cmType outer, apChannelID payload, True) \<and> validateSelectedMessage decoded = Ok () \<and>
        item = \<lparr>riMessage = outer, riChannelID = apChannelID payload, riWrapped = apWrapped payload, riBytes = int (length (apWrapped payload))\<rparr>)) \<and>
   (check_callback env peers body = Panic reason \<longleftrightarrow>
     (\<exists>outer payload. callback_checks env peers body outer payload \<and>
        (Decode (meUnmarshal env) (meRegistry env) (apChannelID payload) (apWrapped payload) = Panic reason \<or>
         Decode (meUnmarshal env) (meRegistry env) (apChannelID payload) (apWrapped payload) = Ok (NCons (PVote None)) \<and>
           cmType outer = ''Vote'' \<and> apChannelID payload = VoteChannel \<and> reason = nil_deref))) \<and>
   (\<forall>e. check_callback env peers body \<noteq> Err e) \<and>
   (\<forall>st ev. check_callback env peers body = Ok (CbReject st ev) \<longrightarrow> st \<in> {400, 409, 413, 422} \<and>
      (\<forall>tid rq m. rqBody rq = body \<longrightarrow> serveMessage env peers tid rq CbLook m = [(CbReply st ev, m)])) \<and>
   (check_callback env peers body = Panic reason \<longrightarrow>
      (\<forall>tid rq m. rqBody rq = body \<longrightarrow> serveMessage env peers tid rq CbLook m = [(CbPanic reason, m)]))"
proof (intro conjI allI impI)
  show "check_callback env peers body = Ok (CbAccept item) \<longleftrightarrow>
     (\<exists>outer payload decoded. callback_checks env peers body outer payload \<and>
        Decode (meUnmarshal env) (meRegistry env) (apChannelID payload) (apWrapped payload) = Ok decoded \<and>
        selectedMessageBinding decoded = (cmType outer, apChannelID payload, True) \<and> validateSelectedMessage decoded = Ok () \<and>
        item = \<lparr>riMessage = outer, riChannelID = apChannelID payload, riWrapped = apWrapped payload, riBytes = int (length (apWrapped payload))\<rparr>)"
    unfolding check_callback_accept callback_checks_def by blast
next
  fix e show "check_callback env peers body \<noteq> Err e"
    unfolding check_callback_def by (simp split: outcome.splits prod.splits if_splits)
next
  fix st ev assume "check_callback env peers body = Ok (CbReject st ev)"
  then show "st \<in> {400, 409, 413, 422}"
    unfolding check_callback_def by (simp split: outcome.splits prod.splits if_splits)
qed (rule check_callback_panic, simp_all)

theorem callback_accept_exact_witness:
  "serveMessage sample_env (\<lambda>_. None) 1 \<lparr>rqMethod = ''POST'', rqMediaType = Some ''application/json'',
     rqBody = \<lparr>jiValues = [message_json (oiMessage sample_item)], jiRest = JEnd\<rparr>\<rparr> CbLook newControllerMediation =
   [(CbReply 422 ''callback_wrong_destination'', newControllerMediation)]"
proof -
  have "other_id \<noteq> sample_id" by (simp add: other_id_def sample_id_def)
  then have "check_callback sample_env (\<lambda>_. None) \<lparr>jiValues = [message_json (oiMessage sample_item)], jiRest = JEnd\<rparr> =
      Ok (CbReject 422 ''callback_wrong_destination'')"
    by (simp add: check_callback_def decode_message_json sample_item_def submitted_item_def sample_fields)
  then show ?thesis
    using callback_accept_exact [of sample_env "\<lambda>_. None" "\<lparr>jiValues = [message_json (oiMessage sample_item)], jiRest = JEnd\<rparr>"] by simp
qed

section \<open>Interception\<close>

text \<open>The call of \<^verbatim>\<open>Submit\<close> that a peer makes for a message.\<close>

definition peer_call :: "peer_conn \<Rightarrow> byte \<Rightarrow> native \<Rightarrow> bytes \<Rightarrow> SendMode \<Rightarrow> submit_call" where
  "peer_call p ch msg bs mode = \<lparr>scDestination = pcID p, scChannelID = ch, scMessage = msg, scWrapped = bs, scMode = mode\<rparr>"

lemma selected_binding:
  assumes "Selected ch msg"
  obtains label route where "selectedMessageBinding msg = (label, route, True)" "SelectedRoute route"
proof (cases "selectedMessageBinding msg")
  case (fields label route sel)
  then have "selectedMessageBinding msg = (label, route, True)" using assms by (simp add: Selected_def)
  then show thesis using that binding_route by blast
qed

lemma submit_start_selected:
  assumes "node_registry (meRegistry env) rc rs" "selectedMessageBinding msg = (label, ch, True)"
    and "int (length bs) \<le> nrReceiveCapacity (native_route rc rs ch)"
  shows "\<exists>payload. submit_start env (peer_call p ch msg bs mode) = SubGate payload label \<and>
    decodeAdapterPayload payload = Ok \<lparr>apVersion = controllerAdapterVersion, apChannelID = ch, apWrapped = bs\<rparr>"
proof -
  have "nrReceiveCapacity (native_route rc rs ch) \<le> 16000000"
    by (simp add: native_route_def maxMsgSize_def snapshotMsgSize_def chunkMsgSize_def)
  then have "\<not> length bs > 0xFFFFFFFF" using assms(3) by linarith
  then obtain payload where p: "encodeAdapterPayload ch bs = Ok payload" by (auto simp: encodeAdapterPayload_def)
  have "ReceiveCapacity (meRegistry env) ch = (nrReceiveCapacity (native_route rc rs ch), True)"
    using node_registry_routes(2) [OF assms(1) binding_route [OF assms(2)]] .
  then show ?thesis using assms(2,3) p decode_encode [OF p] by (simp add: submit_start_def peer_call_def)
qed

text \<open>
  C10. Interception is complete and exact. Over a mediated peer that runs and has the channel, a blocking or a non-blocking send of a
  selected message calls Submit with the identifier of the peer, the channel, the message and its encoding, or reports to the mediation that
  it cannot be encoded, and nothing else; the call gets past the checks of Submit with an adapter payload of
  these bytes when the channel is the one of the message and the bytes are within its capacity, and is reported as a failure of an invariant when
  the channel is another one. Any other message is treated as without mediation. What arrives
  directly on a selected channel is rejected, and on any other channel treated as without mediation.
\<close>

theorem interception_complete:
  assumes "node_registry (meRegistry env) rc rs"
  shows "(pcMediated p \<and> Selected ch msg \<longrightarrow>
      (\<forall>mode. peer_send mar p ch msg mode =
        (if \<not> pcRunning p \<or> \<not> hasChannel p ch then SendNone
         else case mar (wrap_msg msg) of
             Ok bs \<Rightarrow> SendSubmit (pcID p) ch msg bs mode
           | Err e \<Rightarrow> SendInvariant (ErrWrap ''encoding selected channel'' e)
           | Panic t \<Rightarrow> SendPanic t) \<and>
        (\<forall>bs. \<exists>label route. selectedMessageBinding msg = (label, route, True) \<and> SelectedRoute route \<and>
          (if ch \<noteq> route then \<exists>e. submit_start env (peer_call p ch msg bs mode) = SubFatal False e
           else int (length bs) \<le> nrReceiveCapacity (native_route rc rs ch) \<longrightarrow>
             (\<exists>payload. submit_start env (peer_call p ch msg bs mode) = SubGate payload label \<and>
                decodeAdapterPayload payload = Ok \<lparr>apVersion = controllerAdapterVersion, apChannelID = ch, apWrapped = bs\<rparr>))))) \<and>
    (\<not> (pcMediated p \<and> Selected ch msg) \<longrightarrow>
      (\<forall>mode. peer_send mar p ch msg mode = peer_send mar (p\<lparr>pcMediated := False\<rparr>) ch msg mode)) \<and>
    peer_Send mar p ch msg = peer_send mar p ch msg SendModeBlocking \<and> peer_TrySend mar p ch msg = peer_send mar p ch msg SendModeNonBlocking \<and>
    onReceive unm reactors types p ch' arrived =
      (if pcMediated p \<and> SelectedRoute ch' then RecvRejected else onReceive unm reactors types (p\<lparr>pcMediated := False\<rparr>) ch' arrived)"
proof (intro conjI)
  show "pcMediated p \<and> Selected ch msg \<longrightarrow>
      (\<forall>mode. peer_send mar p ch msg mode =
        (if \<not> pcRunning p \<or> \<not> hasChannel p ch then SendNone
         else case mar (wrap_msg msg) of
             Ok bs \<Rightarrow> SendSubmit (pcID p) ch msg bs mode
           | Err e \<Rightarrow> SendInvariant (ErrWrap ''encoding selected channel'' e)
           | Panic t \<Rightarrow> SendPanic t) \<and>
        (\<forall>bs. \<exists>label route. selectedMessageBinding msg = (label, route, True) \<and> SelectedRoute route \<and>
          (if ch \<noteq> route then \<exists>e. submit_start env (peer_call p ch msg bs mode) = SubFatal False e
           else int (length bs) \<le> nrReceiveCapacity (native_route rc rs ch) \<longrightarrow>
             (\<exists>payload. submit_start env (peer_call p ch msg bs mode) = SubGate payload label \<and>
                decodeAdapterPayload payload = Ok \<lparr>apVersion = controllerAdapterVersion, apChannelID = ch, apWrapped = bs\<rparr>))))"
  proof (intro impI allI conjI)
    fix mode bs assume s: "pcMediated p \<and> Selected ch msg"
    show "peer_send mar p ch msg mode =
        (if \<not> pcRunning p \<or> \<not> hasChannel p ch then SendNone
         else case mar (wrap_msg msg) of
             Ok bs \<Rightarrow> SendSubmit (pcID p) ch msg bs mode
           | Err e \<Rightarrow> SendInvariant (ErrWrap ''encoding selected channel'' e)
           | Panic t \<Rightarrow> SendPanic t)"
      using s by (simp add: peer_send_def Let_def split: outcome.split)
    obtain label route where b: "selectedMessageBinding msg = (label, route, True)" "SelectedRoute route" using s selected_binding by blast
    then show "\<exists>label route. selectedMessageBinding msg = (label, route, True) \<and> SelectedRoute route \<and>
          (if ch \<noteq> route then \<exists>e. submit_start env (peer_call p ch msg bs mode) = SubFatal False e
           else int (length bs) \<le> nrReceiveCapacity (native_route rc rs ch) \<longrightarrow>
             (\<exists>payload. submit_start env (peer_call p ch msg bs mode) = SubGate payload label \<and>
                decodeAdapterPayload payload = Ok \<lparr>apVersion = controllerAdapterVersion, apChannelID = ch, apWrapped = bs\<rparr>))"
      using submit_start_selected [OF assms, of msg label ch bs p mode] by (auto simp: submit_start_def peer_call_def)
  qed
qed (auto simp: peer_send_def peer_Send_def peer_TrySend_def onReceive_def hasChannel_def Let_def split: outcome.split)

definition sample_peer_conn :: peer_conn where
  "sample_peer_conn = \<lparr>pcID = other_id, pcRunning = True, pcChannels = [VoteChannel], pcMediated = True\<rparr>"

theorem interception_complete_witness:
  "peer_send (\<lambda>_. Ok [7]) sample_peer_conn VoteChannel (NCons (PVote None)) SendModeBlocking =
     SendSubmit other_id VoteChannel (NCons (PVote None)) [7] SendModeBlocking \<and>
   (\<exists>payload. submit_start sample_env (peer_call sample_peer_conn VoteChannel (NCons (PVote None)) [7] SendModeBlocking) = SubGate payload ''Vote'') \<and>
   onReceive (\<lambda>_ _. Ok (WCons None)) (\<lambda>_. Some ()) (\<lambda>_. Some PtConsensus) sample_peer_conn VoteChannel [] = RecvRejected"
proof -
  have n: "node_registry (meRegistry sample_env) 1 2" using sample_registry_node by (simp add: sample_env_def)
  have m: "pcMediated sample_peer_conn" "Selected VoteChannel (NCons (PVote None))" "SelectedRoute VoteChannel"
    "hasChannel sample_peer_conn VoteChannel" "pcRunning sample_peer_conn" "pcID sample_peer_conn = other_id"
    by (simp_all add: sample_peer_conn_def hasChannel_def Selected_def SelectedRoute_def selectedControllerRoutes_def)
  have c: "1 \<le> nrReceiveCapacity (native_route (1 :: nat) 2 VoteChannel)" by (simp add: native_route_def channel_defs maxMsgSize_def)
  note T = interception_complete [OF n, of sample_peer_conn VoteChannel "NCons (PVote None)" "\<lambda>_. Ok [7]"
      "\<lambda>_ _. Ok (WCons None)" "\<lambda>_. Some ()" "\<lambda>_. Some PtConsensus" VoteChannel "[]"]
  have "\<forall>bs mode. int (length bs) \<le> nrReceiveCapacity (native_route (1 :: nat) 2 VoteChannel) \<longrightarrow>
      (\<exists>payload. submit_start sample_env (peer_call sample_peer_conn VoteChannel (NCons (PVote None)) bs mode) = SubGate payload ''Vote'')"
    using T m by simp blast
  from this [rule_format, of "[7]" SendModeBlocking] show ?thesis using T m c by simp
qed

section \<open>Registration\<close>

lemma register_loop_retry:
  assumes "attempt < attempts" "reply attempt = Some x" "\<not> cancelled attempt"
  shows "register_loop reply cancelled attempts attempt delay e =
    (let d = (if delay < 2 * Second then (if 2 * delay > 2 * Second then 2 * Second else 2 * delay) else delay);
         (r, ds) = register_loop reply cancelled attempts (attempt + 1) d x in (r, delay # ds))"
  using assms by (subst register_loop.simps) simp

lemma register_loop_stop:
  assumes "\<not> (attempt < attempts \<and> reply attempt \<noteq> None \<and> \<not> cancelled attempt)"
  shows "register_loop reply cancelled attempts attempt delay e =
    (if attempt > attempts then (Err (ErrWrap ''controller registration exhausted'' e), [])
     else case reply attempt of
         None \<Rightarrow> (Ok (), [])
       | Some x \<Rightarrow> if attempt = attempts then (Err (ErrWrap ''controller registration exhausted'' x), [])
                   else (Err (ErrNew ''registration canceled''), [delay]))"
  using assms by (subst register_loop.simps) (auto split: option.splits)

lemma register_loop_delays:
  assumes "0 < delay" "delay \<le> 2 * Second" "register_loop reply cancelled attempts attempt delay e = (r, ds)"
  shows "int (length ds) \<le> max 0 (attempts - attempt) \<and> (\<forall>d\<in>set ds. delay \<le> d \<and> d \<le> 2 * Second) \<and> sorted ds"
  using assms
proof (induction "nat (attempts - attempt)" arbitrary: attempt delay e r ds)
  case 0
  then have "\<not> attempt < attempts" by simp
  then show ?case using 0(4) register_loop_stop [of attempt attempts reply cancelled delay e] by (auto split: if_splits option.splits)
next
  case (Suc n)
  let ?d = "if delay < 2 * Second then (if 2 * delay > 2 * Second then 2 * Second else 2 * delay) else delay"
  have lt: "attempt < attempts" using Suc(2) by linarith
  show ?case
  proof (cases "reply attempt \<noteq> None \<and> \<not> cancelled attempt")
    case True
    then obtain x where x: "reply attempt = Some x" by auto
    obtain r' ds' where n: "register_loop reply cancelled attempts (attempt + 1) ?d x = (r', ds')" by fastforce
    have ds: "ds = delay # ds'" using Suc.prems(3) register_loop_retry [of attempt attempts reply x cancelled delay e] lt x True n by (simp add: Let_def)
    have d: "?d \<le> 2 * Second" "delay \<le> ?d" "0 < ?d" using Suc.prems(1,2) by auto
    have m: "n = nat (attempts - (attempt + 1))" using Suc(2) by linarith
    have *: "int (length ds') \<le> max 0 (attempts - (attempt + 1))" "\<forall>d\<in>set ds'. ?d \<le> d \<and> d \<le> 2 * Second" "sorted ds'"
      using Suc.hyps(1) [OF m d(3,1) n] by blast+
    have "\<forall>y\<in>set ds'. delay \<le> y" using *(2) d(2) order_trans by blast
    moreover have "int (length ds) \<le> max 0 (attempts - attempt)" using *(1) lt ds by simp
    ultimately show ?thesis using *(2,3) Suc.prems(2) ds by simp
  next
    case False
    then have "ds = [] \<or> ds = [delay]"
      using Suc.prems(3) register_loop_stop [of attempt attempts reply cancelled delay e] by (auto split: if_splits option.splits)
    then show ?thesis using Suc.prems lt by auto
  qed
qed

definition answered :: "(int \<Rightarrow> err option) \<Rightarrow> (int \<Rightarrow> bool) \<Rightarrow> int \<Rightarrow> int \<Rightarrow> bool" where
  "answered reply cancelled attempts attempt \<longleftrightarrow>
     (\<exists>n. attempt \<le> n \<and> n \<le> attempts \<and> reply n = None \<and> (\<forall>k. attempt \<le> k \<and> k < n \<longrightarrow> reply k \<noteq> None \<and> \<not> cancelled k))"

lemma answered_step:
  assumes "reply attempt = Some x"
  shows "answered reply cancelled attempts attempt \<longleftrightarrow> \<not> cancelled attempt \<and> answered reply cancelled attempts (attempt + 1)"
proof
  assume "answered reply cancelled attempts attempt"
  then obtain n where n: "attempt \<le> n" "n \<le> attempts" "reply n = None" "\<forall>k. attempt \<le> k \<and> k < n \<longrightarrow> reply k \<noteq> None \<and> \<not> cancelled k"
    unfolding answered_def by blast
  then have "attempt + 1 \<le> n" using assms by (cases "n = attempt") auto
  then show "\<not> cancelled attempt \<and> answered reply cancelled attempts (attempt + 1)"
    unfolding answered_def using n by (intro conjI exI [of _ n]) auto
next
  assume r: "\<not> cancelled attempt \<and> answered reply cancelled attempts (attempt + 1)"
  then obtain n where n: "attempt + 1 \<le> n" "n \<le> attempts" "reply n = None" "\<forall>k. attempt + 1 \<le> k \<and> k < n \<longrightarrow> reply k \<noteq> None \<and> \<not> cancelled k"
    unfolding answered_def by blast
  have "reply k \<noteq> None \<and> \<not> cancelled k" if "attempt \<le> k" "k < n" for k using n(4) r assms that by (cases "k = attempt") auto
  then show "answered reply cancelled attempts attempt" unfolding answered_def using n by (intro exI [of _ n]) auto
qed

lemma register_loop_Ok: "fst (register_loop reply cancelled attempts attempt delay e) = Ok () \<longleftrightarrow> answered reply cancelled attempts attempt"
proof (induction "nat (attempts + 1 - attempt)" arbitrary: attempt delay e)
  case 0
  then have "attempts < attempt" by linarith
  then show ?case by (subst register_loop.simps) (auto simp: answered_def)
next
  case (Suc n)
  have le: "attempt \<le> attempts" and m: "n = nat (attempts + 1 - (attempt + 1))" using Suc(2) by linarith+
  show ?case
  proof (cases "reply attempt")
    case None
    then have "answered reply cancelled attempts attempt" unfolding answered_def using le by (intro exI [of _ attempt]) auto
    then show ?thesis using None le by (subst register_loop.simps) simp
  next
    case (Some x)
    show ?thesis
    proof (cases "attempt = attempts \<or> cancelled attempt")
      case True
      then have "\<not> answered reply cancelled attempts attempt" using answered_step [of reply attempt x cancelled attempts] Some by (auto simp: answered_def)
      then show ?thesis using Some True le by (subst register_loop.simps) auto
    next
      case False
      then show ?thesis
        using register_loop_retry [of attempt attempts reply x cancelled delay e] le Some Suc.hyps(1) [OF m, of _ x]
          answered_step [of reply attempt x cancelled attempts]
        by (simp add: Let_def split_beta)
    qed
  qed
qed

text \<open>
  C14. Under a validated configuration registration ends after at most the configured number of requests:
  it succeeds exactly when one of them is answered before the context is cancelled in a pause, it pauses
  fewer times than it asks, and the pauses grow from the configured delay and never exceed two seconds.
\<close>

theorem registration_bounded:
  assumes "ControllerMediationConfig_ValidateBasic (Some cfg) = Ok ()" "mcEnabled cfg" "register reply cancelled cfg = (result, delays)"
  shows "(result = Ok () \<longleftrightarrow> (\<exists>n. 1 \<le> n \<and> n \<le> mcRegistrationAttempts cfg \<and> reply n = None \<and>
      (\<forall>k. 1 \<le> k \<and> k < n \<longrightarrow> reply k \<noteq> None \<and> \<not> cancelled k))) \<and>
    int (length delays) < mcRegistrationAttempts cfg \<and> sorted delays \<and>
    (\<forall>d\<in>set delays. mcRegistrationRetryDelay cfg \<le> d \<and> d \<le> 2 * Second)"
proof -
  have c: "0 < mcRegistrationAttempts cfg" "0 < mcRegistrationRetryDelay cfg" "mcRegistrationRetryDelay cfg \<le> 2 * Second"
    using valid_config [OF assms(1,2)] by simp_all
  have r: "register_loop reply cancelled (mcRegistrationAttempts cfg) 1 (mcRegistrationRetryDelay cfg) (ErrNew ''nil'') = (result, delays)"
    using assms(3) by (simp add: register_def)
  have "result = Ok () \<longleftrightarrow> answered reply cancelled (mcRegistrationAttempts cfg) 1"
    using register_loop_Ok [of reply cancelled "mcRegistrationAttempts cfg" 1 "mcRegistrationRetryDelay cfg" "ErrNew ''nil''"] r by simp
  moreover have "int (length delays) < mcRegistrationAttempts cfg" using register_loop_delays [OF c(2,3) r] c(1) by linarith
  ultimately show ?thesis using register_loop_delays [OF c(2,3) r] unfolding answered_def by blast
qed

theorem registration_bounded_witness:
  "register (\<lambda>n. if n < 3 then Some (ErrNew ''refused'') else None) (\<lambda>_. False) sample_config = (Ok (), [250000000, 500000000]) \<and>
   sorted [250000000, 500000000 :: int] \<and> 250000000 \<le> 2 * Second \<and> 500000000 \<le> 2 * Second"
proof -
  have "register (\<lambda>n. if n < 3 then Some (ErrNew ''refused'') else None) (\<lambda>_. False) sample_config = (Ok (), [250000000, 500000000])"
    by (simp add: register_def register_loop.simps sample_config_def DefaultControllerMediationConfig_def Second_def Millisecond_def)
  then show ?thesis using registration_bounded [OF sample_config_valid] by fastforce
qed

end
