(* ===== verification/Spec2Isabelle.thy ===== *)
theory Spec2Isabelle
  imports Prelude Bit_Array Merkle Part_Set Block_Types Commits Safe_Math Keys Rotation Validators Proposer_Rotation Validator_Updates Commit_Verification Consensus_Msgs Consensus_Wire Peer_State
    Go_Text Mediation_Codec Native_Routes Mediation_Config Mediation_Service Mediation_Concurrency Mediation_Invariant Mediation_Safety Mediation_Steps Mediation_Theorems Mediation_Flow
begin

text \<open>
  Verification library for the instrumented CometBFT node of this repository: CometBFT 1.0.1 under \<^verbatim>\<open>src/cometbft\<close>
  with a mediation service that hands every consensus and state sync message to an external controller
  instead of the network, and takes it back as an HTTP callback at the destination. All file names below are relative
  to \<^verbatim>\<open>src/cometbft\<close>.

  \<^bold>\<open>How the parts interact.\<close> Reactors send typed messages through a peer (\<^verbatim>\<open>p2p/peer.go\<close>). Where a
  mediation sink is set and the message class is selected, the peer calls \<^verbatim>\<open>Submit\<close> of the mediation service
  (\<^verbatim>\<open>node/controller_mediation.go\<close>), which numbers the message per destination, encodes it and queues it; a
  worker posts the queue to the controller. The controller delivers a message by a request to the callback server of
  the destination, whose handler checks and queues it; a second worker decodes it and dispatches it to the
  reactor that owns the channel, through a registry of native routes frozen when the switch starts. The consensus
  reactor records in \<^verbatim>\<open>PeerState\<close> what each peer has, in bit arrays; blocks travel as part sets with Merkle proofs;
  votes are signed over their canonical form; commits are lists of signatures that a validator set verifies; and the
  set itself changes by updates and rotates its proposer.

  \<^bold>\<open>Conventions.\<close> \<open>Prelude\<close> has Go's three ways to end a call (\<open>Ok\<close>, \<open>Err\<close>, \<open>Panic\<close>), checked indexing,
  nil pointers as options, and signed 32- and 64-bit integers as \<open>int\<close> with the wrap-around written out
  (\<open>wrap32\<close>, \<open>wrap64\<close>); unsigned and bitwise data are words. Slices that Go shares through pointers live in an
  explicit store where a property depends on the sharing (proof nodes in \<open>Merkle\<close>, bit arrays in \<open>Peer_State\<close>). Code
  that is not in the repository is a parameter: the hash functions and curve operations (\<open>key_prims\<close>), the generated
  encoders (\<open>crypto_env\<close>), the generated unmarshallers, the network. A theorem that needs something of them has it as a hypothesis,
  and its witness instantiates it.

  \<^bold>\<open>Mediation.\<close>
  \<^item> \<open>Go_Text\<close>: the text functions of the standard library the service uses (decimal, hex, base64, JSON tokens).
  \<^item> \<open>Mediation_Codec\<close>: the outer JSON message, the adapter payload and the identifiers (\<^verbatim>\<open>encodeAdapterPayload\<close>,
    \<^verbatim>\<open>decodeAdapterPayload\<close>, \<^verbatim>\<open>decodeControllerMessage\<close>, \<^verbatim>\<open>validateControllerMessageID\<close>, \<^verbatim>\<open>nextID\<close>). The codecs are exact
    inverses, the outer object is read strictly, and identifiers are consecutive per destination.
  \<^item> \<open>Native_Routes\<close>: \<^verbatim>\<open>p2p/controller_mediation.go\<close>, the channel tables of \<^verbatim>\<open>p2p/switch.go\<close> and the send and receive path
    of \<^verbatim>\<open>p2p/peer.go\<close>. The six selected routes always bind, to the consensus and the state sync reactor.
  \<^item> \<open>Mediation_Config\<close>: the section of \<^verbatim>\<open>config/config.go\<close>, its validation and the testnet command. A validated
    configuration lets every submitted message fit the callback of its destination.
  \<^item> \<open>Mediation_Service\<close>: \<^verbatim>\<open>controllerMediation\<close>. Each goroutine is a function from a program counter and the shared state to
    the list of its possible next ones, one atomic step at a time; an empty list is a goroutine that blocks. There
    are programs for \<^verbatim>\<open>Submit\<close>, \<^verbatim>\<open>submissionWorker\<close>, \<^verbatim>\<open>serveMessage\<close>, \<^verbatim>\<open>reinjectionWorker\<close>, the lifecycle (\<^verbatim>\<open>Start\<close>,
    \<^verbatim>\<open>stopLocked\<close>) and the listener, and plain functions for \<^verbatim>\<open>check_callback\<close>, \<^verbatim>\<open>register\<close> and \<^verbatim>\<open>post\<close>.
  \<^item> \<open>Mediation_Concurrency\<close>, \<open>Mediation_Invariant\<close>, \<open>Mediation_Safety\<close>, \<open>Mediation_Steps\<close>: any number of these
    goroutines together, the step relation, and its invariant: tokens, slots, bytes and the fatal notification are
    conserved, what the shared state lacks being held by the goroutine whose program counter says so.
  \<^item> \<open>Mediation_Theorems\<close>, \<open>Mediation_Flow\<close>: in every interleaving no closed channel is used, the queues keep
    their limits, messages keep their order and numbers, calls of \<^verbatim>\<open>Submit\<close> end after twelve own steps, what can block each
    goroutine is listed and whoever it waits for can move, and shutdown releases all reservations; a submitted message arrives unchanged at
    the reactor of the destination; the peers hand exactly the selected messages to the service; which callbacks are accepted, rejected or make the handler panic; registration is bounded.

  \<^bold>\<open>Consensus data.\<close>
  \<^item> \<open>Bit_Array\<close>: \<^verbatim>\<open>internal/bits/bit_array.go\<close>, refined to sets of positions by the locale \<open>bit_store\<close>.
  \<^item> \<open>Merkle\<close>, \<open>Part_Set\<close>: \<^verbatim>\<open>crypto/merkle\<close> and \<^verbatim>\<open>types/part_set.go\<close>. Proofs are sound and complete, the iterative
    root equals the recursive one, and a part set reassembles only what its header commits to.
  \<^item> \<open>Keys\<close>, \<open>Block_Types\<close>, \<open>Commits\<close>: public keys and batch verification, votes, proposals and their sign
    bytes, commits and extended commits, with validation, round trips and what a signature binds.
  \<^item> \<open>Safe_Math\<close>, \<open>Rotation\<close>, \<open>Validators\<close>, \<open>Proposer_Rotation\<close>, \<open>Validator_Updates\<close>: checked arithmetic and
    \<^verbatim>\<open>types/validator_set.go\<close>. The rotation is fair and stays within 64 bits, updates refine a map of powers;
    sorting by address and by power are two instances of the locale \<open>keyed_order\<close>.
  \<^item> \<open>Commit_Verification\<close>: \<^verbatim>\<open>types/validation.go\<close>. Both routines accept only what more than the needed power has signed, the batch accepts what
    the single routine accepts and, on signatures that pass their validation, nothing else; two verified commits of one set share more than a third of its power.
  \<^item> \<open>Consensus_Msgs\<close>, \<open>Consensus_Wire\<close>, \<open>Peer_State\<close>: the messages of \<^verbatim>\<open>internal/consensus/reactor.go\<close> with \<^verbatim>\<open>msgs.go\<close>, the
    entries of the write-ahead log, the state sync messages and \<^verbatim>\<open>PeerState\<close>. Decoded messages are valid, log entries survive, and
    operations on the recorded state never panic on well-formed bit arrays; a message that validation lets through
    without that makes a node panic.

  \<^bold>\<open>Bounds and fuel.\<close> No definition takes fuel: loops are structural recursions over the data or a counter Go has too, or
    functions with a termination proof; following the pointers of proof nodes is a partial function shown to return. The scheduler of \<open>Mediation_Theorems\<close> runs a given list of
    choices and is used by witnesses only; the theorems quantify over all reachable states. The limits are those of the code:
    64-bit powers capped at \<open>MaxTotalVotingPower\<close>, and lists shorter than \<open>2 ^ 31\<close> where an index is converted to 32 bits.

  \<^bold>\<open>Not modelled.\<close> The consensus state machine, the goroutines of its reactor, vote sets, blocks and headers, evidence, the
  block, state and evidence stores, block and state sync, the mempool and the light client: they run over the application
  connection, the database or timers, and each would be a development of the size of this one. The rest of p2p, RPC, ABCI, the private validators, the
  framing of the write-ahead log and the commands are network and file I/O. The assembly of the node is
  wiring. The generated code, the curve libraries and the BLS build are parameters or left out. In modelled files, the pretty printers,
  logging, metrics and JSON registration are left out, as is \<^verbatim>\<open>SignAndCheckVote\<close>. In the service, the
  HTTP client and server, the timers and the peer set are choices of the environment: every outcome is considered at each
  step, but how long a step takes is not.
\<close>

end
